(* ===== verification/Prelude.thy ===== *)
theory Prelude
  imports Main "HOL-Library.Word"
begin

text \<open>
  Shared vocabulary of the development: the machine types of the code, a byte-addressed
  memory with raw pointers, the object representation of unsigned integers in either byte
  order, and the generic lemmas about them that every component uses.

  Addresses and object sizes are natural numbers. Pointer arithmetic of the code stays inside
  one buffer object, where C++ gives it no wrap-around; \<open>nullptr\<close> is the address 0. Run-time
  values of the integer types keep their width (\<open>u8\<close>, \<open>u16\<close>, \<open>u32\<close>, \<open>u64\<close>).
\<close>

unbundle bit_operations_syntax

type_synonym u8 = "8 word"
type_synonym u16 = "16 word"
type_synonym u32 = "32 word"
type_synonym u64 = "64 word"

type_synonym bytes = "u8 list"
type_synonym ptr = nat
type_synonym mem = "ptr \<Rightarrow> u8"

definition nullptr :: ptr where
  "nullptr = 0"

lemma add_neq_nullptr [simp]: "0 < k \<Longrightarrow> a + k \<noteq> nullptr"
  by (simp add: nullptr_def)

text \<open>Rewrite rules of the memory model, and facts that bound machine integers.\<close>

named_theorems mem_simps
named_theorems width_simps

lemma xor_cancel [simp]:
  fixes x y a :: "'a::len word"
  shows "x XOR a = y XOR a \<longleftrightarrow> x = y" and "a XOR x = a XOR y \<longleftrightarrow> x = y"
  by (auto simp: bit_eq_iff bit_xor_iff)

lemma unat_ucast_32_64 [simp, width_simps]: "unat (ucast (w :: u32) :: u64) = unat w"
proof -
  have "unat w < 2 ^ 32" using unsigned_less [of w] by simp
  then show ?thesis by (simp add: unsigned_ucast_eq take_bit_nat_eq_self_iff)
qed

section \<open>Memory\<close>

definition read_bytes :: "mem \<Rightarrow> ptr \<Rightarrow> nat \<Rightarrow> bytes" where
  "read_bytes m a n = map (\<lambda>i. m (a + i)) [0..<n]"

definition write_bytes :: "mem \<Rightarrow> ptr \<Rightarrow> bytes \<Rightarrow> mem" where
  "write_bytes m a bs = (\<lambda>x. if a \<le> x \<and> x < a + length bs then bs ! (x - a) else m x)"

text \<open>\<open>std::memset(p, b, n)\<close> and \<open>std::memcpy(dst, src, n)\<close>.\<close>

definition mem_set :: "mem \<Rightarrow> ptr \<Rightarrow> u8 \<Rightarrow> nat \<Rightarrow> mem" where
  "mem_set m a b n = write_bytes m a (replicate n b)"

definition mem_cpy :: "mem \<Rightarrow> ptr \<Rightarrow> ptr \<Rightarrow> nat \<Rightarrow> mem" where
  "mem_cpy m dst src n = write_bytes m dst (read_bytes m src n)"

lemma length_read_bytes [simp, mem_simps]: "length (read_bytes m a n) = n"
  by (simp add: read_bytes_def)

lemma nth_read_bytes [simp]: "i < n \<Longrightarrow> read_bytes m a n ! i = m (a + i)"
  by (simp add: read_bytes_def)

lemma read_bytes_0 [simp]: "read_bytes m a 0 = []"
  by (simp add: read_bytes_def)

lemma read_bytes_cong:
  "(\<And>i. i < n \<Longrightarrow> m (a + i) = m' (a' + i)) \<Longrightarrow> read_bytes m a n = read_bytes m' a' n"
  by (simp add: read_bytes_def)

lemma read_bytes_append:
  "read_bytes m a (n + k) = read_bytes m a n @ read_bytes m (a + n) k"
  by (rule nth_equalityI) (auto simp: nth_append)

text \<open>The same bytes at two places: so are their parts.\<close>

lemma read_bytes_part:
  assumes "read_bytes m p n = read_bytes m' p' n" "k + j \<le> n"
  shows "read_bytes m (p + k) j = read_bytes m' (p' + k) j"
proof (rule read_bytes_cong)
  fix i assume "i < j"
  then have "k + i < n" using assms(2) by simp
  then show "m (p + k + i) = m' (p' + k + i)"
    using arg_cong [OF assms(1), of "\<lambda>bs. bs ! (k + i)"] by (simp add: add.assoc)
qed

lemma take_read_bytes [mem_simps]: "take k (read_bytes m a n) = read_bytes m a (min k n)"
  by (rule nth_equalityI) auto

lemma drop_read_bytes [mem_simps]: "drop k (read_bytes m a n) = read_bytes m (a + k) (n - k)"
  by (rule nth_equalityI) (auto simp: add.assoc)

lemma write_bytes_other:
  "x < a \<or> a + length bs \<le> x \<Longrightarrow> write_bytes m a bs x = m x"
  by (auto simp: write_bytes_def)

lemma read_write_same [simp, mem_simps]:
  "n = length bs \<Longrightarrow> read_bytes (write_bytes m a bs) a n = bs"
  by (rule nth_equalityI) (auto simp: write_bytes_def)

lemma read_write_disjoint [mem_simps]:
  "a + n \<le> b \<or> b + length bs \<le> a \<Longrightarrow> read_bytes (write_bytes m b bs) a n = read_bytes m a n"
  by (rule read_bytes_cong) (auto simp: write_bytes_def)

lemma read_write_inside:
  "b \<le> a \<Longrightarrow> a + n \<le> b + length bs \<Longrightarrow>
     read_bytes (write_bytes m b bs) a n = take n (drop (a - b) bs)"
  by (rule nth_equalityI) (auto simp: write_bytes_def)

lemma write_bytes_id [simp]: "write_bytes m a (read_bytes m a n) = m"
  by (rule ext) (auto simp: write_bytes_def)

lemma write_bytes_over:
  "length bs = length cs \<Longrightarrow> write_bytes (write_bytes m a bs) a cs = write_bytes m a cs"
  by (rule ext) (auto simp: write_bytes_def)

text \<open>Two memories agree outside a region: the frame condition of every write.\<close>

definition same_outside :: "ptr \<Rightarrow> nat \<Rightarrow> mem \<Rightarrow> mem \<Rightarrow> bool" where
  "same_outside a n m m' \<longleftrightarrow> (\<forall>x. x < a \<or> a + n \<le> x \<longrightarrow> m' x = m x)"

lemma same_outside_refl [simp, intro]: "same_outside a n m m"
  by (simp add: same_outside_def)

lemma same_outside_trans [trans]:
  "same_outside a n m m' \<Longrightarrow> same_outside a n m' m'' \<Longrightarrow> same_outside a n m m''"
  by (simp add: same_outside_def)

lemma same_outside_write [intro]:
  "a \<le> b \<Longrightarrow> b + length bs \<le> a + n \<Longrightarrow> same_outside a n m (write_bytes m b bs)"
  by (auto simp: same_outside_def write_bytes_def)

lemma same_outside_writeI:
  "same_outside a n m m' \<Longrightarrow> a \<le> b \<Longrightarrow> b + length bs \<le> a + n \<Longrightarrow>
     same_outside a n m (write_bytes m' b bs)"
  by (auto simp: same_outside_def write_bytes_def)

lemma same_outside_read:
  "same_outside a n m m' \<Longrightarrow> b + k \<le> a \<or> a + n \<le> b \<Longrightarrow> read_bytes m' b k = read_bytes m b k"
  by (rule read_bytes_cong) (auto simp: same_outside_def)

lemma same_outside_mono:
  "same_outside a n m m' \<Longrightarrow> b \<le> a \<Longrightarrow> a + n \<le> b + k \<Longrightarrow> same_outside b k m m'"
  by (auto simp: same_outside_def)

section \<open>Object representation of unsigned integers\<close>

definition bytes_le :: "nat \<Rightarrow> 'a::len word \<Rightarrow> bytes" where
  "bytes_le n w = map (\<lambda>i. ucast (drop_bit (8 * i) w)) [0..<n]"

primrec word_le :: "bytes \<Rightarrow> 'a::len word" where
  "word_le [] = 0"
| "word_le (b # bs) = ucast b OR push_bit 8 (word_le bs)"

lemma length_bytes_le [simp, mem_simps]: "length (bytes_le n w) = n"
  by (simp add: bytes_le_def)

lemma bytes_le_Suc:
  "bytes_le (Suc n) w = ucast w # bytes_le n (drop_bit 8 w)"
  unfolding bytes_le_def upt_conv_Cons [OF zero_less_Suc] map_Suc_upt [symmetric]
  by (simp add: drop_bit_drop_bit add.commute)

lemma bytes_le_0 [simp]: "bytes_le 0 w = []"
  by (simp add: bytes_le_def)

lemma bytes_le_2: "bytes_le 2 w = [ucast w, ucast (drop_bit 8 w)]"
proof -
  have "[0..<2] = [0, 1::nat]" by code_simp
  then show ?thesis by (simp add: bytes_le_def)
qed

lemma bytes_le_4:
  "bytes_le 4 w =
     [ucast w, ucast (drop_bit 8 w), ucast (drop_bit 16 w), ucast (drop_bit 24 w)]"
proof -
  have "[0..<4] = [0, 1, 2, 3::nat]" by code_simp
  then show ?thesis by (simp add: bytes_le_def)
qed

lemma bytes_le_8:
  "bytes_le 8 w =
     [ucast w, ucast (drop_bit 8 w), ucast (drop_bit 16 w), ucast (drop_bit 24 w),
      ucast (drop_bit 32 w), ucast (drop_bit 40 w), ucast (drop_bit 48 w), ucast (drop_bit 56 w)]"
proof -
  have "[0..<8] = [0, 1, 2, 3, 4, 5, 6, 7::nat]" by code_simp
  then show ?thesis by (simp add: bytes_le_def)
qed

text \<open>Equality of bytes, bit by bit: the eight cases a bitwise proof about one byte has.\<close>

lemma byte_bit_cases:
  "k < LENGTH(8) \<Longrightarrow>
     k = 0 \<or> k = 1 \<or> k = 2 \<or> k = 3 \<or> k = 4 \<or> k = 5 \<or> k = 6 \<or> (k::nat) = 7"
  by auto

lemmas bitwise = bit_or_iff bit_and_iff bit_xor_iff bit_push_bit_iff bit_drop_bit_eq
  bit_ucast_iff o_def

lemma bit_word_le:
  "bit (word_le bs :: 'a::len word) k \<longleftrightarrow>
     k < LENGTH('a) \<and> k div 8 < length bs \<and> bit (bs ! (k div 8)) (k mod 8)"
proof (induction bs arbitrary: k)
  case Nil
  then show ?case by simp
next
  case (Cons b bs)
  show ?case
  proof (cases "k < 8")
    case True
    then show ?thesis
      by (auto simp: bit_or_iff bit_ucast_iff bit_push_bit_iff)
  next
    case False
    then obtain j where k: "k = j + 8"
      by (metis le_add_diff_inverse2 not_less)
    have "\<not> bit b k"
      using False by (simp add: bit_word.rep_eq bit_imp_le_length)
    moreover have "k div 8 = Suc (j div 8)" "k mod 8 = j mod 8"
      using k by simp_all
    ultimately show ?thesis
      using k by (auto simp: bit_or_iff bit_ucast_iff bit_push_bit_iff Cons.IH)
  qed
qed

lemma bit_nth_bytes_le:
  "i < n \<Longrightarrow> bit (bytes_le n w ! i) k \<longleftrightarrow> k < 8 \<and> bit w (8 * i + k)"
  by (auto simp: bytes_le_def bit_ucast_iff bit_drop_bit_eq)

lemma word_le_bytes_le [simp, mem_simps]:
  fixes w :: "'a::len word"
  assumes "LENGTH('a) \<le> 8 * n"
  shows "word_le (bytes_le n w) = w"
proof (rule bit_word_eqI)
  fix k assume k: "k < LENGTH('a)"
  with assms have "k div 8 < n" by auto
  with k show "bit (word_le (bytes_le n w) :: 'a word) k = bit w k"
    by (simp add: bit_word_le bit_nth_bytes_le)
qed

lemma bytes_le_word_le [simp, mem_simps]:
  assumes "8 * length bs \<le> LENGTH('a)" and "n = length bs"
  shows "bytes_le n (word_le bs :: 'a::len word) = bs"
proof (rule nth_equalityI)
  show "length (bytes_le n (word_le bs :: 'a word)) = length bs"
    using assms by simp
next
  fix i assume "i < length (bytes_le n (word_le bs :: 'a word))"
  with assms have i: "i < length bs" "i < n" by simp_all
  show "bytes_le n (word_le bs :: 'a word) ! i = bs ! i"
  proof (rule bit_word_eqI)
    fix k assume k: "k < LENGTH(8)"
    from k i assms have "8 * i + k < LENGTH('a)" by simp
    with k i show "bit (bytes_le n (word_le bs :: 'a word) ! i) k = bit (bs ! i) k"
      by (simp add: bit_nth_bytes_le bit_word_le)
  qed
qed

end
