(* ===== verification/Crc32.thy ===== *)
theory Crc32
  imports Prelude
begin

text \<open>
  Model of \<open>include/sinew/crc32.hpp\<close>: the table generator, the table-driven loop over a buffer,
  the bit-serial shift register it implements, and what the checksum detects.
\<close>

section \<open>The code\<close>

text \<open>The body of the inner loop of \<open>generate_crc32_table\<close>.\<close>

definition crc_bit :: "u32 \<Rightarrow> u32" where
  "crc_bit crc = (if crc AND 1 \<noteq> 0 then 0xEDB88320 XOR drop_bit 1 crc else drop_bit 1 crc)"

definition generate_crc32_table :: "u32 list" where
  "generate_crc32_table = map (\<lambda>i. (crc_bit ^^ 8) (of_nat i)) [0..<256]"

definition crc32_table :: "u32 list" where
  "crc32_table = generate_crc32_table"

text \<open>
  The body of the loop over the data: \<open>lookup_index\<close> is truncated to \<open>uint8_t\<close>, so it is always
  inside the table.
\<close>

definition crc32_update :: "u32 \<Rightarrow> u8 \<Rightarrow> u32" where
  "crc32_update crc b =
     (let lookup_index = (ucast (crc XOR ucast b) :: u8)
      in drop_bit 8 crc XOR crc32_table ! unat lookup_index)"

definition crc32 :: "mem \<Rightarrow> ptr \<Rightarrow> nat \<Rightarrow> u32 \<Rightarrow> u32" where
  "crc32 m data n initial =
     (if data = nullptr \<or> n = 0 then 0
      else foldl crc32_update initial (read_bytes m data n) XOR 0xFFFFFFFF)"

text \<open>The value of the default call on a byte sequence.\<close>

definition crc32_of :: "bytes \<Rightarrow> u32" where
  "crc32_of bs = (if bs = [] then 0 else foldl crc32_update 0xFFFFFFFF bs XOR 0xFFFFFFFF)"

lemma crc32_default:
  "data \<noteq> nullptr \<Longrightarrow> crc32 m data n 0xFFFFFFFF = crc32_of (read_bytes m data n)"
proof -
  assume "data \<noteq> nullptr"
  moreover have "read_bytes m data n = [] \<longleftrightarrow> n = 0"
    by (metis length_0_conv length_read_bytes)
  ultimately show ?thesis
    by (auto simp: crc32_def crc32_of_def)
qed

section \<open>Linear maps over XOR\<close>

locale xor_linear =
  fixes f :: "'a::len word \<Rightarrow> 'a word"
  assumes xor: "f (x XOR y) = f x XOR f y"
begin

lemma zero: "f 0 = 0"
  using xor [of 0 0] by simp

lemma funpow_xor: "(f ^^ n) (x XOR y) = (f ^^ n) x XOR (f ^^ n) y"
  by (induction n) (simp_all add: xor)

lemma funpow_zero: "(f ^^ n) 0 = 0"
  by (induction n) (simp_all add: zero)

lemma inj_from_kernel:
  assumes "\<And>x. f x = 0 \<Longrightarrow> x = 0"
  shows "inj f"
proof (rule injI)
  fix x y assume "f x = f y"
  then have "f (x XOR y) = 0" by (simp add: xor)
  then have "x XOR y = 0" by (rule assms)
  then show "x = y" by (metis xor.left_neutral xor.right_neutral xor_self_eq xor.assoc)
qed

end

lemma crc_bit_alt: "crc_bit x = drop_bit 1 x XOR (if bit x 0 then 0xEDB88320 else 0)"
  by (simp add: crc_bit_def and_one_eq xor.commute bit_0 odd_iff_mod_2_eq_one)

interpretation crc_shift: xor_linear crc_bit
proof
  show "crc_bit (x XOR y) = crc_bit x XOR crc_bit y" for x y
    by (auto simp: crc_bit_alt bit_xor_iff xor.assoc xor.left_commute xor.commute)
qed

lemma crc_bit_kernel:
  assumes "crc_bit x = 0"
  shows "x = 0"
proof (cases "bit x 0")
  case True
  with assms have "drop_bit 1 x XOR 0xEDB88320 = 0" by (simp add: crc_bit_alt)
  then have "bit (drop_bit 1 x XOR 0xEDB88320) 31 = bit (0 :: u32) 31" by simp
  then have "bit x 32" by (simp add: bit_xor_iff bit_drop_bit_eq)
  then show ?thesis using bit_imp_le_length [of x 32] by simp
next
  case False
  with assms have z: "drop_bit 1 x = 0" by (simp add: crc_bit_alt)
  show ?thesis
  proof (rule bit_word_eqI)
    fix n assume "n < LENGTH(32)"
    have "bit (drop_bit 1 x) (n - 1) = False" using z by simp
    with False show "bit x n = bit 0 n"
      by (cases n) (simp_all add: bit_drop_bit_eq)
  qed
qed

lemma inj_crc_bit: "inj (crc_bit ^^ n)"
proof -
  have "inj crc_bit" by (rule crc_shift.inj_from_kernel) (rule crc_bit_kernel)
  then show ?thesis by (rule inj_fn)
qed

text \<open>Shifting out zero bits is a plain shift.\<close>

lemma crc_bit_zeros: "(\<And>k. k < n \<Longrightarrow> \<not> bit x k) \<Longrightarrow> (crc_bit ^^ n) x = drop_bit n x"
proof (induction n)
  case 0
  then show ?case by simp
next
  case (Suc n)
  then have "(crc_bit ^^ n) x = drop_bit n x" "\<not> bit x n" by simp_all
  then have "(crc_bit ^^ Suc n) x = crc_bit (drop_bit n x)" by simp
  also have "\<dots> = drop_bit (Suc n) x"
    using \<open>\<not> bit x n\<close> by (simp add: crc_bit_alt bit_drop_bit_eq drop_bit_drop_bit)
  finally show ?case .
qed

lemma crc_bit_push: "(crc_bit ^^ n) (push_bit n x) = drop_bit n (push_bit n x)"
  by (rule crc_bit_zeros) (simp add: bit_push_bit_iff)

section \<open>The table computes eight bit steps at once\<close>

lemma crc32_table_nth: "i < 256 \<Longrightarrow> crc32_table ! i = (crc_bit ^^ 8) (of_nat i)"
  by (simp add: crc32_table_def generate_crc32_table_def)

lemma length_crc32_table: "length crc32_table = 256"
  by (simp add: crc32_table_def generate_crc32_table_def)

lemma crc_step8_split:
  "(crc_bit ^^ 8) x = drop_bit 8 x XOR (crc_bit ^^ 8) (ucast (ucast x :: u8))"
proof -
  let ?hi = "push_bit 8 (drop_bit 8 x)" and ?lo = "ucast (ucast x :: u8) :: u32"
  have "x = ?hi XOR ?lo"
    by (rule bit_word_eqI) (auto simp: bitwise)
  then have "(crc_bit ^^ 8) x = (crc_bit ^^ 8) ?hi XOR (crc_bit ^^ 8) ?lo"
    by (metis crc_shift.funpow_xor)
  also have "(crc_bit ^^ 8) ?hi = drop_bit 8 x"
    unfolding crc_bit_push
    by (rule bit_word_eqI) (auto simp: bitwise dest: bit_imp_le_length)
  finally show ?thesis .
qed

lemma crc32_update_steps: "crc32_update crc b = (crc_bit ^^ 8) (crc XOR ucast b)"
proof -
  let ?x = "crc XOR ucast b"
  have "unat (ucast ?x :: u8) < 256"
    using unsigned_less [of "ucast ?x :: u8"] by simp
  then have "crc32_table ! unat (ucast ?x :: u8) = (crc_bit ^^ 8) (ucast (ucast ?x :: u8))"
    by (simp add: crc32_table_nth)
  moreover have "drop_bit 8 crc = drop_bit 8 ?x"
    by (rule bit_word_eqI) (auto simp: bitwise dest: bit_imp_le_length)
  ultimately show ?thesis
    by (simp add: crc32_update_def crc_step8_split [of ?x])
qed

section \<open>The loop over a buffer\<close>

lemma crc32_update_window:
  "length w \<le> 4 \<Longrightarrow> foldl crc32_update c w = (crc_bit ^^ (8 * length w)) (c XOR word_le w)"
proof (induction w arbitrary: c)
  case Nil
  then show ?case by simp
next
  case (Cons b bs)
  let ?W = "word_le bs :: u32"
  have split: "word_le (b # bs) = ucast b XOR push_bit 8 ?W"
    by (rule bit_word_eqI) (auto simp: bitwise dest: bit_imp_le_length)
  have small: "drop_bit 8 (push_bit 8 ?W) = ?W"
    using Cons.prems by (intro bit_word_eqI) (auto simp: bitwise bit_word_le)
  have "(crc_bit ^^ (8 * length (b # bs))) (c XOR word_le (b # bs)) =
      (crc_bit ^^ (8 * length bs)) ((crc_bit ^^ 8) ((c XOR ucast b) XOR push_bit 8 ?W))"
    unfolding split by (simp only: length_Cons mult_Suc_right add.commute [of 8] funpow_add o_def xor.assoc)
  also have "(crc_bit ^^ 8) ((c XOR ucast b) XOR push_bit 8 ?W) =
      crc32_update c b XOR ?W"
    by (simp add: crc_shift.funpow_xor crc32_update_steps crc_bit_push small)
  also have "(crc_bit ^^ (8 * length bs)) (crc32_update c b XOR ?W) = foldl crc32_update c (b # bs)"
    using Cons by simp
  finally show ?case ..
qed

lemma inj_crc32_suffix: "foldl crc32_update c ys = foldl crc32_update d ys \<Longrightarrow> c = d"
proof (induction ys arbitrary: c d)
  case Nil
  then show ?case by simp
next
  case (Cons y ys)
  then have "(crc_bit ^^ 8) (c XOR ucast y) = (crc_bit ^^ 8) (d XOR ucast y)"
    by (auto simp: crc32_update_steps)
  then have "c XOR ucast y = d XOR ucast y"
    by (rule injD [OF inj_crc_bit])
  then show ?case by simp
qed

lemma inj_word_le4:
  "length v = length w \<Longrightarrow> length w \<le> 4 \<Longrightarrow> (word_le v :: u32) = word_le w \<Longrightarrow> v = w"
  by (drule arg_cong [where f = "bytes_le (length w)"]) simp

lemma crc32_of_append:
  "bs \<noteq> [] \<Longrightarrow> crc32_of (as @ bs) =
     foldl crc32_update (foldl crc32_update 0xFFFFFFFF as) bs XOR 0xFFFFFFFF"
  by (simp add: crc32_of_def)

lemma crc32_burst:
  assumes len: "length v = length w" "length w \<le> 4" and diff: "v \<noteq> w"
  shows "crc32_of (xs @ v @ ys) \<noteq> crc32_of (xs @ w @ ys)"
proof
  let ?c = "foldl crc32_update 0xFFFFFFFF xs"
  from len diff have ne: "v \<noteq> []" "w \<noteq> []" by auto
  assume "crc32_of (xs @ v @ ys) = crc32_of (xs @ w @ ys)"
  then have "foldl crc32_update ?c (v @ ys) = foldl crc32_update ?c (w @ ys)"
    using ne by (simp add: crc32_of_def)
  then have "foldl crc32_update ?c v = foldl crc32_update ?c w"
    by (simp add: inj_crc32_suffix)
  then have "(crc_bit ^^ (8 * length w)) (?c XOR word_le v) =
      (crc_bit ^^ (8 * length w)) (?c XOR word_le w)"
    using len by (simp add: crc32_update_window)
  then have "?c XOR word_le v = ?c XOR word_le w"
    by (rule injD [OF inj_crc_bit])
  then have "(word_le v :: u32) = word_le w" by simp
  with len diff show False by (blast dest: inj_word_le4)
qed

section \<open>The bit-serial register of the standard\<close>

text \<open>
  CRC-32 as the standard defines it: a shift register with the reflected polynomial, fed with
  the bits of every byte, least significant bit first, preset to ones and complemented at the
  end. It knows nothing of tables.
\<close>

definition crc_serial :: "u32 \<Rightarrow> bool \<Rightarrow> u32" where
  "crc_serial crc b = drop_bit 1 crc XOR (if bit crc 0 \<noteq> b then 0xEDB88320 else 0)"

definition byte_bits :: "u8 \<Rightarrow> bool list" where
  "byte_bits b = map (bit b) [0..<8]"

definition crc32_reference :: "bytes \<Rightarrow> u32" where
  "crc32_reference bs =
     foldl crc_serial 0xFFFFFFFF (concat (map byte_bits bs)) XOR 0xFFFFFFFF"

lemma crc_serial_bit: "crc_serial c b = crc_bit (c XOR of_bool b)"
  by (auto simp: crc_serial_def crc_bit_alt bit_xor_iff drop_bit_xor)

lemma crc_serial_word:
  "n \<le> 32 \<Longrightarrow> foldl crc_serial c (map (bit w) [0..<n]) = (crc_bit ^^ n) (c XOR take_bit n w)"
  for w :: u32
proof (induction n)
  case 0
  then show ?case by simp
next
  case (Suc n)
  let ?b = "of_bool (bit w n) :: u32"
  have split: "take_bit (Suc n) w = take_bit n w XOR push_bit n ?b"
    by (rule bit_word_eqI)
      (use Suc.prems in \<open>auto simp: bitwise bit_take_bit_iff bit_of_bool_iff less_Suc_eq\<close>)
  have top: "(crc_bit ^^ n) (push_bit n ?b) = ?b"
    unfolding crc_bit_push
    by (rule bit_word_eqI) (use Suc.prems in \<open>auto simp: bitwise bit_of_bool_iff\<close>)
  have "foldl crc_serial c (map (bit w) [0..<Suc n]) =
      crc_bit ((crc_bit ^^ n) (c XOR take_bit n w) XOR ?b)"
    using Suc by (simp add: crc_serial_bit [of "(crc_bit ^^ n) _"])
  also have "(crc_bit ^^ n) (c XOR take_bit n w) XOR ?b = (crc_bit ^^ n) (c XOR take_bit (Suc n) w)"
    by (simp only: split crc_shift.funpow_xor top xor.assoc)
  finally show ?case by simp
qed

lemma crc32_update_serial: "foldl crc_serial c (byte_bits b) = crc32_update c b"
proof -
  have "byte_bits b = map (bit (ucast b :: u32)) [0..<8]"
    by (auto simp: byte_bits_def bit_ucast_iff)
  moreover have "take_bit 8 (ucast b :: u32) = ucast b"
    by (rule bit_word_eqI) (auto simp: bitwise bit_take_bit_iff dest: bit_imp_le_length)
  ultimately show ?thesis
    by (simp add: crc_serial_word crc32_update_steps)
qed

lemma crc32_loop_serial:
  "foldl crc_serial c (concat (map byte_bits bs)) = foldl crc32_update c bs"
  by (induction bs arbitrary: c) (simp_all add: crc32_update_serial)

section \<open>Properties of the checksum\<close>

text \<open>
  C22. The table-driven \<open>crc32\<close> of any buffer is the bit-serial CRC-32 of the standard over its bytes;
  for a null pointer, and for no bytes, it is 0.
\<close>

theorem crc32_matches_standard:
  "crc32 m data n 0xFFFFFFFF =
     (if data = nullptr then 0 else crc32_reference (read_bytes m data n))"
proof (cases "data = nullptr")
  case True
  then show ?thesis by (simp add: crc32_def)
next
  case False
  have "crc32_of bs = crc32_reference bs" for bs
    by (cases bs) (simp_all add: crc32_of_def crc32_reference_def crc32_update_serial crc32_loop_serial)
  with False show ?thesis by (simp add: crc32_default)
qed

text \<open>
  The checksum can be computed piecewise: passing the complement of the checksum of a first
  non-empty part as \<open>initial\<close> for the rest gives the checksum of the whole.
\<close>

theorem crc32_incremental:
  assumes "data \<noteq> nullptr" "0 < k" "0 < n"
  shows "crc32 m (data + k) n (crc32 m data k 0xFFFFFFFF XOR 0xFFFFFFFF) =
    crc32 m data (k + n) 0xFFFFFFFF"
  using assms by (simp add: crc32_def read_bytes_append xor.assoc nullptr_def)

theorem crc32_incremental_witness:
  "crc32 (\<lambda>_. 7) (100 + 3) 5 (crc32 (\<lambda>_. 7) 100 3 0xFFFFFFFF XOR 0xFFFFFFFF) =
    crc32 (\<lambda>_. 7) 100 (3 + 5) 0xFFFFFFFF"
  by (rule crc32_incremental) (simp_all add: nullptr_def)

section \<open>Evaluation without the table\<close>

text \<open>The loop on closed data, by bit steps instead of 256 table entries.\<close>

lemma crc_step8_unroll:
  "(crc_bit ^^ 8) x =
     crc_bit (crc_bit (crc_bit (crc_bit (crc_bit (crc_bit (crc_bit (crc_bit x)))))))"
  by (simp add: eval_nat_numeral)

lemmas crc32_eval = crc32_of_def crc32_update_steps crc_step8_unroll crc_bit_def

lemma crc32_check_value:
  "crc32_of [0x31, 0x32, 0x33, 0x34, 0x35, 0x36, 0x37, 0x38, 0x39] = 0xCBF43926"
  by (simp add: crc32_eval)

end
