(* ===== verification/Endian.thy ===== *)
theory Endian
  imports Prelude
begin

text \<open>
  Model of \<open>include/sinew/endian.hpp\<close>, and of how a host stores an unsigned integer: the byte
  order of the host (\<open>native_endian()\<close>, a compile-time constant of the build) is an argument
  \<open>e\<close> of every definition that looks at an object representation, so one model covers both
  kinds of host and a theorem can relate two of them.
\<close>

section \<open>Byte order of the host\<close>

datatype endian = Little | Big

text \<open>The object representation of an \<open>n\<close>-byte unsigned integer on a host of order \<open>e\<close>.\<close>

definition obj_of_word :: "endian \<Rightarrow> nat \<Rightarrow> 'a::len word \<Rightarrow> bytes" where
  "obj_of_word e n w = (case e of Little \<Rightarrow> bytes_le n w | Big \<Rightarrow> rev (bytes_le n w))"

definition word_of_obj :: "endian \<Rightarrow> bytes \<Rightarrow> 'a::len word" where
  "word_of_obj e bs = word_le (case e of Little \<Rightarrow> bs | Big \<Rightarrow> rev bs)"

lemma length_obj_of_word [simp, mem_simps]: "length (obj_of_word e n w) = n"
  by (simp add: obj_of_word_def split: endian.split)

lemma word_of_obj_of_word [simp, mem_simps]:
  "LENGTH('a) \<le> 8 * n \<Longrightarrow> word_of_obj e (obj_of_word e n (w :: 'a::len word)) = w"
  by (simp add: obj_of_word_def word_of_obj_def split: endian.split)

lemma obj_of_word_of_obj [simp, mem_simps]:
  "8 * length bs \<le> LENGTH('a) \<Longrightarrow> n = length bs \<Longrightarrow>
     obj_of_word e n (word_of_obj e bs :: 'a::len word) = bs"
  by (simp add: obj_of_word_def word_of_obj_def split: endian.split)

text \<open>Typed loads and stores through a pointer (\<open>hdr->field\<close>, \<open>*p = v\<close>).\<close>

lemma word_of_zeros: "word_of_obj e (replicate n 0) = (0 :: 'a::len word)"
proof -
  have "word_le (replicate n 0) = (0 :: 'a::len word)" by (induction n) simp_all
  then show ?thesis by (simp add: word_of_obj_def split: endian.split)
qed

definition load_u16 :: "endian \<Rightarrow> mem \<Rightarrow> ptr \<Rightarrow> u16" where
  "load_u16 e m a = word_of_obj e (read_bytes m a 2)"

definition load_u32 :: "endian \<Rightarrow> mem \<Rightarrow> ptr \<Rightarrow> u32" where
  "load_u32 e m a = word_of_obj e (read_bytes m a 4)"

definition load_u64 :: "endian \<Rightarrow> mem \<Rightarrow> ptr \<Rightarrow> u64" where
  "load_u64 e m a = word_of_obj e (read_bytes m a 8)"

definition store_u16 :: "endian \<Rightarrow> mem \<Rightarrow> ptr \<Rightarrow> u16 \<Rightarrow> mem" where
  "store_u16 e m a w = write_bytes m a (obj_of_word e 2 w)"

definition store_u32 :: "endian \<Rightarrow> mem \<Rightarrow> ptr \<Rightarrow> u32 \<Rightarrow> mem" where
  "store_u32 e m a w = write_bytes m a (obj_of_word e 4 w)"

definition store_u64 :: "endian \<Rightarrow> mem \<Rightarrow> ptr \<Rightarrow> u64 \<Rightarrow> mem" where
  "store_u64 e m a w = write_bytes m a (obj_of_word e 8 w)"

lemmas store_defs = store_u16_def store_u32_def store_u64_def
lemmas load_defs = load_u16_def load_u32_def load_u64_def

lemma load_store_same [simp, mem_simps]:
  "load_u16 e (store_u16 e m a w16) a = w16"
  "load_u32 e (store_u32 e m a w32) a = w32"
  "load_u64 e (store_u64 e m a w64) a = w64"
  by (simp_all add: load_defs store_defs)

lemma read_store_disjoint [mem_simps]:
  "a + n \<le> b \<or> b + 2 \<le> a \<Longrightarrow> read_bytes (store_u16 e m b w16) a n = read_bytes m a n"
  "a + n \<le> b \<or> b + 4 \<le> a \<Longrightarrow> read_bytes (store_u32 e m b w32) a n = read_bytes m a n"
  "a + n \<le> b \<or> b + 8 \<le> a \<Longrightarrow> read_bytes (store_u64 e m b w64) a n = read_bytes m a n"
  by (simp_all add: store_defs read_write_disjoint)

lemma load_write_disjoint [mem_simps]:
  "a + 2 \<le> b \<or> b + length bs \<le> a \<Longrightarrow> load_u16 e (write_bytes m b bs) a = load_u16 e m a"
  "a + 4 \<le> b \<or> b + length bs \<le> a \<Longrightarrow> load_u32 e (write_bytes m b bs) a = load_u32 e m a"
  "a + 8 \<le> b \<or> b + length bs \<le> a \<Longrightarrow> load_u64 e (write_bytes m b bs) a = load_u64 e m a"
  by (simp_all add: load_defs read_write_disjoint)

lemma load_store16_disjoint [mem_simps]:
  "a + 2 \<le> b \<or> b + 2 \<le> a \<Longrightarrow> load_u16 e (store_u16 e m b w) a = load_u16 e m a"
  "a + 4 \<le> b \<or> b + 2 \<le> a \<Longrightarrow> load_u32 e (store_u16 e m b w) a = load_u32 e m a"
  "a + 8 \<le> b \<or> b + 2 \<le> a \<Longrightarrow> load_u64 e (store_u16 e m b w) a = load_u64 e m a"
  by (simp_all add: load_defs read_store_disjoint)

lemma load_store32_disjoint [mem_simps]:
  "a + 2 \<le> b \<or> b + 4 \<le> a \<Longrightarrow> load_u16 e (store_u32 e m b w) a = load_u16 e m a"
  "a + 4 \<le> b \<or> b + 4 \<le> a \<Longrightarrow> load_u32 e (store_u32 e m b w) a = load_u32 e m a"
  "a + 8 \<le> b \<or> b + 4 \<le> a \<Longrightarrow> load_u64 e (store_u32 e m b w) a = load_u64 e m a"
  by (simp_all add: load_defs read_store_disjoint)

lemma load_store64_disjoint [mem_simps]:
  "a + 2 \<le> b \<or> b + 8 \<le> a \<Longrightarrow> load_u16 e (store_u64 e m b w) a = load_u16 e m a"
  "a + 4 \<le> b \<or> b + 8 \<le> a \<Longrightarrow> load_u32 e (store_u64 e m b w) a = load_u32 e m a"
  "a + 8 \<le> b \<or> b + 8 \<le> a \<Longrightarrow> load_u64 e (store_u64 e m b w) a = load_u64 e m a"
  by (simp_all add: load_defs read_store_disjoint)

lemma same_outside_store [intro]:
  "same_outside a n m m' \<Longrightarrow> a \<le> b \<Longrightarrow> b + 2 \<le> a + n \<Longrightarrow> same_outside a n m (store_u16 e m' b w16)"
  "same_outside a n m m' \<Longrightarrow> a \<le> b \<Longrightarrow> b + 4 \<le> a + n \<Longrightarrow> same_outside a n m (store_u32 e m' b w32)"
  "same_outside a n m m' \<Longrightarrow> a \<le> b \<Longrightarrow> b + 8 \<le> a + n \<Longrightarrow> same_outside a n m (store_u64 e m' b w64)"
  by (simp_all add: store_defs same_outside_writeI)

section \<open>Byte swaps\<close>

definition bswap16 :: "u16 \<Rightarrow> u16" where
  "bswap16 v = push_bit 8 v OR drop_bit 8 v"

definition bswap32 :: "u32 \<Rightarrow> u32" where
  "bswap32 v = drop_bit 24 (v AND 0xFF000000) OR drop_bit 8 (v AND 0x00FF0000)
     OR push_bit 8 (v AND 0x0000FF00) OR push_bit 24 (v AND 0x000000FF)"

definition bswap64 :: "u64 \<Rightarrow> u64" where
  "bswap64 v = drop_bit 56 (v AND 0xFF00000000000000) OR drop_bit 40 (v AND 0x00FF000000000000)
     OR drop_bit 24 (v AND 0x0000FF0000000000) OR drop_bit 8 (v AND 0x000000FF00000000)
     OR push_bit 8 (v AND 0x00000000FF000000) OR push_bit 24 (v AND 0x0000000000FF0000)
     OR push_bit 40 (v AND 0x000000000000FF00) OR push_bit 56 (v AND 0x00000000000000FF)"

text \<open>
  The interface the conversions rely on: a swap that reverses the object representation of a
  scalar of a given width. Everything the wire format needs about byte order follows from that
  one law.
\<close>

locale wire_scalar =
  fixes swap :: "'a::len word \<Rightarrow> 'a word" and width :: nat
  assumes width_bits: "LENGTH('a) = 8 * width"
    and swap_reverses: "bytes_le width (swap w) = rev (bytes_le width w)"
begin

lemma width_le: "LENGTH('a) \<le> 8 * width" and le_width: "8 * width \<le> LENGTH('a)"
  by (simp_all only: width_bits order_refl)

lemma bytes_inj: "bytes_le width (v :: 'a word) = bytes_le width w \<Longrightarrow> v = w"
  by (drule arg_cong [where f = "word_le :: bytes \<Rightarrow> 'a word"])
    (simp only: word_le_bytes_le width_le)

lemma swap_swap: "swap (swap w) = w"
  by (rule bytes_inj) (simp add: swap_reverses)

lemma obj_swap: "obj_of_word e width (swap w) = rev (obj_of_word e width w)"
  by (simp add: obj_of_word_def swap_reverses split: endian.split)

lemma word_of_obj_swap:
  assumes "length bs = width"
  shows "word_of_obj e (rev bs) = swap (word_of_obj e bs)"
proof -
  have "obj_of_word e width (swap (word_of_obj e bs)) = rev bs"
    using assms le_width by (simp add: obj_swap)
  then have "word_of_obj e (rev bs) =
      (word_of_obj e (obj_of_word e width (swap (word_of_obj e bs))) :: 'a word)"
    by simp
  then show ?thesis using width_le by simp
qed

lemma to_wire: "obj_of_word e width (if e = Big then swap w else w) = bytes_le width w"
  by (cases e) (simp_all add: obj_of_word_def swap_reverses)

lemma from_wire:
  "length bs = width \<Longrightarrow>
     (if e = Big then swap (word_of_obj e bs) else word_of_obj e bs) = word_of_obj Little bs"
  using word_of_obj_swap [of bs Big] swap_swap
  by (cases e) (simp_all add: word_of_obj_def)

end

interpretation swap16: wire_scalar bswap16 2
proof unfold_locales
  show "LENGTH(16) = 8 * 2" by simp
  have "(ucast (bswap16 w) :: u8) = ucast (drop_bit 8 w)"
    and "(ucast (drop_bit 8 (bswap16 w)) :: u8) = ucast w" for w
    by (rule bit_word_eqI, unfold bswap16_def bitwise, drule byte_bit_cases, elim disjE, simp_all)+
  then show "bytes_le 2 (bswap16 w) = rev (bytes_le 2 w)" for w
    by (simp only: bytes_le_2 rev.simps append.simps)
qed

interpretation swap32: wire_scalar bswap32 4
proof unfold_locales
  show "LENGTH(32) = 8 * 4" by simp
  have "(ucast (bswap32 w) :: u8) = ucast (drop_bit 24 w)"
    and "(ucast (drop_bit 8 (bswap32 w)) :: u8) = ucast (drop_bit 16 w)"
    and "(ucast (drop_bit 16 (bswap32 w)) :: u8) = ucast (drop_bit 8 w)"
    and "(ucast (drop_bit 24 (bswap32 w)) :: u8) = ucast w" for w
    by (rule bit_word_eqI, unfold bswap32_def bitwise, drule byte_bit_cases, elim disjE, simp_all)+
  then show "bytes_le 4 (bswap32 w) = rev (bytes_le 4 w)" for w
    by (simp only: bytes_le_4 rev.simps append.simps)
qed

interpretation swap64: wire_scalar bswap64 8
proof unfold_locales
  show "LENGTH(64) = 8 * 8" by simp
  have "(ucast (bswap64 w) :: u8) = ucast (drop_bit 56 w)"
    and "(ucast (drop_bit 8 (bswap64 w)) :: u8) = ucast (drop_bit 48 w)"
    and "(ucast (drop_bit 16 (bswap64 w)) :: u8) = ucast (drop_bit 40 w)"
    and "(ucast (drop_bit 24 (bswap64 w)) :: u8) = ucast (drop_bit 32 w)"
    and "(ucast (drop_bit 32 (bswap64 w)) :: u8) = ucast (drop_bit 24 w)"
    and "(ucast (drop_bit 40 (bswap64 w)) :: u8) = ucast (drop_bit 16 w)"
    and "(ucast (drop_bit 48 (bswap64 w)) :: u8) = ucast (drop_bit 8 w)"
    and "(ucast (drop_bit 56 (bswap64 w)) :: u8) = ucast w" for w
    by (rule bit_word_eqI, unfold bswap64_def bitwise, drule byte_bit_cases, elim disjE, simp_all)+
  then show "bytes_le 8 (bswap64 w) = rev (bytes_le 8 w)" for w
    by (simp only: bytes_le_8 rev.simps append.simps)
qed

section \<open>Conversion to and from the little-endian wire order\<close>

text \<open>
  \<open>to_little_endian<T>\<close> for the integer widths the wire header has: on a big-endian host the
  \<open>if constexpr\<close> branch for \<open>sizeof(T)\<close> copies the object out, swaps it and copies it back;
  elsewhere the value is returned as it is. \<open>from_little_endian\<close> is the same function.
\<close>

definition to_little_endian16 :: "endian \<Rightarrow> u16 \<Rightarrow> u16" where
  "to_little_endian16 e v = (if e = Big then bswap16 v else v)"

definition to_little_endian32 :: "endian \<Rightarrow> u32 \<Rightarrow> u32" where
  "to_little_endian32 e v = (if e = Big then bswap32 v else v)"

definition to_little_endian64 :: "endian \<Rightarrow> u64 \<Rightarrow> u64" where
  "to_little_endian64 e v = (if e = Big then bswap64 v else v)"

definition from_little_endian16 :: "endian \<Rightarrow> u16 \<Rightarrow> u16" where
  "from_little_endian16 e v = to_little_endian16 e v"

definition from_little_endian32 :: "endian \<Rightarrow> u32 \<Rightarrow> u32" where
  "from_little_endian32 e v = to_little_endian32 e v"

definition from_little_endian64 :: "endian \<Rightarrow> u64 \<Rightarrow> u64" where
  "from_little_endian64 e v = to_little_endian64 e v"

lemmas to_from_le_defs = to_little_endian16_def to_little_endian32_def to_little_endian64_def
  from_little_endian16_def from_little_endian32_def from_little_endian64_def

lemma to_little_endian_wire [simp]:
  "obj_of_word e 2 (to_little_endian16 e w16) = bytes_le 2 w16"
  "obj_of_word e 4 (to_little_endian32 e w32) = bytes_le 4 w32"
  "obj_of_word e 8 (to_little_endian64 e w64) = bytes_le 8 w64"
  unfolding to_from_le_defs by (rule swap16.to_wire swap32.to_wire swap64.to_wire)+

lemma from_little_endian_wire [simp]:
  "length bs = 2 \<Longrightarrow> from_little_endian16 e (word_of_obj e bs) = word_le bs"
  "length bs = 4 \<Longrightarrow> from_little_endian32 e (word_of_obj e bs) = word_le bs"
  "length bs = 8 \<Longrightarrow> from_little_endian64 e (word_of_obj e bs) = word_le bs"
  unfolding to_from_le_defs
  using swap16.from_wire [of bs e] swap32.from_wire [of bs e] swap64.from_wire [of bs e]
  by (simp_all add: word_of_obj_def)

lemma from_to_little_endian [simp]:
  "from_little_endian16 e (to_little_endian16 e w16) = w16"
  "from_little_endian32 e (to_little_endian32 e w32) = w32"
  "from_little_endian64 e (to_little_endian64 e w64) = w64"
  unfolding to_from_le_defs by (simp_all add: swap16.swap_swap swap32.swap_swap swap64.swap_swap)

text \<open>
  \<open>byte_swap<T>\<close> of \<open>portable.hpp\<close>, on the object representation of any trivially copyable
  value: the bytes are copied into an integer of that size, swapped and copied back; values of
  other sizes are returned unchanged.
\<close>

definition byte_swap :: "endian \<Rightarrow> bytes \<Rightarrow> bytes" where
  "byte_swap e value =
     (if length value = 2 then obj_of_word e 2 (bswap16 (word_of_obj e value))
      else if length value = 4 then obj_of_word e 4 (bswap32 (word_of_obj e value))
      else if length value = 8 then obj_of_word e 8 (bswap64 (word_of_obj e value))
      else value)"

lemma byte_swap_eq:
  "byte_swap e bs = (if length bs \<in> {2, 4, 8} then rev bs else bs)"
  by (auto simp: byte_swap_def swap16.obj_swap swap32.obj_swap swap64.obj_swap)

lemma length_byte_swap [simp]: "length (byte_swap e bs) = length bs"
  by (simp add: byte_swap_eq)

lemma byte_swap_involution [simp]: "byte_swap e (byte_swap e bs) = bs"
  by (simp add: byte_swap_eq)

end
