(* ===== verification/Message.thy ===== *)
theory Message
  imports Endian
begin

text \<open>
  Model of \<open>include/sinew/types.hpp\<close>, \<open>include/sinew/message.hpp\<close> and the registration macros of
  \<open>include/sinew/sinew.hpp\<close>: the wire header and its 16-byte packed layout, the error codes, the
  message traits of a type and the hash that generates identifiers.
\<close>

section \<open>Wire header and error codes\<close>

definition SINEW_MAGIC :: u32 where
  "SINEW_MAGIC = 0x574E4953"

record header =
  h_magic :: u32
  h_msg_id :: u16
  h_version :: u16
  h_crc :: u32
  h_payload_len :: u32

definition sizeof_Header :: nat where
  "sizeof_Header = 16"

text \<open>The packed field offsets of \<open>struct Header\<close>, and the struct read through a pointer.\<close>

definition load_header :: "endian \<Rightarrow> mem \<Rightarrow> ptr \<Rightarrow> header" where
  "load_header e m p =
     \<lparr>h_magic = load_u32 e m p, h_msg_id = load_u16 e m (p + 4), h_version = load_u16 e m (p + 6),
      h_crc = load_u32 e m (p + 8), h_payload_len = load_u32 e m (p + 12)\<rparr>"

datatype ErrorCode =
  Ok | BufferTooSmall | BadMagic | IdMismatch | VersionMismatch | ChecksumMismatch | Misaligned

fun error_string :: "ErrorCode \<Rightarrow> string" where
  "error_string Ok = ''Ok''"
| "error_string BufferTooSmall = ''Buffer too small for header and payload''"
| "error_string BadMagic = ''Invalid Sinew magic identifier''"
| "error_string IdMismatch = ''Message ID mismatch''"
| "error_string VersionMismatch = ''Message schema version mismatch''"
| "error_string ChecksumMismatch = ''CRC32 checksum mismatch''"
| "error_string Misaligned = ''Buffer address is not properly aligned for payload type''"

text \<open>\<open>operator<<\<close>; \<open>put\<close> is the insertion of a string into the stream.\<close>

definition error_print :: "('os \<Rightarrow> string \<Rightarrow> 'os) \<Rightarrow> 'os \<Rightarrow> ErrorCode \<Rightarrow> 'os" where
  "error_print put os code = put os (error_string code)"

lemma load_header_sel [simp]:
  "h_magic (load_header e m p) = load_u32 e m p"
  "h_msg_id (load_header e m p) = load_u16 e m (p + 4)"
  "h_version (load_header e m p) = load_u16 e m (p + 6)"
  "h_crc (load_header e m p) = load_u32 e m (p + 8)"
  "h_payload_len (load_header e m p) = load_u32 e m (p + 12)"
  by (simp_all add: load_header_def)

lemma load_header_cong:
  assumes "read_bytes m p 16 = read_bytes m' p' 16"
  shows "load_header e m p = load_header e m' p'"
proof -
  note sub = read_bytes_part [OF assms]
  show ?thesis
    using sub [of 0 4] sub [of 4 2] sub [of 6 2] sub [of 8 4] sub [of 12 4]
    by (simp add: load_header_def load_defs)
qed

lemma error_string_inj: "error_string c = error_string d \<Longrightarrow> c = d"
  by (cases c; cases d; simp)

section \<open>Message types and their traits\<close>

text \<open>
  What the templates use of a message type \<open>T\<close>: its traits (\<open>MessageTraits<T>\<close>), \<open>sizeof(T)\<close>,
  \<open>alignof(T)\<close>, and what its default constructor, run by \<open>new (p) T\<close>, leaves of the bytes the
  storage held (the identity for a struct without default member initialisers). A value of \<open>T\<close>
  is its object representation: \<open>sizeof(T)\<close> bytes, copied as such.
\<close>

record msgtype =
  mt_name :: string
  mt_id :: u16
  mt_version :: u16
  mt_sizeof :: nat
  mt_alignof :: nat
  mt_construct :: "bytes \<Rightarrow> bytes"

text \<open>
  What the language guarantees of an object type (\<open>check_message_type_constraints\<close> admits only
  trivially copyable, standard-layout ones), and a size that the 32-bit length field can hold.
\<close>

definition is_valid_message :: "msgtype \<Rightarrow> bool" where
  "is_valid_message T \<longleftrightarrow> 0 < mt_alignof T \<and> 0 < mt_sizeof T \<and> mt_alignof T dvd mt_sizeof T
     \<and> mt_sizeof T < 2 ^ 32
     \<and> (\<forall>bs. length bs = mt_sizeof T \<longrightarrow> length (mt_construct T bs) = mt_sizeof T)"

lemma valid_messageD [dest]:
  assumes "is_valid_message T"
  shows "0 < mt_alignof T" "0 < mt_sizeof T" "mt_sizeof T < 2 ^ 32"
    and "length bs = mt_sizeof T \<Longrightarrow> length (mt_construct T bs) = mt_sizeof T"
  using assms by (auto simp: is_valid_message_def)

lemma length_construct [simp]:
  "is_valid_message T \<Longrightarrow> length bs = mt_sizeof T \<Longrightarrow> length (mt_construct T bs) = mt_sizeof T"
  by (simp add: is_valid_message_def)

lemma valid_size_u32 [width_simps]:
  "is_valid_message T \<Longrightarrow> unat (of_nat (mt_sizeof T) :: u32) = mt_sizeof T"
  by (simp add: is_valid_message_def unat_of_nat take_bit_nat_eq_self)

text \<open>The primary template of \<open>MessageTraits\<close>, for a type nobody registered.\<close>

definition unregistered :: "nat \<Rightarrow> nat \<Rightarrow> (bytes \<Rightarrow> bytes) \<Rightarrow> msgtype" where
  "unregistered sz al ctor =
     \<lparr>mt_name = ''UnknownMessage'', mt_id = 0, mt_version = 1,
      mt_sizeof = sz, mt_alignof = al, mt_construct = ctor\<rparr>"

text \<open>\<open>SINEW_REGISTER_MESSAGE\<close>: both numbers are cast to \<open>uint16_t\<close>.\<close>

definition register_message ::
  "string \<Rightarrow> int \<Rightarrow> int \<Rightarrow> nat \<Rightarrow> nat \<Rightarrow> (bytes \<Rightarrow> bytes) \<Rightarrow> msgtype" where
  "register_message name msg_id ver sz al ctor =
     \<lparr>mt_name = name, mt_id = word_of_int msg_id, mt_version = word_of_int ver,
      mt_sizeof = sz, mt_alignof = al, mt_construct = ctor\<rparr>"

section \<open>Generated identifiers\<close>

text \<open>\<open>fnv1a16\<close>: the 32-bit FNV-1a hash folded to 16 bits, with 0 mapped to 1.\<close>

definition fnv1a_step :: "u32 \<Rightarrow> char \<Rightarrow> u32" where
  "fnv1a_step hash c = (hash XOR ucast (of_char c :: u8)) * 0x01000193"

definition fnv1a16 :: "string \<Rightarrow> u16" where
  "fnv1a16 s =
     (let hash = foldl fnv1a_step 0x811c9dc5 s;
          h16 = (ucast (drop_bit 16 hash XOR (hash AND 0xFFFF)) :: u16)
      in if h16 = 0 then 1 else h16)"

text \<open>
  The three macros that define a message: \<open>SINEW_MESSAGE\<close>, \<open>SINEW_MESSAGE_ID\<close> and
  \<open>SINEW_MESSAGE_VERSIONED\<close>.
\<close>

definition sinew_message :: "string \<Rightarrow> nat \<Rightarrow> nat \<Rightarrow> (bytes \<Rightarrow> bytes) \<Rightarrow> msgtype" where
  "sinew_message name sz al ctor = register_message name (uint (fnv1a16 name)) 1 sz al ctor"

definition sinew_message_id ::
  "string \<Rightarrow> int \<Rightarrow> nat \<Rightarrow> nat \<Rightarrow> (bytes \<Rightarrow> bytes) \<Rightarrow> msgtype" where
  "sinew_message_id name msg_id sz al ctor = register_message name msg_id 1 sz al ctor"

definition sinew_message_versioned ::
  "string \<Rightarrow> int \<Rightarrow> int \<Rightarrow> nat \<Rightarrow> nat \<Rightarrow> (bytes \<Rightarrow> bytes) \<Rightarrow> msgtype" where
  "sinew_message_versioned name msg_id ver sz al ctor = register_message name msg_id ver sz al ctor"

lemmas message_macros = sinew_message_def sinew_message_id_def sinew_message_versioned_def
  register_message_def

lemma fnv1a16_nonzero: "fnv1a16 s \<noteq> 0"
  by (simp add: fnv1a16_def Let_def)

lemma fnv1a16_collision: "fnv1a16 ''LeftJointData'' = fnv1a16 ''RightArmCommand''"
  by (simp add: fnv1a16_def fnv1a_step_def)

lemma mt_id_sinew_message: "mt_id (sinew_message name sz al ctor) = fnv1a16 name"
  by (simp add: message_macros)

section \<open>Message types of the test suite\<close>

text \<open>
  \<open>PingMsg\<close> and \<open>StatusMsg\<close> of \<open>tests/test_dispatch.cpp\<close>, on which the concrete examples of the
  development are evaluated.
\<close>

definition PingMsg :: msgtype where
  "PingMsg = register_message ''PingMsg'' 1 1 4 4 id"

definition StatusMsg :: msgtype where
  "StatusMsg = register_message ''StatusMsg'' 3 1 4 4 id"

lemma PingMsg_sel [simp]:
  "mt_id PingMsg = 1" "mt_version PingMsg = 1" "mt_sizeof PingMsg = 4" "mt_alignof PingMsg = 4"
  "mt_construct PingMsg = id"
  by (simp_all add: PingMsg_def register_message_def)

lemma StatusMsg_sel [simp]:
  "mt_id StatusMsg = 3" "mt_version StatusMsg = 1" "mt_sizeof StatusMsg = 4"
  "mt_alignof StatusMsg = 4" "mt_construct StatusMsg = id"
  by (simp_all add: StatusMsg_def register_message_def)

lemma valid_PingMsg [simp]: "is_valid_message PingMsg" and valid_StatusMsg [simp]: "is_valid_message StatusMsg"
  by (simp_all add: is_valid_message_def)

end
