(* ===== verification/Slots.thy ===== *)
theory Slots
  imports Prelude
begin

text \<open>
  The cursor arithmetic that the three ring buffers share (\<open>ring_buffer.hpp\<close>,
  \<open>ipc_ring_buffer.hpp\<close>, \<open>ipc_envelope.hpp\<close>): free-running unsigned cursors \<open>head\<close> and \<open>tail\<close>
  that wrap around at the width of their type, masked into an array of slots. A ring is lifted to
  the list of its occupied slots. The interface \<open>packet_slot\<close> says what a ring needs of the wire
  format: a packet can be prepared, filled, sealed and looked at, within one slot.
\<close>

section \<open>Capacity and index mask\<close>

text \<open>The \<open>static_assert\<close>s on \<open>Capacity\<close>, a value of the cursors' type.\<close>

definition capacity_ok :: "'w::len word \<Rightarrow> bool" where
  "capacity_ok cap \<longleftrightarrow> cap AND (cap - 1) = 0 \<and> 2 \<le> unat cap"

definition kIndexMask :: "'w::len word \<Rightarrow> 'w word" where
  "kIndexMask cap = cap - 1"

text \<open>\<open>slots + (i & kIndexMask) * stride\<close>.\<close>

definition ring_slot :: "ptr \<Rightarrow> nat \<Rightarrow> 'w::len word \<Rightarrow> 'w word \<Rightarrow> ptr" where
  "ring_slot base stride cap i = base + unat (i AND kIndexMask cap) * stride"

lemma nat_power_of_two: "n AND (n - 1) = 0 \<Longrightarrow> 0 < n \<Longrightarrow> \<exists>k. n = 2 ^ k" for n :: nat
proof (induction n rule: less_induct)
  case (less n)
  show ?case
  proof (cases "even n")
    case True
    then obtain m where n: "n = 2 * m" by blast
    with less.prems have m: "0 < m" by simp
    have "m AND (m - 1) = 0"
    proof (rule bit_eqI)
      fix i
      have "n - 1 = 2 * (m - 1) + 1" using n m by simp
      then have "bit n (Suc i) = bit m i" "bit (n - 1) (Suc i) = bit (m - 1) i"
        using n by (simp_all add: bit_Suc)
      then show "bit (m AND (m - 1)) i = bit (0 :: nat) i"
        using less.prems(1) by (metis bit_and_iff bit_0_eq bot_apply bot_bool_def)
    qed
    then obtain k where "m = 2 ^ k"
      using less.IH [of m] n m by auto
    then have "n = 2 ^ Suc k" using n by simp
    then show ?thesis by blast
  next
    case False
    then obtain m where n: "n = 2 * m + 1" by (blast elim: oddE)
    have "m = 0"
    proof (rule ccontr)
      assume "m \<noteq> 0"
      then obtain i where i: "bit m i" by (metis bit_eqI bit_0_eq bot_apply bot_bool_def)
      then have "bit n (Suc i)" "bit (n - 1) (Suc i)" using n by (simp_all add: bit_Suc)
      then have "bit (n AND (n - 1)) (Suc i)" by (simp add: bit_and_iff)
      with less.prems(1) show False by simp
    qed
    with n show ?thesis by (auto intro: exI [of _ 0])
  qed
qed

lemma capacity_exponent:
  fixes cap :: "'w::len word"
  assumes "capacity_ok cap"
  obtains k where "0 < k" "k < LENGTH('w)" "unat cap = 2 ^ k" "cap - 1 = mask k"
proof -
  have ge2: "2 \<le> unat cap" and zero: "cap AND (cap - 1) = 0"
    using assms by (simp_all add: capacity_ok_def)
  then have "cap \<noteq> 0" by auto
  then have "unat cap AND (unat cap - 1) = unat (cap AND (cap - 1))"
    by (simp add: unsigned_and_eq unat_minus_one)
  then obtain k where k: "unat cap = 2 ^ k"
    using nat_power_of_two [of "unat cap"] zero ge2 by auto
  show thesis
  proof
    show "unat cap = 2 ^ k" by (rule k)
    show "0 < k" using k ge2 by (cases k) simp_all
    have "unat cap < 2 ^ LENGTH('w)" by (rule unsigned_less)
    then have "(2::nat) ^ k < 2 ^ LENGTH('w)" using k by simp
    then show "k < LENGTH('w)" by simp
    have "of_nat (unat cap) = cap" by simp
    then have "cap = of_nat (2 ^ k)" unfolding k by (rule sym)
    then show "cap - 1 = mask k" by (simp add: mask_eq_exp_minus_1)
  qed
qed

text \<open>Masking is reduction modulo the capacity, also across the wrap-around of the cursor.\<close>

lemma unat_masked:
  assumes "capacity_ok cap"
  shows "unat (i AND kIndexMask cap) = unat i mod unat cap"
proof -
  obtain k where "unat cap = 2 ^ k" "cap - 1 = mask k"
    using assms by (rule capacity_exponent)
  moreover have "unat (take_bit k i) = unat i mod 2 ^ k" for k
    by (simp only: unsigned_take_bit_eq) (simp only: take_bit_eq_mod)
  ultimately show ?thesis
    by (simp add: kIndexMask_def take_bit_eq_mask [symmetric] del: take_bit_word_eq_self)
qed

lemma cursor_mod:
  fixes t cap :: "'w::len word"
  assumes "capacity_ok cap"
  shows "unat (t + of_nat i) mod unat cap = (unat t + i) mod unat cap"
proof -
  obtain k where "k < LENGTH('w)" "unat cap = 2 ^ k"
    using assms by (rule capacity_exponent)
  then have "unat cap dvd 2 ^ LENGTH('w)" by (simp add: le_imp_power_dvd)
  then show ?thesis
    by (simp add: unat_word_ariths unat_of_nat take_bit_eq_mod mod_mod_cancel mod_simps)
qed

lemma capacity_pos: "capacity_ok cap \<Longrightarrow> 0 < unat cap"
  by (simp add: capacity_ok_def)

lemma cursors_apart:
  fixes t cap :: "'w::len word"
  assumes "capacity_ok cap" "i < j" "j - i < unat cap"
  shows "unat (t + of_nat i) mod unat cap \<noteq> unat (t + of_nat j) mod unat cap"
proof
  assume "unat (t + of_nat i) mod unat cap = unat (t + of_nat j) mod unat cap"
  then have "(unat t + i) mod unat cap = (unat t + j) mod unat cap"
    using assms(1) by (simp add: cursor_mod)
  then have "unat cap dvd j - i"
    using assms(2) by (metis add_diff_cancel_left diff_is_0_eq le_simps(1) mod_eq_dvd_iff_nat nat_le_iff_add)
  with assms show False by (auto dest: dvd_imp_le)
qed

text \<open>Two slots in use do not overlap.\<close>

lemma slots_disjoint:
  assumes "capacity_ok cap" "i < j" "j - i < unat cap" "width \<le> stride"
  shows "ring_slot base stride cap (t + of_nat i) + width \<le> ring_slot base stride cap (t + of_nat j)
    \<or> ring_slot base stride cap (t + of_nat j) + width \<le> ring_slot base stride cap (t + of_nat i)"
proof -
  let ?a = "unat (t + of_nat i) mod unat cap" and ?b = "unat (t + of_nat j) mod unat cap"
  have step: "x * stride + width \<le> y * stride" if "x < y" for x y :: nat
  proof -
    have "Suc x * stride \<le> y * stride" using that by (intro mult_le_mono1) simp
    then show ?thesis using assms(4) by simp
  qed
  have "?a < ?b \<or> ?b < ?a"
    using cursors_apart [OF assms(1-3), of t] by linarith
  then have "?a * stride + width \<le> ?b * stride \<or> ?b * stride + width \<le> ?a * stride"
    using step by blast
  then show ?thesis
    using assms(1) by (auto simp: ring_slot_def unat_masked)
qed

section \<open>Number of occupied slots\<close>

lemma unat_advance_head:
  fixes h t cap :: "'w::len word"
  assumes "unat (h - t) < unat cap"
  shows "unat (h + 1 - t) = Suc (unat (h - t))"
proof -
  have "h - t + 1 \<noteq> 0"
  proof
    assume "h - t + 1 = 0"
    then have "h - t = - 1" by (simp add: eq_neg_iff_add_eq_0)
    then have "cap \<le> h - t" by simp
    with assms show False by (simp add: word_le_nat_alt)
  qed
  then have "unat (h - t + 1) = Suc (unat (h - t))" by (simp add: unatSuc add.commute)
  then show ?thesis by (simp add: algebra_simps)
qed

lemma unat_advance_tail:
  fixes h t :: "'w::len word"
  assumes "h \<noteq> t"
  shows "unat (h - t) = Suc (unat (h - (t + 1)))"
proof -
  have "h - t \<noteq> 0" using assms by simp
  then have "unat (h - t - 1) = unat (h - t) - 1" "unat (h - t) \<noteq> 0"
    by (auto simp: unat_minus_one unat_eq_0)
  then show ?thesis by (simp add: algebra_simps)
qed

lemma cursor_top: "t + of_nat (unat (h - t)) = (h :: 'w::len word)"
  by simp

section \<open>The list of occupied slots\<close>

text \<open>
  \<open>look m p\<close> is what a reader gets from the slot at \<open>p\<close>: the payload, or \<open>None\<close> when the slot
  holds no valid packet. \<open>ring_view\<close> reads all occupied slots, oldest first.
\<close>

definition ring_view ::
  "(mem \<Rightarrow> ptr \<Rightarrow> 'v option) \<Rightarrow> ('w::len word \<Rightarrow> ptr) \<Rightarrow> 'w word \<Rightarrow> 'w word \<Rightarrow> mem
     \<Rightarrow> 'v option list" where
  "ring_view look slot head tail m =
     map (\<lambda>i. look m (slot (tail + of_nat i))) [0..<unat (head - tail)]"

lemma length_ring_view [simp]: "length (ring_view look slot head tail m) = unat (head - tail)"
  by (simp add: ring_view_def)

lemma ring_view_empty: "ring_view look slot head tail m = [] \<longleftrightarrow> head = tail"
  by (simp add: ring_view_def unat_eq_0)

lemma ring_view_same [simp]: "ring_view look slot head head m = []"
  by (simp add: ring_view_empty)

lemma ring_view_pop:
  "head \<noteq> tail \<Longrightarrow>
     ring_view look slot head tail m = look m (slot tail) # ring_view look slot head (tail + 1) m"
  unfolding ring_view_def
  by (subst unat_advance_tail, assumption)
    (simp add: upt_conv_Cons map_Suc_upt [symmetric] add.assoc del: upt_Suc)

text \<open>A ring whose occupied slots all hold a valid packet, and what they hold.\<close>

definition ring_ok ::
  "(mem \<Rightarrow> ptr \<Rightarrow> 'v option) \<Rightarrow> ('w::len word \<Rightarrow> ptr) \<Rightarrow> 'w word \<Rightarrow> 'w word \<Rightarrow> 'w word \<Rightarrow> mem
     \<Rightarrow> bool" where
  "ring_ok look slot cap head tail m \<longleftrightarrow>
     unat (head - tail) \<le> unat cap \<and> None \<notin> set (ring_view look slot head tail m)"

definition ring_items ::
  "(mem \<Rightarrow> ptr \<Rightarrow> 'v option) \<Rightarrow> ('w::len word \<Rightarrow> ptr) \<Rightarrow> 'w word \<Rightarrow> 'w word \<Rightarrow> mem
     \<Rightarrow> 'v list" where
  "ring_items look slot head tail m = map the (ring_view look slot head tail m)"

lemma length_ring_items [simp]: "length (ring_items look slot head tail m) = unat (head - tail)"
  by (simp add: ring_items_def)

lemma ring_items_empty: "ring_items look slot head tail m = [] \<longleftrightarrow> head = tail"
  by (simp add: ring_items_def ring_view_empty)

lemma ring_drained:
  "ring_ok look slot cap i i m" "ring_items look slot i i m = []"
  by (simp_all add: ring_ok_def ring_items_def)

lemma ring_full_guard:
  "ring_ok look slot cap head tail m \<Longrightarrow>
     cap \<le> head - tail \<longleftrightarrow> length (ring_items look slot head tail m) = unat cap"
  by (auto simp: ring_ok_def word_le_nat_alt)

text \<open>The oldest item, and the ring without it.\<close>

lemma ring_front:
  assumes "ring_ok look slot cap head tail m" "ring_items look slot head tail m = v # q"
  shows "head \<noteq> tail" "look m (slot tail) = Some v" "ring_ok look slot cap head (tail + 1) m"
    "ring_items look slot head (tail + 1) m = q"
proof -
  show ne: "head \<noteq> tail" using assms(2) ring_items_empty [of look slot head tail m] by auto
  note pop = ring_view_pop [OF ne, of look slot m]
  have "look m (slot tail) \<noteq> None" and rest: "None \<notin> set (ring_view look slot head (tail + 1) m)"
    using assms(1) unfolding ring_ok_def pop by (auto simp: eq_commute)
  moreover have "the (look m (slot tail)) = v" and q: "ring_items look slot head (tail + 1) m = q"
    using assms(2) unfolding ring_items_def pop by simp_all
  ultimately show "look m (slot tail) = Some v" by auto
  show "ring_items look slot head (tail + 1) m = q" by (rule q)
  show "ring_ok look slot cap head (tail + 1) m"
    using assms(1) rest unat_advance_tail [OF ne] by (simp add: ring_ok_def)
qed

text \<open>A memory whose slots look the same holds the same ring.\<close>

lemma ring_look_cong:
  assumes "\<And>i. look m' (slot i) = look m (slot i)"
  shows "ring_ok look slot cap head tail m' = ring_ok look slot cap head tail m"
    and "ring_items look slot head tail m' = ring_items look slot head tail m"
  using assms by (simp_all add: ring_ok_def ring_items_def ring_view_def)

text \<open>
  The array of slots as cells, for rings whose two ends move independently: wherever a cell has a
  value, the slot at that index looks like it. A cell without a value says nothing of its slot.
\<close>

definition cells_hold :: "(mem \<Rightarrow> ptr \<Rightarrow> 'v option) \<Rightarrow> ptr \<Rightarrow> nat \<Rightarrow> mem \<Rightarrow> (nat \<Rightarrow> 'v option) \<Rightarrow> bool" where
  "cells_hold look base stride m cells \<longleftrightarrow>
     (\<forall>i v. cells i = Some v \<longrightarrow> look m (base + i * stride) = Some v)"

lemma cells_hold_empty [simp]: "cells_hold look base stride m (\<lambda>_. None)"
  by (simp add: cells_hold_def)

lemma strides_apart:
  fixes i j :: nat
  assumes "i \<noteq> j" "width \<le> stride"
  shows "base + j * stride + width \<le> base + i * stride \<or> base + i * stride + width \<le> base + j * stride"
proof -
  have step: "x * stride + width \<le> y * stride" if "x < y" for x y :: nat
  proof -
    have "Suc x * stride \<le> y * stride" using that by (intro mult_le_mono1) simp
    then show ?thesis using assms(2) by simp
  qed
  with assms(1) show ?thesis by (metis add.assoc add_le_cancel_left linorder_neqE_nat)
qed

lemma stride_inside: "i < n \<Longrightarrow> width \<le> stride \<Longrightarrow> i * stride + width \<le> n * stride" for i n :: nat
  using mult_le_mono1 [of "Suc i" n stride] by simp

text \<open>
  The interface between a ring and the wire format: \<open>prep\<close> stamps a packet of an element type
  into a slot, \<open>seal\<close> finalises it, \<open>look\<close> validates it. \<open>usable p\<close> says that a slot at \<open>p\<close> can
  hold such a packet, \<open>ready m p\<close> that one has been prepared there, and
  \<open>item v\<close> is what a reader gets of a packet with the payload \<open>v\<close>.
\<close>

locale packet_slot =
  fixes width :: nat and value_size :: nat
    and usable :: "ptr \<Rightarrow> bool"
    and ready :: "mem \<Rightarrow> ptr \<Rightarrow> bool"
    and prep :: "mem \<Rightarrow> ptr \<Rightarrow> mem"
    and seal :: "bool \<Rightarrow> mem \<Rightarrow> ptr \<Rightarrow> mem"
    and look :: "bool \<Rightarrow> mem \<Rightarrow> ptr \<Rightarrow> 'v option"
    and item :: "bytes \<Rightarrow> 'v"
  assumes payload_inside: "usable p \<Longrightarrow> 16 + value_size \<le> width"
    and look_local:
      "read_bytes m p width = read_bytes m' p width \<Longrightarrow> look c m p = look c m' p"
    and prep_frame: "usable p \<Longrightarrow> same_outside p width m (prep m p)"
    and seal_frame: "usable p \<Longrightarrow> same_outside p width m (seal c m p)"
    and ready_prep: "usable p \<Longrightarrow> ready (prep m p) p"
    and ready_fill: "ready m p \<Longrightarrow> length v = value_size \<Longrightarrow> ready (write_bytes m (p + 16) v) p"
    and look_seal:
      "usable p \<Longrightarrow> ready m p \<Longrightarrow>
         look c' (seal c m p) p = Some (item (read_bytes m (p + 16) value_size))"
begin

text \<open>Writing a packet: prepared, filled with \<open>v\<close> and sealed, it reads back as
  the item \<open>v\<close> stands for.\<close>

lemma look_packet:
  assumes "usable p" "length v = value_size"
  shows "look c' (seal c (write_bytes (prep m p) (p + 16) v) p) p = Some (item v)"
  using assms look_seal ready_fill ready_prep by simp

lemma packet_frame:
  assumes "usable p" "length v = value_size"
  shows "same_outside p width m (seal c (write_bytes (prep m p) (p + 16) v) p)"
proof -
  have "same_outside p width m (write_bytes (prep m p) (p + 16) v)"
    using assms payload_inside [OF assms(1)] prep_frame by (intro same_outside_writeI) simp_all
  then show ?thesis
    using seal_frame [OF assms(1)] by (rule same_outside_trans)
qed

lemma look_outside:
  "same_outside q n m m' \<Longrightarrow> p + width \<le> q \<or> q + n \<le> p \<Longrightarrow> look c m' p = look c m p"
  by (rule look_local, rule same_outside_read)

text \<open>
  A write confined to the slot at \<open>head\<close> of a ring that is not full leaves the occupied slots
  as they were; publishing it by advancing \<open>head\<close> appends what the slot holds.
\<close>

lemma ring_view_frame:
  assumes "capacity_ok cap" "width \<le> stride" "unat (head - tail) < unat cap"
    and frame: "same_outside (ring_slot base stride cap head) width m m'"
  shows "ring_view (look c) (ring_slot base stride cap) head tail m' =
    ring_view (look c) (ring_slot base stride cap) head tail m"
  unfolding ring_view_def
proof (intro map_cong refl)
  fix i assume "i \<in> set [0..<unat (head - tail)]"
  then have i: "i < unat (head - tail)" by simp
  with assms(3) have "unat (head - tail) - i < unat cap" by simp
  from slots_disjoint [OF assms(1) i this assms(2), of base tail] frame
  show "look c m' (ring_slot base stride cap (tail + of_nat i)) =
      look c m (ring_slot base stride cap (tail + of_nat i))"
    by (intro look_outside) (auto simp: cursor_top)
qed

lemma ring_view_push:
  assumes "capacity_ok cap" "width \<le> stride" "unat (head - tail) < unat cap"
    and "same_outside (ring_slot base stride cap head) width m m'"
  shows "ring_view (look c) (ring_slot base stride cap) (head + 1) tail m' =
    ring_view (look c) (ring_slot base stride cap) head tail m
      @ [look c m' (ring_slot base stride cap head)]"
proof -
  have "ring_view (look c) (ring_slot base stride cap) (head + 1) tail m' =
      ring_view (look c) (ring_slot base stride cap) head tail m'
      @ [look c m' (ring_slot base stride cap (tail + of_nat (unat (head - tail))))]"
    by (simp only: ring_view_def unat_advance_head [OF assms(3)] upt_Suc_append map_append
        zero_le list.map)
  then show ?thesis
    using ring_view_frame [OF assms] by (simp add: cursor_top)
qed

text \<open>The same two steps on the items of a ring.\<close>

lemma ring_prepare:
  assumes "capacity_ok cap" "width \<le> stride" "unat (head - tail) < unat cap"
    and "same_outside (ring_slot base stride cap head) width m m'"
  shows "ring_ok (look c) (ring_slot base stride cap) cap head tail m' =
      ring_ok (look c) (ring_slot base stride cap) cap head tail m"
    and "ring_items (look c) (ring_slot base stride cap) head tail m' =
      ring_items (look c) (ring_slot base stride cap) head tail m"
  using ring_view_frame [OF assms] by (simp_all add: ring_ok_def ring_items_def)

lemma ring_commit:
  fixes c' :: bool
  assumes cap: "capacity_ok cap" "width \<le> stride" "unat (head - tail) < unat cap"
    and ok: "ring_ok (look c) (ring_slot base stride cap) cap head tail m"
    and frame: "same_outside (ring_slot base stride cap head) width m m1"
    and "usable (ring_slot base stride cap head)" "ready m1 (ring_slot base stride cap head)"
  defines "m2 \<equiv> seal c' m1 (ring_slot base stride cap head)"
  shows "ring_ok (look c) (ring_slot base stride cap) cap (head + 1) tail m2"
    and "ring_items (look c) (ring_slot base stride cap) (head + 1) tail m2 =
      ring_items (look c) (ring_slot base stride cap) head tail m
        @ [item (read_bytes m1 (ring_slot base stride cap head + 16) value_size)]"
proof -
  let ?p = "ring_slot base stride cap head"
  have "same_outside ?p width m m2"
    using frame seal_frame [OF assms(6)] unfolding m2_def by (rule same_outside_trans)
  then have view: "ring_view (look c) (ring_slot base stride cap) (head + 1) tail m2 =
      ring_view (look c) (ring_slot base stride cap) head tail m
        @ [Some (item (read_bytes m1 (?p + 16) value_size))]"
    using ring_view_push [OF cap] look_seal [OF assms(6,7)] by (simp add: m2_def)
  have "unat (head + 1 - tail) \<le> unat cap" using unat_advance_head [OF cap(3)] cap(3) by simp
  with ok view show "ring_ok (look c) (ring_slot base stride cap) cap (head + 1) tail m2"
    by (simp add: ring_ok_def)
  show "ring_items (look c) (ring_slot base stride cap) (head + 1) tail m2 =
      ring_items (look c) (ring_slot base stride cap) head tail m
        @ [item (read_bytes m1 (?p + 16) value_size)]"
    using view by (simp add: ring_items_def)
qed

text \<open>
  The same for cells: writing inside one slot leaves what the other cells hold, sealing it gives its
  cell the packet, and writing outside the array changes nothing.
\<close>

lemma cells_write:
  assumes "cells_hold (look c) base stride m cells" "same_outside (base + i * stride) width m m'" "width \<le> stride"
  shows "cells_hold (look c) base stride m' (cells(i := None))"
  unfolding cells_hold_def
proof (intro allI impI)
  fix j v assume j: "(cells(i := None)) j = Some v"
  then have "j \<noteq> i" by auto
  with j strides_apart [of i j width stride base] assms look_outside [OF assms(2)]
  show "look c m' (base + j * stride) = Some v" by (auto simp: cells_hold_def)
qed

lemma cells_seal:
  assumes "cells_hold (look c) base stride m cells" "width \<le> stride"
    and "usable (base + i * stride)" "ready m (base + i * stride)"
  shows "cells_hold (look c) base stride (seal c' m (base + i * stride))
    (cells(i := Some (item (read_bytes m (base + i * stride + 16) value_size))))"
  using cells_write [OF assms(1) seal_frame [OF assms(3)] assms(2), of c'] look_seal [OF assms(3,4), of c c']
  by (auto simp: cells_hold_def)

lemma cells_frame:
  assumes "cells_hold (look c) base stride m cells" "same_outside q n m m'" "q + n \<le> base"
  shows "cells_hold (look c) base stride m' cells"
  using assms(1,3) look_outside [OF assms(2)] by (auto simp: cells_hold_def)

end

end
