(* ===== verification/Wire.thy ===== *)
theory Wire
  imports Crc32 Message Slots
begin

text \<open>
  Model of \<open>include/sinew/wire.hpp\<close>: validation and zero-copy views of a packet, in-place
  preparation and finalisation. A packet is the 16-byte header followed by the payload; every
  operation works on a memory and a pointer into it, on a host of byte order \<open>e\<close>, for a message
  type \<open>T\<close>.
\<close>

section \<open>Reading a packet\<close>

definition message_size :: "msgtype \<Rightarrow> nat" where
  "message_size T = sizeof_Header + mt_sizeof T"

definition validate ::
  "endian \<Rightarrow> msgtype \<Rightarrow> mem \<Rightarrow> ptr \<Rightarrow> nat \<Rightarrow> bool \<Rightarrow> ErrorCode" where
  "validate e T m buffer sz verify_crc =
     (if buffer = nullptr \<or> sz < sizeof_Header + mt_sizeof T then BufferTooSmall
      else
        let payload_ptr = buffer + sizeof_Header in
        if payload_ptr mod mt_alignof T \<noteq> 0 then Misaligned
        else
          let hdr = load_header e m buffer in
          if h_magic hdr \<noteq> SINEW_MAGIC then BadMagic
          else if unat (h_payload_len hdr) \<noteq> mt_sizeof T then BufferTooSmall
          else if h_msg_id hdr \<noteq> mt_id T then IdMismatch
          else if h_version hdr \<noteq> mt_version T then VersionMismatch
          else if verify_crc \<and> h_crc hdr \<noteq> 0 \<and>
                  crc32 m payload_ptr (mt_sizeof T) 0xFFFFFFFF \<noteq> h_crc hdr
            then ChecksumMismatch
          else Ok)"

record ViewResult =
  vr_value :: ptr
  vr_error :: ErrorCode

definition vr_ok :: "ViewResult \<Rightarrow> bool" where
  "vr_ok r \<longleftrightarrow> vr_error r = Ok \<and> vr_value r \<noteq> nullptr"

definition vr_has_value :: "ViewResult \<Rightarrow> bool" where
  "vr_has_value r \<longleftrightarrow> vr_value r \<noteq> nullptr"

text \<open>\<open>operator*\<close> and \<open>operator->\<close>: the object pointed to, undefined for a null pointer.\<close>

definition vr_get :: "msgtype \<Rightarrow> mem \<Rightarrow> ViewResult \<Rightarrow> bytes option" where
  "vr_get T m r = (if vr_value r = nullptr then None else Some (read_bytes m (vr_value r) (mt_sizeof T)))"

definition view_result ::
  "endian \<Rightarrow> msgtype \<Rightarrow> mem \<Rightarrow> ptr \<Rightarrow> nat \<Rightarrow> bool \<Rightarrow> ViewResult" where
  "view_result e T m buffer sz verify_crc =
     (let err = validate e T m buffer sz verify_crc in
      if err \<noteq> Ok then \<lparr>vr_value = nullptr, vr_error = err\<rparr>
      else \<lparr>vr_value = buffer + sizeof_Header, vr_error = Ok\<rparr>)"

definition view :: "endian \<Rightarrow> msgtype \<Rightarrow> mem \<Rightarrow> ptr \<Rightarrow> nat \<Rightarrow> bool \<Rightarrow> ptr" where
  "view e T m buffer sz verify_crc =
     (if validate e T m buffer sz verify_crc \<noteq> Ok then nullptr else buffer + sizeof_Header)"

text \<open>The overloads for a buffer of a known array type \<open>uint8_t[N]\<close>.\<close>

definition view_array :: "endian \<Rightarrow> msgtype \<Rightarrow> mem \<Rightarrow> ptr \<Rightarrow> nat \<Rightarrow> ptr" where
  "view_array e T m buffer N = view e T m buffer N False"

definition view_array_crc :: "endian \<Rightarrow> msgtype \<Rightarrow> mem \<Rightarrow> ptr \<Rightarrow> nat \<Rightarrow> bool \<Rightarrow> ptr" where
  "view_array_crc e T m buffer N verify_crc = view e T m buffer N verify_crc"

section \<open>Writing a packet\<close>

record PrepareResult =
  pr_value :: ptr
  pr_error :: ErrorCode

definition pr_ok :: "PrepareResult \<Rightarrow> bool" where
  "pr_ok r \<longleftrightarrow> pr_error r = Ok \<and> pr_value r \<noteq> nullptr"

definition pr_has_value :: "PrepareResult \<Rightarrow> bool" where
  "pr_has_value r \<longleftrightarrow> pr_value r \<noteq> nullptr"

definition pr_get :: "msgtype \<Rightarrow> mem \<Rightarrow> PrepareResult \<Rightarrow> bytes option" where
  "pr_get T m r = (if pr_value r = nullptr then None else Some (read_bytes m (pr_value r) (mt_sizeof T)))"

text \<open>The five header assignments, in the order of the code.\<close>

definition stamp_header :: "endian \<Rightarrow> msgtype \<Rightarrow> mem \<Rightarrow> ptr \<Rightarrow> mem" where
  "stamp_header e T m hdr =
     (let m = store_u32 e m hdr SINEW_MAGIC;
          m = store_u16 e m (hdr + 4) (mt_id T);
          m = store_u16 e m (hdr + 6) (mt_version T);
          m = store_u32 e m (hdr + 8) 0
      in store_u32 e m (hdr + 12) (of_nat (mt_sizeof T)))"

text \<open>\<open>new (payload_ptr) T\<close>: the default constructor runs over the bytes that are there.\<close>

definition placement_new :: "msgtype \<Rightarrow> mem \<Rightarrow> ptr \<Rightarrow> mem" where
  "placement_new T m p = write_bytes m p (mt_construct T (read_bytes m p (mt_sizeof T)))"

definition prepare_result ::
  "endian \<Rightarrow> msgtype \<Rightarrow> mem \<Rightarrow> ptr \<Rightarrow> nat \<Rightarrow> PrepareResult \<times> mem" where
  "prepare_result e T m buffer capacity =
     (if buffer = nullptr \<or> capacity < sizeof_Header + mt_sizeof T
      then (\<lparr>pr_value = nullptr, pr_error = BufferTooSmall\<rparr>, m)
      else
        let payload_ptr = buffer + sizeof_Header in
        if payload_ptr mod mt_alignof T \<noteq> 0
        then (\<lparr>pr_value = nullptr, pr_error = Misaligned\<rparr>, m)
        else
          let m = stamp_header e T m buffer;
              m = mem_set m payload_ptr 0 (mt_sizeof T);
              m = placement_new T m payload_ptr
          in (\<lparr>pr_value = payload_ptr, pr_error = Ok\<rparr>, m))"

definition prepare :: "endian \<Rightarrow> msgtype \<Rightarrow> mem \<Rightarrow> ptr \<Rightarrow> nat \<Rightarrow> ptr \<times> mem" where
  "prepare e T m buffer capacity =
     (let (r, m) = prepare_result e T m buffer capacity in (pr_value r, m))"

definition prepare_result_array ::
  "endian \<Rightarrow> msgtype \<Rightarrow> mem \<Rightarrow> ptr \<Rightarrow> nat \<Rightarrow> PrepareResult \<times> mem" where
  "prepare_result_array e T m buffer N = prepare_result e T m buffer N"

definition prepare_array :: "endian \<Rightarrow> msgtype \<Rightarrow> mem \<Rightarrow> ptr \<Rightarrow> nat \<Rightarrow> ptr \<times> mem" where
  "prepare_array e T m buffer N = prepare e T m buffer N"

definition finalize :: "endian \<Rightarrow> msgtype \<Rightarrow> mem \<Rightarrow> ptr \<Rightarrow> bool \<Rightarrow> nat \<times> mem" where
  "finalize e T m payload compute_crc =
     (if payload = nullptr then (0, m)
      else
        let hdr = payload - sizeof_Header;
            m = (if compute_crc
                 then store_u32 e m (hdr + 8) (crc32 m payload (mt_sizeof T) 0xFFFFFFFF)
                 else store_u32 e m (hdr + 8) 0)
        in (sizeof_Header + mt_sizeof T, m))"

definition get_header :: "endian \<Rightarrow> mem \<Rightarrow> ptr \<Rightarrow> header" where
  "get_header e m payload = load_header e m (payload - sizeof_Header)"

text \<open>Assigning a whole object through a pointer (\<open>*slot = value\<close>).\<close>

definition assign_object :: "mem \<Rightarrow> ptr \<Rightarrow> bytes \<Rightarrow> mem" where
  "assign_object m p v = write_bytes m p v"

section \<open>Validation\<close>

lemma validate_Ok_iff:
  "validate e T m buffer sz verify_crc = Ok \<longleftrightarrow>
     buffer \<noteq> nullptr \<and> message_size T \<le> sz \<and> mt_alignof T dvd buffer + 16 \<and>
     load_u32 e m buffer = SINEW_MAGIC \<and> unat (load_u32 e m (buffer + 12)) = mt_sizeof T \<and>
     load_u16 e m (buffer + 4) = mt_id T \<and> load_u16 e m (buffer + 6) = mt_version T \<and>
     (verify_crc \<and> load_u32 e m (buffer + 8) \<noteq> 0 \<longrightarrow>
        crc32_of (read_bytes m (buffer + 16) (mt_sizeof T)) = load_u32 e m (buffer + 8))"
  by (auto simp: validate_def message_size_def sizeof_Header_def Let_def crc32_default
      mod_eq_0_iff_dvd)

lemma validate_cong:
  assumes "read_bytes m p (message_size T) = read_bytes m' p (message_size T)"
  shows "validate e T m p sz c = validate e T m' p sz c"
proof -
  have split: "read_bytes m p (16 + mt_sizeof T) = read_bytes m' p (16 + mt_sizeof T)"
    using assms by (simp add: message_size_def sizeof_Header_def)
  then have hdr: "read_bytes m p 16 = read_bytes m' p 16"
    and payload: "read_bytes m (p + 16) (mt_sizeof T) = read_bytes m' (p + 16) (mt_sizeof T)"
    by (simp_all add: read_bytes_append)
  from payload have "crc32 m (p + 16) (mt_sizeof T) i = crc32 m' (p + 16) (mt_sizeof T) i" for i
    by (simp add: crc32_def)
  with load_header_cong [OF hdr, of e] show ?thesis
    unfolding validate_def sizeof_Header_def Let_def by simp
qed

lemma view_eq_nullptr: "view e T m p sz c = nullptr \<longleftrightarrow> validate e T m p sz c \<noteq> Ok"
  by (simp add: view_def sizeof_Header_def)

lemma view_Ok [simp]: "validate e T m p sz c = Ok \<Longrightarrow> view e T m p sz c = p + 16"
  by (simp add: view_def sizeof_Header_def)

section \<open>Preparation\<close>

text \<open>A buffer that can hold a packet of \<open>T\<close>, and a header stamped for \<open>T\<close>.\<close>

definition fits :: "msgtype \<Rightarrow> ptr \<Rightarrow> bool" where
  "fits T p \<longleftrightarrow> is_valid_message T \<and> p \<noteq> nullptr \<and> mt_alignof T dvd p + 16"

definition stamped :: "endian \<Rightarrow> msgtype \<Rightarrow> mem \<Rightarrow> ptr \<Rightarrow> bool" where
  "stamped e T m p \<longleftrightarrow> load_u32 e m p = SINEW_MAGIC \<and> load_u16 e m (p + 4) = mt_id T
     \<and> load_u16 e m (p + 6) = mt_version T \<and> unat (load_u32 e m (p + 12)) = mt_sizeof T"

lemma validate_stamped:
  "fits T p \<Longrightarrow> message_size T \<le> sz \<Longrightarrow>
     validate e T m p sz c = Ok \<longleftrightarrow> stamped e T m p \<and>
       (c \<and> load_u32 e m (p + 8) \<noteq> 0 \<longrightarrow>
          crc32_of (read_bytes m (p + 16) (mt_sizeof T)) = load_u32 e m (p + 8))"
  by (auto simp: validate_Ok_iff fits_def stamped_def)

lemma same_outside_stamp: "same_outside p 16 m (stamp_header e T m p)"
  by (simp add: stamp_header_def Let_def same_outside_store)

lemma load_stamp:
  "load_u32 e (stamp_header e T m p) p = SINEW_MAGIC"
  "load_u16 e (stamp_header e T m p) (p + 4) = mt_id T"
  "load_u16 e (stamp_header e T m p) (p + 6) = mt_version T"
  "load_u32 e (stamp_header e T m p) (p + 8) = 0"
  "load_u32 e (stamp_header e T m p) (p + 12) = of_nat (mt_sizeof T)"
  by (simp_all add: stamp_header_def Let_def mem_simps)

text \<open>The memory a successful preparation leaves.\<close>

definition prepared :: "endian \<Rightarrow> msgtype \<Rightarrow> mem \<Rightarrow> ptr \<Rightarrow> mem" where
  "prepared e T m p =
     placement_new T (mem_set (stamp_header e T m p) (p + 16) 0 (mt_sizeof T)) (p + 16)"

lemma prepare_result_cases:
  "prepare_result e T m p cap =
     (if p = nullptr \<or> cap < message_size T then (\<lparr>pr_value = nullptr, pr_error = BufferTooSmall\<rparr>, m)
      else if \<not> mt_alignof T dvd p + 16 then (\<lparr>pr_value = nullptr, pr_error = Misaligned\<rparr>, m)
      else (\<lparr>pr_value = p + 16, pr_error = Ok\<rparr>, prepared e T m p))"
  by (simp add: prepare_result_def prepared_def message_size_def sizeof_Header_def Let_def
      mod_eq_0_iff_dvd)

lemma prepare_cases:
  "prepare e T m p cap =
     (if p = nullptr \<or> cap < message_size T \<or> \<not> mt_alignof T dvd p + 16 then (nullptr, m)
      else (p + 16, prepared e T m p))"
  by (simp add: prepare_def prepare_result_cases)

lemma prepare_fits [simp]:
  "fits T p \<Longrightarrow> message_size T \<le> cap \<Longrightarrow> prepare e T m p cap = (p + 16, prepared e T m p)"
  by (simp add: prepare_cases fits_def)

lemma same_outside_prepared:
  assumes "is_valid_message T"
  shows "same_outside p (message_size T) m (prepared e T m p)"
proof -
  have "same_outside p (message_size T) m (stamp_header e T m p)"
    by (rule same_outside_mono [OF same_outside_stamp])
      (simp_all add: message_size_def sizeof_Header_def)
  then show ?thesis
    using assms
    by (auto simp: prepared_def placement_new_def mem_set_def message_size_def sizeof_Header_def
        intro!: same_outside_writeI)
qed

lemma read_prepared_header:
  "is_valid_message T \<Longrightarrow> k + n \<le> 16 \<Longrightarrow>
     read_bytes (prepared e T m p) (p + k) n = read_bytes (stamp_header e T m p) (p + k) n"
  by (auto simp: prepared_def placement_new_def mem_set_def intro!: read_write_disjoint [THEN trans])

lemma read_prepared_payload:
  "is_valid_message T \<Longrightarrow>
     read_bytes (prepared e T m p) (p + 16) (mt_sizeof T) = mt_construct T (replicate (mt_sizeof T) 0)"
  by (auto simp: prepared_def placement_new_def mem_set_def)

lemma stamped_prepared: "is_valid_message T \<Longrightarrow> stamped e T (prepared e T m p) p"
  using read_prepared_header [of T 0 4 e m p] read_prepared_header [of T 4 2 e m p]
    read_prepared_header [of T 6 2 e m p] read_prepared_header [of T 12 4 e m p] load_stamp
  by (simp add: stamped_def load_defs valid_size_u32)

lemma stamped_write: "stamped e T m p \<Longrightarrow> p + 16 \<le> a \<Longrightarrow> stamped e T (write_bytes m a v) p"
  by (simp add: stamped_def mem_simps)

lemma stamped_assign: "stamped e T m p \<Longrightarrow> stamped e T (assign_object m (p + 16) v) p"
  by (simp add: assign_object_def stamped_write)

text \<open>A result can be dereferenced exactly when it reports success.\<close>

lemma result_get:
  "vr_get T m (view_result e T m p sz c) \<noteq> None \<longleftrightarrow> vr_ok (view_result e T m p sz c)"
  "pr_get T m' (fst (prepare_result e T m p cap)) \<noteq> None \<longleftrightarrow> pr_ok (fst (prepare_result e T m p cap))"
  by (auto simp: vr_get_def vr_ok_def view_result_def pr_get_def pr_ok_def prepare_result_cases
      sizeof_Header_def Let_def)

section \<open>Finalisation\<close>

definition payload_crc :: "msgtype \<Rightarrow> mem \<Rightarrow> ptr \<Rightarrow> bool \<Rightarrow> u32" where
  "payload_crc T m p compute_crc =
     (if compute_crc then crc32_of (read_bytes m p (mt_sizeof T)) else 0)"

lemma finalize_eq:
  "finalize e T m (p + 16) c =
     (message_size T, store_u32 e m (p + 8) (payload_crc T m (p + 16) c))"
  by (simp add: finalize_def message_size_def sizeof_Header_def payload_crc_def Let_def
      crc32_default)

lemma stamped_finalize: "stamped e T m p \<Longrightarrow> stamped e T (snd (finalize e T m (p + 16) c)) p"
  by (simp add: finalize_eq stamped_def mem_simps)

lemma read_finalize_payload:
  "read_bytes (snd (finalize e T m (p + 16) c)) (p + 16) n = read_bytes m (p + 16) n"
  by (simp add: finalize_eq mem_simps)

lemma same_outside_finalize:
  "same_outside p (message_size T) m (snd (finalize e T m (p + 16) c))"
  by (auto simp: finalize_eq message_size_def sizeof_Header_def)

lemma validate_finalize:
  assumes "fits T p" "message_size T \<le> sz" "stamped e T m p"
  shows "validate e T (snd (finalize e T m (p + 16) c)) p sz c' = Ok"
  using assms stamped_finalize [OF assms(3), of c]
  by (simp add: validate_stamped read_finalize_payload)
    (simp add: finalize_eq payload_crc_def)

section \<open>The wire format as slots of a ring\<close>

text \<open>The result of a view, as the payload it gives access to.\<close>

definition slot_look :: "endian \<Rightarrow> msgtype \<Rightarrow> bool \<Rightarrow> mem \<Rightarrow> ptr \<Rightarrow> bytes option" where
  "slot_look e T c m p =
     (if validate e T m p (message_size T) c = Ok then Some (read_bytes m (p + 16) (mt_sizeof T))
      else None)"

definition slot_seal :: "endian \<Rightarrow> msgtype \<Rightarrow> bool \<Rightarrow> mem \<Rightarrow> ptr \<Rightarrow> mem" where
  "slot_seal e T c m p = snd (finalize e T m (p + 16) c)"

lemma message_size_eq: "message_size T = 16 + mt_sizeof T"
  by (simp add: message_size_def sizeof_Header_def)

lemma validate_size:
  "message_size T \<le> sz \<Longrightarrow> validate e T m p sz c = validate e T m p (message_size T) c"
  by (simp add: validate_def message_size_def)

lemma view_slot_look:
  "message_size T \<le> sz \<Longrightarrow>
     view e T m p sz c = (if slot_look e T c m p = None then nullptr else p + 16)"
  using validate_size [of T sz e m p c] by (simp add: view_def slot_look_def sizeof_Header_def)

lemma slot_look_Some:
  "slot_look e T c m p = Some v \<longleftrightarrow>
     validate e T m p (message_size T) c = Ok \<and> v = read_bytes m (p + 16) (mt_sizeof T)"
  by (auto simp: slot_look_def)

lemma slot_look_weaken: "slot_look e T True m p = Some v \<Longrightarrow> slot_look e T c m p = Some v"
  by (auto simp: slot_look_Some validate_Ok_iff)

interpretation wire: packet_slot "message_size T" "mt_sizeof T" "fits T" "stamped e T"
  "prepared e T" "slot_seal e T" "slot_look e T" "\<lambda>v. v" for e T
proof unfold_locales
  show "16 + mt_sizeof T \<le> message_size T" if "fits T p" for p by (simp add: message_size_eq)
  show "slot_look e T c m p = slot_look e T c m' p"
    if "read_bytes m p (message_size T) = read_bytes m' p (message_size T)" for m p m' c
  proof -
    have "read_bytes m (p + 16) (mt_sizeof T) = read_bytes m' (p + 16) (mt_sizeof T)"
      using that by (simp add: message_size_eq read_bytes_append)
    with validate_cong [OF that] show ?thesis by (simp add: slot_look_def)
  qed
  show "same_outside p (message_size T) m (prepared e T m p)" if "fits T p" for p m
    using that by (simp add: fits_def same_outside_prepared)
  show "same_outside p (message_size T) m (slot_seal e T c m p)" for p c m
    by (simp add: slot_seal_def same_outside_finalize)
  show "stamped e T (prepared e T m p) p" if "fits T p" for p m
    using that by (simp add: fits_def stamped_prepared)
  show "stamped e T (write_bytes m (p + 16) v) p" if "stamped e T m p" for m p v
    using stamped_assign [OF that] by (simp add: assign_object_def)
  show "slot_look e T c' (slot_seal e T c m p) p = Some (read_bytes m (p + 16) (mt_sizeof T))"
    if "fits T p" "stamped e T m p" for p m c c'
    using that by (simp add: slot_look_def slot_seal_def validate_finalize read_finalize_payload)
qed

section \<open>Writing and reading back\<close>

text \<open>A whole message written in place, as \<open>prepare\<close>, one assignment, and \<open>finalize\<close>.\<close>

definition write_message ::
  "endian \<Rightarrow> msgtype \<Rightarrow> mem \<Rightarrow> ptr \<Rightarrow> nat \<Rightarrow> bytes \<Rightarrow> bool \<Rightarrow> nat \<times> mem" where
  "write_message e T m buffer capacity v compute_crc =
     (let (slot, m) = prepare e T m buffer capacity in
      if slot = nullptr then (0, m)
      else finalize e T (assign_object m slot v) slot compute_crc)"

lemma write_message_eq:
  "fits T p \<Longrightarrow> message_size T \<le> cap \<Longrightarrow>
     write_message e T m p cap v c =
       (message_size T, slot_seal e T c (write_bytes (prepared e T m p) (p + 16) v) p)"
  by (simp add: write_message_def slot_seal_def assign_object_def finalize_eq)

lemma read_header_bytes:
  "read_bytes m p 16 =
     obj_of_word e 4 (load_u32 e m p) @ obj_of_word e 2 (load_u16 e m (p + 4))
     @ obj_of_word e 2 (load_u16 e m (p + 6)) @ obj_of_word e 4 (load_u32 e m (p + 8))
     @ obj_of_word e 4 (load_u32 e m (p + 12))"
proof -
  have "read_bytes m p (4 + (2 + (2 + (4 + 4)))) =
      read_bytes m p 4 @ read_bytes m (p + 4) 2 @ read_bytes m (p + (4 + 2)) 2
      @ read_bytes m (p + (4 + (2 + 2))) 4 @ read_bytes m (p + (4 + (2 + (2 + 4)))) 4"
    by (simp only: read_bytes_append add.assoc)
  then show ?thesis by (simp add: load_defs)
qed

text \<open>The bytes of a packet on the wire.\<close>

definition packet_bytes :: "endian \<Rightarrow> msgtype \<Rightarrow> bytes \<Rightarrow> bool \<Rightarrow> bytes" where
  "packet_bytes e T v compute_crc =
     obj_of_word e 4 SINEW_MAGIC @ obj_of_word e 2 (mt_id T) @ obj_of_word e 2 (mt_version T)
     @ obj_of_word e 4 (if compute_crc then crc32_of v else 0)
     @ obj_of_word e 4 (of_nat (mt_sizeof T) :: u32) @ v"

lemma length_packet_bytes: "length v = mt_sizeof T \<Longrightarrow> length (packet_bytes e T v c) = message_size T"
  by (simp add: packet_bytes_def message_size_eq)

lemma sealed_packet_bytes:
  assumes "is_valid_message T" "stamped e T m p"
  shows "read_bytes (slot_seal e T c m p) p (message_size T) =
    packet_bytes e T (read_bytes m (p + 16) (mt_sizeof T)) c"
proof -
  let ?m = "slot_seal e T c m p"
  have st: "stamped e T ?m p"
    using assms by (simp add: slot_seal_def stamped_finalize)
  have "of_nat (unat (load_u32 e ?m (p + 12))) = load_u32 e ?m (p + 12)" by simp
  with st have len: "load_u32 e ?m (p + 12) = of_nat (mt_sizeof T)"
    by (simp add: stamped_def)
  have crc: "load_u32 e ?m (p + 8) =
      (if c then crc32_of (read_bytes m (p + 16) (mt_sizeof T)) else 0)"
    by (simp add: slot_seal_def finalize_eq payload_crc_def)
  have "read_bytes ?m (p + 16) (mt_sizeof T) = read_bytes m (p + 16) (mt_sizeof T)"
    by (simp add: slot_seal_def read_finalize_payload)
  moreover have "read_bytes ?m p (message_size T) =
      read_bytes ?m p 16 @ read_bytes ?m (p + 16) (mt_sizeof T)"
    by (simp add: message_size_eq read_bytes_append)
  ultimately show ?thesis
    using st unfolding stamped_def packet_bytes_def read_header_bytes [of ?m p e] len crc by simp
qed

text \<open>
  A message filled field by field, as callers do between \<open>prepare\<close> and \<open>finalize\<close>: each
  assignment writes some bytes at an offset of the payload and leaves the padding alone.
\<close>

type_synonym field_writes = "(nat \<times> bytes) list"

definition write_fields :: "mem \<Rightarrow> ptr \<Rightarrow> field_writes \<Rightarrow> mem" where
  "write_fields m slot fs = foldl (\<lambda>m (off, f). write_bytes m (slot + off) f) m fs"

definition fill_message ::
  "endian \<Rightarrow> msgtype \<Rightarrow> mem \<Rightarrow> ptr \<Rightarrow> nat \<Rightarrow> field_writes \<Rightarrow> bool \<Rightarrow> nat \<times> mem" where
  "fill_message e T m buffer capacity fs compute_crc =
     (let (slot, m) = prepare e T m buffer capacity in
      if slot = nullptr then (0, m) else finalize e T (write_fields m slot fs) slot compute_crc)"

text \<open>The same assignments on the bytes of an object.\<close>

definition apply_fields :: "field_writes \<Rightarrow> bytes \<Rightarrow> bytes" where
  "apply_fields fs obj =
     foldl (\<lambda>obj (off, f). take off obj @ f @ drop (off + length f) obj) obj fs"

definition fields_inside :: "nat \<Rightarrow> field_writes \<Rightarrow> bool" where
  "fields_inside n fs \<longleftrightarrow> list_all (\<lambda>(off, f). off + length f \<le> n) fs"

lemma read_write_part:
  assumes "off + length f \<le> n"
  shows "read_bytes (write_bytes m (p + off) f) p n =
    take off (read_bytes m p n) @ f @ drop (off + length f) (read_bytes m p n)"
  using assms by (intro nth_equalityI) (auto simp: nth_append write_bytes_def min_def)

lemma read_write_fields:
  "fields_inside n fs \<Longrightarrow> read_bytes (write_fields m p fs) p n = apply_fields fs (read_bytes m p n)"
  unfolding write_fields_def apply_fields_def fields_inside_def
  by (induction fs arbitrary: m) (auto simp: read_write_part)

lemma stamped_write_fields: "stamped e T m p \<Longrightarrow> stamped e T (write_fields m (p + 16) fs) p"
  unfolding write_fields_def
  by (induction fs arbitrary: m) (auto simp: stamped_write)

section \<open>Properties of the wire format\<close>

text \<open>
  A dirty memory, and the bytes of a \<open>PingMsg\<close> packet written into it.
\<close>

definition dirty :: mem where
  "dirty = (\<lambda>_. 0xAA)"

lemma fits_Ping [simp]: "fits PingMsg 64" and size_Ping [simp]: "message_size PingMsg = 20"
  by (simp_all add: fits_def nullptr_def message_size_eq)

text \<open>
  C30. \<open>prepare_result\<close> succeeds exactly when the buffer is not null, is large enough and puts the
  payload at an aligned address. Then it returns the payload's address, the header is stamped for
  the type, the payload is a default-constructed object over zeroed storage, and nothing outside
  the packet changes; otherwise the error says which check failed and the memory is untouched.
\<close>

theorem prepare_outcome:
  assumes "is_valid_message T"
  shows "case prepare_result e T m p cap of (r, m') \<Rightarrow>
      if p \<noteq> nullptr \<and> message_size T \<le> cap \<and> mt_alignof T dvd p + 16
      then pr_ok r \<and> pr_value r = p + 16 \<and> stamped e T m' p
        \<and> read_bytes m' (p + 16) (mt_sizeof T) = mt_construct T (replicate (mt_sizeof T) 0)
        \<and> same_outside p (message_size T) m m'
      else \<not> pr_ok r \<and> \<not> pr_has_value r \<and> m' = m
        \<and> pr_error r = (if p = nullptr \<or> cap < message_size T then BufferTooSmall else Misaligned)"
  using assms
  by (auto simp: prepare_result_cases pr_ok_def pr_has_value_def nullptr_def
      stamped_prepared read_prepared_payload same_outside_prepared)

theorem prepare_outcome_witness:
  "pr_ok (fst (prepare_result Little PingMsg dirty 64 20)) \<and>
   pr_error (fst (prepare_result Little PingMsg dirty 64 19)) = BufferTooSmall \<and>
   pr_error (fst (prepare_result Little PingMsg dirty 66 20)) = Misaligned"
  using prepare_outcome [OF valid_PingMsg, where e = Little and m = dirty and p = 64 and cap = 20]
    prepare_outcome [OF valid_PingMsg, where e = Little and m = dirty and p = 64 and cap = 19]
    prepare_outcome [OF valid_PingMsg, where e = Little and m = dirty and p = 66 and cap = 20]
  by (auto simp: nullptr_def split: prod.splits)

text \<open>
  C4. Zero-copy round trip: a message prepared, assigned and finalised in a buffer is returned by
  \<open>view_result\<close> as the address 16 bytes into that same buffer, with the bytes that were assigned,
  whatever the checksum options of writer and reader; the write stays inside the packet.
\<close>

theorem wire_round_trip:
  assumes "fits T p" "message_size T \<le> cap" "length v = mt_sizeof T"
    and wr: "write_message e T m p cap v compute_crc = (n, m')"
  shows "n = message_size T \<and> view_result e T m' p n verify_crc = \<lparr>vr_value = p + 16, vr_error = Ok\<rparr>
    \<and> read_bytes m' (p + 16) (mt_sizeof T) = v \<and> same_outside p n m m'"
proof -
  have n: "n = message_size T"
    and m': "m' = slot_seal e T compute_crc (write_bytes (prepared e T m p) (p + 16) v) p"
    using wr assms(1,2) by (simp_all add: write_message_eq)
  have "slot_look e T verify_crc m' p = Some v"
    unfolding m' using assms(1,3) by (rule wire.look_packet)
  then have "validate e T m' p n verify_crc = Ok" "read_bytes m' (p + 16) (mt_sizeof T) = v"
    by (simp_all add: slot_look_Some n)
  moreover have "same_outside p n m m'"
    unfolding m' n using assms(1,3) by (rule wire.packet_frame)
  ultimately show ?thesis
    by (simp add: n view_result_def sizeof_Header_def)
qed

theorem wire_round_trip_witness:
  "(case write_message Big PingMsg dirty 64 20 [1, 2, 3, 4] True of (n, m') \<Rightarrow>
      n = 20 \<and> vr_value (view_result Big PingMsg m' 64 n True) = 80
      \<and> read_bytes m' 80 4 = [1, 2, 3, 4])"
  using wire_round_trip [of PingMsg 64 20 "[1, 2, 3, 4]" Big dirty True _ _ True]
  by (auto split: prod.split)

text \<open>
  C29. Determinism: the bytes of a packet filled field by field are a function of the message type,
  the fields written and the checksum option alone. What the buffer held before, and where it
  lies, leaves no trace, padding included.
\<close>


theorem fill_message_bytes:
  assumes "fits T p" "message_size T \<le> cap" "fields_inside (mt_sizeof T) fs"
  shows "read_bytes (snd (fill_message e T m p cap fs compute_crc)) p (message_size T) =
    packet_bytes e T (apply_fields fs (mt_construct T (replicate (mt_sizeof T) 0))) compute_crc"
proof -
  let ?m = "write_fields (prepared e T m p) (p + 16) fs"
  have valid: "is_valid_message T" using assms(1) by (simp add: fits_def)
  have "snd (fill_message e T m p cap fs compute_crc) = slot_seal e T compute_crc ?m p"
    using assms(1,2) by (simp add: fill_message_def slot_seal_def)
  moreover have "stamped e T ?m p"
    using valid by (intro stamped_write_fields stamped_prepared)
  ultimately show ?thesis
    using valid assms(3)
    by (simp add: sealed_packet_bytes read_write_fields read_prepared_payload)
qed

theorem fill_message_bytes_witness:
  "read_bytes (snd (fill_message Little PingMsg dirty 64 20 [(0, [7]), (2, [8])] False)) 64 20 =
    [0x53, 0x49, 0x4E, 0x57, 1, 0, 1, 0, 0, 0, 0, 0, 4, 0, 0, 0, 7, 0, 8, 0]"
proof -
  have "fields_inside (mt_sizeof PingMsg) [(0, [7]), (2, [8])]"
    by (simp add: fields_inside_def)
  from fill_message_bytes [OF fits_Ping _ this, of 20 Little dirty False]
  show ?thesis
    by (simp add: packet_bytes_def apply_fields_def obj_of_word_def bytes_le_2 bytes_le_4
        SINEW_MAGIC_def)
qed

text \<open>
  Type safety of views: if one buffer can be viewed as two message types, the types agree in
  identifier, version and size, and both views are the same address. A packet is never viewed as
  a type with another identifier.
\<close>


theorem view_type_safe:
  assumes "view e T m p sz c \<noteq> nullptr" "view e U m p sz' c' \<noteq> nullptr"
  shows "mt_id T = mt_id U \<and> mt_version T = mt_version U \<and> mt_sizeof T = mt_sizeof U
    \<and> view e T m p sz c = view e U m p sz' c'"
  using assms by (auto simp: view_eq_nullptr validate_Ok_iff)

theorem view_type_safe_witness:
  "view Little StatusMsg (snd (write_message Little PingMsg dirty 64 20 [1, 2, 3, 4] True)) 64 20 True
     = nullptr"
proof (rule ccontr)
  let ?m = "snd (write_message Little PingMsg dirty 64 20 [1, 2, 3, 4] True)"
  assume "view Little StatusMsg ?m 64 20 True \<noteq> nullptr"
  moreover have "view Little PingMsg ?m 64 20 False \<noteq> nullptr"
    using wire.look_packet [of PingMsg 64 "[1, 2, 3, 4]" Little False True dirty]
    by (simp add: view_slot_look write_message_eq nullptr_def)
  ultimately have "mt_id StatusMsg = mt_id PingMsg" by (blast dest: view_type_safe)
  then show False by simp
qed

lemma validate_sealed_payload:
  assumes "fits T p" "stamped e T m p" "load_u32 e m (p + 8) = k" "k \<noteq> 0"
    and "length w = mt_sizeof T" "crc32_of w \<noteq> k" "message_size T \<le> sz"
  shows "validate e T (write_bytes m (p + 16) w) p sz True = ChecksumMismatch"
proof -
  let ?m = "write_bytes m (p + 16) w"
  have "stamped e T ?m p" using stamped_assign [OF assms(2)] by (simp add: assign_object_def)
  moreover have "load_u32 e ?m (p + 8) = k" using assms(3) by (simp add: mem_simps)
  moreover have "crc32 ?m (p + 16) (mt_sizeof T) 0xFFFFFFFF = crc32_of w"
    using assms(5) by (simp add: crc32_default)
  ultimately show ?thesis
    using assms by (auto simp: validate_def stamped_def fits_def message_size_eq sizeof_Header_def
        mod_eq_0_iff_dvd)
qed

text \<open>
  C9. Corruption is detected: if a packet was finalised with a checksum other than 0 and any run of
  up to four consecutive payload bytes is then altered, \<open>validate\<close> with \<open>verify_crc\<close> reports
  \<open>ChecksumMismatch\<close>.
\<close>

theorem burst_corruption_detected:
  assumes "fits T p" "message_size T \<le> cap" "length (xs @ good @ ys) = mt_sizeof T"
    and "length bad = length good" "length good \<le> 4" "bad \<noteq> good"
    and crc: "crc32_of (xs @ good @ ys) \<noteq> 0"
    and wr: "write_message e T m p cap (xs @ good @ ys) True = (n, m')"
  shows "validate e T (write_bytes m' (p + 16 + length xs) bad) p n True = ChecksumMismatch"
proof -
  let ?v = "xs @ good @ ys" and ?w = "xs @ bad @ ys"
  let ?m = "write_bytes (prepared e T m p) (p + 16) ?v"
  have n: "n = message_size T" and m': "m' = slot_seal e T True ?m p"
    using wr assms(1,2) by (simp_all add: write_message_eq)
  have valid: "is_valid_message T" using assms(1) by (simp add: fits_def)
  have st: "stamped e T ?m p"
    using stamped_assign [OF stamped_prepared [OF valid]] by (simp add: assign_object_def)
  have payload: "read_bytes m' (p + 16) (mt_sizeof T) = ?v"
    using assms(3) by (simp add: m' slot_seal_def read_finalize_payload)
  have "write_bytes m' (p + 16 + length xs) bad = write_bytes m' (p + 16) ?w"
  proof
    fix x
    have "m' x = ?v ! (x - (p + 16))" if "p + 16 \<le> x" "x < p + 16 + mt_sizeof T"
      using arg_cong [OF payload, of "\<lambda>bs. bs ! (x - (p + 16))"] that by simp
    then show "write_bytes m' (p + 16 + length xs) bad x = write_bytes m' (p + 16) ?w x"
      using assms(3,4) by (auto simp: write_bytes_def nth_append)
  qed
  moreover have "validate e T (write_bytes m' (p + 16) ?w) p n True = ChecksumMismatch"
  proof (rule validate_sealed_payload [where k = "crc32_of ?v"])
    show "stamped e T m' p" using st by (simp add: m' slot_seal_def stamped_finalize)
    show "load_u32 e m' (p + 8) = crc32_of ?v"
      using assms(3) by (simp add: m' slot_seal_def finalize_eq payload_crc_def)
    show "crc32_of ?w \<noteq> crc32_of ?v"
      using crc32_burst [OF assms(4-6)] .
  qed (use assms n in simp_all)
  ultimately show ?thesis by simp
qed

theorem burst_corruption_detected_witness:
  "case write_message Little PingMsg dirty 64 20 [1, 2, 3, 4] True of (n, m') \<Rightarrow>
     validate Little PingMsg (write_bytes m' 81 [0xFF, 0xFE]) 64 n True = ChecksumMismatch"
proof -
  have crc: "crc32_of [1, 2, 3, 4] \<noteq> 0" by (simp add: crc32_eval)
  obtain n m' where w: "write_message Little PingMsg dirty 64 20 [1, 2, 3, 4] True = (n, m')"
    by (meson surj_pair)
  from burst_corruption_detected [of PingMsg 64 20 "[1]" "[2, 3]" "[4]" "[0xFF, 0xFE]" Little dirty n m']
    crc w
  show ?thesis by simp
qed

text \<open>
  A payload whose CRC-32 happens to be 0 is written with the value that means "no checksum":
  whatever replaces its bytes afterwards, \<open>validate\<close> with \<open>verify_crc\<close> accepts the packet.
\<close>

theorem zero_crc_unprotected:
  assumes "fits T p" "message_size T \<le> cap" "length v = mt_sizeof T" "crc32_of v = 0"
    and wr: "write_message e T m p cap v True = (n, m')" and "length w = mt_sizeof T"
  shows "validate e T (write_bytes m' (p + 16) w) p n True = Ok"
proof -
  let ?m = "write_bytes (prepared e T m p) (p + 16) v"
  have n: "n = message_size T" and m': "m' = slot_seal e T True ?m p"
    using wr assms(1,2) by (simp_all add: write_message_eq)
  have "is_valid_message T" using assms(1) by (simp add: fits_def)
  then have "stamped e T m' p"
    by (simp add: m' slot_seal_def stamped_finalize stamped_write stamped_prepared)
  moreover have "load_u32 e m' (p + 8) = 0"
    using assms(3,4) by (simp add: m' slot_seal_def finalize_eq payload_crc_def)
  ultimately show ?thesis
    using assms(1) by (simp add: n validate_stamped stamped_write mem_simps)
qed

theorem zero_crc_unprotected_witness:
  "case write_message Little PingMsg dirty 64 20 [0x9D, 0x0A, 0xD9, 0x6D] True of (n, m') \<Rightarrow>
     validate Little PingMsg (write_bytes m' 80 [0, 0, 0, 0]) 64 n True = Ok"
proof -
  have crc: "crc32_of [0x9D, 0x0A, 0xD9, 0x6D] = 0" by (simp add: crc32_eval)
  obtain n m' where
    w: "write_message Little PingMsg dirty 64 20 [0x9D, 0x0A, 0xD9, 0x6D] True = (n, m')"
    by (meson surj_pair)
  from zero_crc_unprotected [of PingMsg 64 20 "[0x9D, 0x0A, 0xD9, 0x6D]" Little dirty n m' "[0, 0, 0, 0]"]
    crc w
  show ?thesis by simp
qed

text \<open>
  Identifiers generated from names are not unique: two messages of the same layout declared
  with \<open>SINEW_MESSAGE\<close> under the names \<open>LeftJointData\<close> and \<open>RightArmCommand\<close> accept each other's
  packets in every buffer.
\<close>

theorem generated_ids_collide:
  "view e (sinew_message ''RightArmCommand'' sz al ctor) m p n c =
   view e (sinew_message ''LeftJointData'' sz al ctor) m p n c"
  by (simp add: view_def validate_def Let_def message_macros fnv1a16_collision)

text \<open>
  A message declared with \<open>SINEW_MESSAGE\<close> never has the identifier 0 of an unregistered type: no
  buffer can be viewed both as a declared message and as a type that was never registered.
\<close>

theorem declared_never_unregistered:
  "view e (sinew_message name sz al ctor) m p n c = nullptr
   \<or> view e (unregistered sz' al' ctor') m p n' c' = nullptr"
  by (auto simp: view_eq_nullptr validate_Ok_iff message_macros unregistered_def fnv1a16_nonzero)

text \<open>
  The first four bytes of a packet written by a little-endian host spell \<open>SINW\<close>, not the
  \<open>SNEW\<close> that the comment on the constant announces.
\<close>

theorem magic_on_the_wire:
  "obj_of_word Little 4 SINEW_MAGIC = map of_char ''SINW''
   \<and> obj_of_word Little 4 SINEW_MAGIC \<noteq> map of_char ''SNEW''"
  by (simp add: obj_of_word_def bytes_le_4 SINEW_MAGIC_def)


end
