(* ===== verification/Shm.thy ===== *)
theory Shm
  imports Crc32
begin

text \<open>
  Model of \<open>include/sinew/shm.hpp\<close> on POSIX: the normalisation of segment names and the lifetime of
  \<open>SharedMemoryRegion\<close>. The system calls are not part of the repository: they are a parameter,
  the record \<open>posix\<close> of functions on a state \<open>'os\<close> of the operating system; \<open>posix_ok\<close> collects
  what their specification promises. The destructor of a local object is a call of \<open>close\<close> at
  the end of its scope.
\<close>

section \<open>Segment names\<close>

definition hex_digit :: "nat \<Rightarrow> char" where
  "hex_digit d = ''0123456789abcdef'' ! d"

text \<open>\<open>snprintf(hex, 9, "%08x", hash)\<close>.\<close>

definition hex8 :: "u32 \<Rightarrow> string" where
  "hex8 h = map (\<lambda>i. hex_digit (unat (drop_bit (28 - 4 * i) h AND 15))) [0..<8]"

definition chars_of :: "string \<Rightarrow> bytes" where
  "chars_of s = map of_char s"

definition normalize_posix_shm_name :: "string \<Rightarrow> string" where
  "normalize_posix_shm_name name =
     (let s = (if name = [] \<or> name ! 0 \<noteq> CHR ''/'' then ''/'' @ name else name) in
      if length s > 31 then
        let hash = crc32_of (chars_of s); hex = hex8 hash
        in take 22 s @ ''_'' @ hex
      else s)"

section \<open>The operating system\<close>

datatype open_flag = O_CREAT | O_EXCL | O_RDWR | O_TRUNC

text \<open>
  \<open>shm_open\<close> and \<open>ftruncate\<close> return their \<open>int\<close> result; \<open>fstat\<close> the size of the segment, \<open>None\<close> for
  an error; \<open>mmap\<close> the address, \<open>None\<close> for \<open>MAP_FAILED\<close>.
\<close>

record 'os posix =
  px_shm_open :: "string \<Rightarrow> open_flag list \<Rightarrow> 'os \<Rightarrow> int \<times> 'os"
  px_ftruncate :: "int \<Rightarrow> int \<Rightarrow> 'os \<Rightarrow> int \<times> 'os"
  px_fstat :: "int \<Rightarrow> 'os \<Rightarrow> int option"
  px_mmap :: "u64 \<Rightarrow> int \<Rightarrow> 'os \<Rightarrow> ptr option \<times> 'os"
  px_munmap :: "ptr \<Rightarrow> u64 \<Rightarrow> 'os \<Rightarrow> 'os"
  px_close :: "int \<Rightarrow> 'os \<Rightarrow> 'os"
  px_unlink :: "string \<Rightarrow> 'os \<Rightarrow> 'os"

section \<open>SharedMemoryRegion\<close>

record region =
  rg_name :: string
  rg_data :: ptr
  rg_size :: u64
  rg_creator :: bool
  rg_fd :: int

definition region_default :: region where
  "region_default = \<lparr>rg_name = [], rg_data = nullptr, rg_size = 0, rg_creator = False, rg_fd = -1\<rparr>"

definition region_is_valid :: "region \<Rightarrow> bool" where
  "region_is_valid r \<longleftrightarrow> rg_data r \<noteq> nullptr"

definition region_close :: "'os posix \<Rightarrow> region \<Rightarrow> 'os \<Rightarrow> region \<times> 'os" where
  "region_close sys r os =
     (let (r, os) =
            (if rg_data r \<noteq> nullptr
             then (r\<lparr>rg_data := nullptr\<rparr>, px_munmap sys (rg_data r) (rg_size r) os) else (r, os));
          (r, os) =
            (if 0 \<le> rg_fd r then (r\<lparr>rg_fd := -1\<rparr>, px_close sys (rg_fd r) os) else (r, os));
          os = (if rg_creator r \<and> rg_name r \<noteq> []
                then px_unlink sys (normalize_posix_shm_name (rg_name r)) os else os)
      in (r\<lparr>rg_size := 0, rg_creator := False\<rparr>, os))"

text \<open>The destructor.\<close>

definition region_destroy :: "'os posix \<Rightarrow> region \<Rightarrow> 'os \<Rightarrow> 'os" where
  "region_destroy sys r os = snd (region_close sys r os)"

text \<open>
  Moving: the new object, and the moved-from one, whose string keeps an unspecified content.
\<close>

definition region_move :: "string \<Rightarrow> region \<Rightarrow> region \<times> region" where
  "region_move leftover other =
     (other, other\<lparr>rg_name := leftover, rg_data := nullptr, rg_size := 0, rg_creator := False,
                   rg_fd := -1\<rparr>)"

text \<open>Assignment from another object; \<open>a = std::move(a)\<close> does nothing.\<close>

definition region_move_assign ::
  "'os posix \<Rightarrow> string \<Rightarrow> region \<Rightarrow> region \<Rightarrow> 'os \<Rightarrow> (region \<times> region) \<times> 'os" where
  "region_move_assign sys leftover this other os =
     (let (this, os) = region_close sys this os in (region_move leftover other, os))"

definition region_local :: "string \<Rightarrow> u64 \<Rightarrow> bool \<Rightarrow> region" where
  "region_local name sz creator = region_default\<lparr>rg_name := name, rg_size := sz, rg_creator := creator\<rparr>"

definition region_create :: "'os posix \<Rightarrow> string \<Rightarrow> u64 \<Rightarrow> 'os \<Rightarrow> region \<times> 'os" where
  "region_create sys name sz os =
     (let region = region_local name sz True;
          posix_name = normalize_posix_shm_name (rg_name region);
          (fd, os) = px_shm_open sys posix_name [O_CREAT, O_RDWR, O_TRUNC] os in
      if fd < 0 then (region_default, region_destroy sys region os)
      else
        let (rc, os) = px_ftruncate sys fd (sint sz) os in
        if rc \<noteq> 0 then
          let os = px_close sys fd os; os = px_unlink sys posix_name os
          in (region_default, region_destroy sys region os)
        else case px_mmap sys sz fd os of
            (None, os) \<Rightarrow>
              let os = px_close sys fd os; os = px_unlink sys posix_name os
              in (region_default, region_destroy sys region os)
          | (Some p, os) \<Rightarrow> (region\<lparr>rg_fd := fd, rg_data := p\<rparr>, os))"

definition region_create_exclusive :: "'os posix \<Rightarrow> string \<Rightarrow> u64 \<Rightarrow> 'os \<Rightarrow> region \<times> 'os" where
  "region_create_exclusive sys name sz os =
     (let region = region_local name sz True;
          posix_name = normalize_posix_shm_name (rg_name region);
          (fd, os) = px_shm_open sys posix_name [O_CREAT, O_EXCL, O_RDWR] os in
      if fd < 0 then (region_default, region_destroy sys region os)
      else
        let (rc, os) = px_ftruncate sys fd (sint sz) os in
        if rc \<noteq> 0 then
          let os = px_close sys fd os; os = px_unlink sys posix_name os
          in (region_default, region_destroy sys region os)
        else case px_mmap sys sz fd os of
            (None, os) \<Rightarrow>
              let os = px_close sys fd os; os = px_unlink sys posix_name os
              in (region_default, region_destroy sys region os)
          | (Some p, os) \<Rightarrow> (region\<lparr>rg_fd := fd, rg_data := p\<rparr>, os))"

definition region_open :: "'os posix \<Rightarrow> string \<Rightarrow> u64 \<Rightarrow> 'os \<Rightarrow> region \<times> 'os" where
  "region_open sys name sz os =
     (let region = region_local name sz False;
          posix_name = normalize_posix_shm_name (rg_name region);
          (fd, os) = px_shm_open sys posix_name [O_RDWR] os in
      if fd < 0 then (region_default, region_destroy sys region os)
      else
        if (case px_fstat sys fd os of None \<Rightarrow> True | Some st_size \<Rightarrow> st_size < sint sz)
        then (region_default, region_destroy sys region (px_close sys fd os))
        else case px_mmap sys sz fd os of
            (None, os) \<Rightarrow> (region_default, region_destroy sys region (px_close sys fd os))
          | (Some p, os) \<Rightarrow> (region\<lparr>rg_fd := fd, rg_data := p\<rparr>, os))"

section \<open>What the system calls promise\<close>

text \<open>
  The resources of a process as three sets: open descriptors, mappings, and the names of existing
  segments. \<open>posix_ok\<close> states how each call changes them.
\<close>

record 'os resources =
  fds :: "'os \<Rightarrow> int set"
  maps :: "'os \<Rightarrow> (ptr \<times> u64) set"
  names :: "'os \<Rightarrow> string set"

definition same_resources :: "'os resources \<Rightarrow> 'os \<Rightarrow> 'os \<Rightarrow> bool" where
  "same_resources R os os' \<longleftrightarrow> fds R os' = fds R os \<and> maps R os' = maps R os \<and> names R os' = names R os"

definition open_ok :: "'os posix \<Rightarrow> 'os resources \<Rightarrow> bool" where
  "open_ok sys R \<longleftrightarrow> (\<forall>name flags os fd os'. px_shm_open sys name flags os = (fd, os') \<longrightarrow>
     (if fd < 0 then same_resources R os os'
      else fd \<notin> fds R os \<and> fds R os' = insert fd (fds R os) \<and> maps R os' = maps R os
        \<and> names R os' = (if O_CREAT \<in> set flags then insert name (names R os) else names R os)
        \<and> (O_CREAT \<notin> set flags \<longrightarrow> name \<in> names R os)
        \<and> (O_CREAT \<in> set flags \<and> O_EXCL \<in> set flags \<longrightarrow> name \<notin> names R os)))"

definition map_ok :: "'os posix \<Rightarrow> 'os resources \<Rightarrow> bool" where
  "map_ok sys R \<longleftrightarrow>
     (\<forall>fd n os. same_resources R os (snd (px_ftruncate sys fd n os)))
     \<and> (\<forall>sz fd os os'. px_mmap sys sz fd os = (None, os') \<longrightarrow> same_resources R os os')
     \<and> (\<forall>sz fd os p os'. px_mmap sys sz fd os = (Some p, os') \<longrightarrow>
          p \<noteq> nullptr \<and> (p, sz) \<notin> maps R os \<and> maps R os' = insert (p, sz) (maps R os)
          \<and> fds R os' = fds R os \<and> names R os' = names R os)"

definition release_ok :: "'os posix \<Rightarrow> 'os resources \<Rightarrow> bool" where
  "release_ok sys R \<longleftrightarrow>
     (\<forall>p sz os. maps R (px_munmap sys p sz os) = maps R os - {(p, sz)}
        \<and> fds R (px_munmap sys p sz os) = fds R os \<and> names R (px_munmap sys p sz os) = names R os)
     \<and> (\<forall>fd os. fds R (px_close sys fd os) = fds R os - {fd}
        \<and> maps R (px_close sys fd os) = maps R os \<and> names R (px_close sys fd os) = names R os)
     \<and> (\<forall>name os. names R (px_unlink sys name os) = names R os - {name}
        \<and> fds R (px_unlink sys name os) = fds R os \<and> maps R (px_unlink sys name os) = maps R os)"

definition posix_ok :: "'os posix \<Rightarrow> 'os resources \<Rightarrow> bool" where
  "posix_ok sys R \<longleftrightarrow> open_ok sys R \<and> map_ok sys R \<and> release_ok sys R"

section \<open>Lemmas\<close>

lemma length_hex8 [simp]: "length (hex8 h) = 8"
  by (simp add: hex8_def)

lemma normalize_cases:
  obtains "normalize_posix_shm_name name = name" "length name \<le> 31" "name \<noteq> []" "name ! 0 = CHR ''/''"
  | "normalize_posix_shm_name name = ''/'' @ name" "length name \<le> 30" "name = [] \<or> name ! 0 \<noteq> CHR ''/''"
  | s where "normalize_posix_shm_name name = take 22 s @ ''_'' @ hex8 (crc32_of (chars_of s))"
      "31 < length s" "s ! 0 = CHR ''/''"
proof -
  let ?s = "if name = [] \<or> name ! 0 \<noteq> CHR ''/'' then ''/'' @ name else name"
  show thesis
  proof (cases "31 < length ?s")
    case True
    then show thesis by (intro that(3) [of ?s]) (auto simp: normalize_posix_shm_name_def Let_def)
  next
    case False
    then show thesis
      by (cases "name = [] \<or> name ! 0 \<noteq> CHR ''/''") 
        (auto simp: normalize_posix_shm_name_def Let_def intro: that(1,2))
  qed
qed

lemma normalize_form:
  "hd (normalize_posix_shm_name name) = CHR ''/''" "normalize_posix_shm_name name \<noteq> []"
  "length (normalize_posix_shm_name name) \<le> 31"
  by (cases rule: normalize_cases [of name]; auto simp: hd_conv_nth nth_append)+

text \<open>What the calls change, one rule per call.\<close>

lemma px_open_fail:
  "posix_ok sys R \<Longrightarrow> px_shm_open sys n fl os = (fd, os') \<Longrightarrow> fd < 0 \<Longrightarrow> same_resources R os os'"
  unfolding posix_ok_def open_ok_def by metis

lemma px_open_success:
  assumes "posix_ok sys R" "px_shm_open sys n fl os = (fd, os')" "\<not> fd < 0"
  shows "fd \<notin> fds R os" "fds R os' = insert fd (fds R os)" "maps R os' = maps R os"
  using assms unfolding posix_ok_def open_ok_def by metis+

lemma px_open_exclusive:
  assumes "posix_ok sys R" "px_shm_open sys n fl os = (fd, os')" "O_CREAT \<in> set fl" "O_EXCL \<in> set fl"
    "n \<in> names R os"
  shows "fd < 0"
  using assms unfolding posix_ok_def open_ok_def by metis

lemma px_ftruncate_same: "posix_ok sys R \<Longrightarrow> px_ftruncate sys fd n os = (rc, os') \<Longrightarrow> same_resources R os os'"
  unfolding posix_ok_def map_ok_def by (metis snd_conv)

lemma px_mmap_None: "posix_ok sys R \<Longrightarrow> px_mmap sys sz fd os = (None, os') \<Longrightarrow> same_resources R os os'"
  unfolding posix_ok_def map_ok_def by metis

lemma px_mmap_Some:
  assumes "posix_ok sys R" "px_mmap sys sz fd os = (Some p, os')"
  shows "p \<noteq> nullptr" "(p, sz) \<notin> maps R os" "maps R os' = insert (p, sz) (maps R os)" "fds R os' = fds R os"
  using assms unfolding posix_ok_def map_ok_def by metis+

lemma px_release:
  assumes "posix_ok sys R"
  shows "maps R (px_munmap sys p sz os) = maps R os - {(p, sz)}" "fds R (px_munmap sys p sz os) = fds R os"
    "names R (px_munmap sys p sz os) = names R os"
    "fds R (px_close sys fd os) = fds R os - {fd}" "maps R (px_close sys fd os) = maps R os"
    "names R (px_close sys fd os) = names R os"
    "names R (px_unlink sys n os) = names R os - {n}" "fds R (px_unlink sys n os) = fds R os"
    "maps R (px_unlink sys n os) = maps R os"
  using assms unfolding posix_ok_def release_ok_def by simp_all

text \<open>The effect of \<open>close\<close> on the resources, and on the object.\<close>

lemma region_close_fst:
  "fst (region_close sys r os) = \<lparr>rg_name = rg_name r, rg_data = nullptr, rg_size = 0,
     rg_creator = False, rg_fd = (if 0 \<le> rg_fd r then -1 else rg_fd r)\<rparr>"
  by (simp add: region_close_def Let_def)

lemma region_close_resources:
  assumes "posix_ok sys R"
  shows "fds R (snd (region_close sys r os)) = fds R os - (if 0 \<le> rg_fd r then {rg_fd r} else {})"
    "maps R (snd (region_close sys r os)) =
       maps R os - (if rg_data r \<noteq> nullptr then {(rg_data r, rg_size r)} else {})"
    "names R (snd (region_close sys r os)) =
       names R os - (if rg_creator r \<and> rg_name r \<noteq> [] then {normalize_posix_shm_name (rg_name r)} else {})"
  by (simp_all add: region_close_def Let_def px_release [OF assms])

lemma region_local_sel [simp]:
  "rg_name (region_local n sz c) = n" "rg_data (region_local n sz c) = nullptr"
  "rg_size (region_local n sz c) = sz" "rg_creator (region_local n sz c) = c" "rg_fd (region_local n sz c) = -1"
  by (simp_all add: region_local_def region_default_def)

lemma region_default_sel [simp]:
  "rg_name region_default = []" "rg_data region_default = nullptr" "rg_size region_default = 0"
  "rg_creator region_default = False" "rg_fd region_default = -1"
  by (simp_all add: region_default_def)

text \<open>
  A function that returns a region keeps the books: a region that is not valid holds no resource,
  a valid one holds one descriptor and one mapping that were not there before.
\<close>

definition keeps_books :: "'os resources \<Rightarrow> 'os \<Rightarrow> region \<times> 'os \<Rightarrow> bool" where
  "keeps_books R os res = (case res of (r, os') \<Rightarrow>
     if rg_data r = nullptr
     then rg_fd r = -1 \<and> fds R os' = fds R os \<and> maps R os' = maps R os
     else 0 \<le> rg_fd r \<and> rg_fd r \<notin> fds R os \<and> fds R os' = insert (rg_fd r) (fds R os)
       \<and> (rg_data r, rg_size r) \<notin> maps R os \<and> maps R os' = insert (rg_data r, rg_size r) (maps R os))"

lemma keeps_books_default:
  assumes "posix_ok sys R" "fds R os1 = fds R os" "maps R os1 = maps R os"
  shows "keeps_books R os (region_default, region_destroy sys (region_local n sz c) os1)"
  using assms(2,3)
  by (simp add: keeps_books_def region_destroy_def region_close_resources [OF assms(1)])

lemma keeps_books_mapped:
  assumes ok: "posix_ok sys R" and fd: "px_shm_open sys n fl os = (fd, os1)" "\<not> fd < 0"
    and same: "same_resources R os1 os2" and map: "px_mmap sys sz fd os2 = (Some p, os3)"
  shows "keeps_books R os ((region_local name sz c)\<lparr>rg_fd := fd, rg_data := p\<rparr>, os3)"
  using px_open_success [OF ok fd] px_mmap_Some [OF ok map] same fd(2)
  by (simp add: keeps_books_def same_resources_def)

lemma fd_closed:
  assumes ok: "posix_ok sys R" and fd: "px_shm_open sys n fl os = (fd, os1)" "\<not> fd < 0"
    and same: "same_resources R os1 os2"
  shows "fds R (px_close sys fd os2) = fds R os" "maps R (px_close sys fd os2) = maps R os"
  using px_open_success [OF ok fd] same by (auto simp: same_resources_def px_release [OF ok])

text \<open>The part after \<open>shm_open\<close> that the two creating functions share, and that of \<open>open\<close>.\<close>

definition map_new :: "'os posix \<Rightarrow> string \<Rightarrow> u64 \<Rightarrow> int \<Rightarrow> 'os \<Rightarrow> region \<times> 'os" where
  "map_new sys name sz fd os =
     (let region = region_local name sz True; posix_name = normalize_posix_shm_name name;
          undo = (\<lambda>os. (region_default, region_destroy sys region
            (px_unlink sys posix_name (px_close sys fd os))));
          (rc, os) = px_ftruncate sys fd (sint sz) os
      in if rc \<noteq> 0 then undo os
         else case px_mmap sys sz fd os of
             (None, os) \<Rightarrow> undo os
           | (Some p, os) \<Rightarrow> (region\<lparr>rg_fd := fd, rg_data := p\<rparr>, os))"

definition map_existing :: "'os posix \<Rightarrow> string \<Rightarrow> u64 \<Rightarrow> int \<Rightarrow> 'os \<Rightarrow> region \<times> 'os" where
  "map_existing sys name sz fd os =
     (let region = region_local name sz False;
          undo = (\<lambda>os. (region_default, region_destroy sys region (px_close sys fd os)))
      in if (case px_fstat sys fd os of None \<Rightarrow> True | Some st_size \<Rightarrow> st_size < sint sz) then undo os
         else case px_mmap sys sz fd os of
             (None, os) \<Rightarrow> undo os
           | (Some p, os) \<Rightarrow> (region\<lparr>rg_fd := fd, rg_data := p\<rparr>, os))"

lemma region_create_eq:
  "region_create sys name sz os =
     (case px_shm_open sys (normalize_posix_shm_name name) [O_CREAT, O_RDWR, O_TRUNC] os of (fd, os) \<Rightarrow>
        if fd < 0 then (region_default, region_destroy sys (region_local name sz True) os)
        else map_new sys name sz fd os)"
  "region_create_exclusive sys name sz os =
     (case px_shm_open sys (normalize_posix_shm_name name) [O_CREAT, O_EXCL, O_RDWR] os of (fd, os) \<Rightarrow>
        if fd < 0 then (region_default, region_destroy sys (region_local name sz True) os)
        else map_new sys name sz fd os)"
  "region_open sys name sz os =
     (case px_shm_open sys (normalize_posix_shm_name name) [O_RDWR] os of (fd, os) \<Rightarrow>
        if fd < 0 then (region_default, region_destroy sys (region_local name sz False) os)
        else map_existing sys name sz fd os)"
  unfolding region_create_def region_create_exclusive_def region_open_def map_new_def
    map_existing_def Let_def region_local_sel by (rule refl)+

lemma map_new_books:
  assumes ok: "posix_ok sys R" and fd: "px_shm_open sys n fl os = (fd, os1)" "\<not> fd < 0"
  shows "keeps_books R os (map_new sys name sz fd os1)"
proof -
  obtain rc os2 where trunc: "px_ftruncate sys fd (sint sz) os1 = (rc, os2)" by force
  note same = px_ftruncate_same [OF ok trunc]
  obtain q os3 where map: "px_mmap sys sz fd os2 = (q, os3)" by force
  have undo: "keeps_books R os (region_default, region_destroy sys (region_local name sz True)
      (px_unlink sys pn (px_close sys fd os')))" if "same_resources R os1 os'" for os' pn
    using fd_closed [OF ok fd that] by (intro keeps_books_default [OF ok]) (simp_all add: px_release [OF ok])
  show ?thesis
  proof (cases q)
    case None
    then have "same_resources R os1 os3"
      using px_mmap_None [OF ok] map same by (auto simp: same_resources_def)
    with None undo same show ?thesis by (simp add: map_new_def trunc map Let_def)
  next
    case (Some p)
    with keeps_books_mapped [OF ok fd same] undo same map show ?thesis
      by (simp add: map_new_def trunc Let_def)
  qed
qed

lemma map_existing_books:
  assumes ok: "posix_ok sys R" and fd: "px_shm_open sys n fl os = (fd, os1)" "\<not> fd < 0"
  shows "keeps_books R os (map_existing sys name sz fd os1)"
proof -
  have self: "same_resources R os1 os1" by (simp add: same_resources_def)
  obtain q os3 where map: "px_mmap sys sz fd os1 = (q, os3)" by force
  have undo: "keeps_books R os (region_default, region_destroy sys (region_local name sz False)
      (px_close sys fd os'))" if "same_resources R os1 os'" for os'
    using fd_closed [OF ok fd that] by (intro keeps_books_default [OF ok]) simp_all
  show ?thesis
  proof (cases q)
    case None
    then have "same_resources R os1 os3" using px_mmap_None [OF ok] map by simp
    with None undo self show ?thesis by (simp add: map_existing_def map Let_def)
  next
    case (Some p)
    with keeps_books_mapped [OF ok fd self] undo self map show ?thesis
      by (simp add: map_existing_def Let_def)
  qed
qed

lemma region_books:
  assumes ok: "posix_ok sys R"
  shows "keeps_books R os (region_create sys name sz os)"
    and "keeps_books R os (region_create_exclusive sys name sz os)"
    and "keeps_books R os (region_open sys name sz os)"
  unfolding region_create_eq using px_open_fail [OF ok]
  by (auto split: prod.split simp: same_resources_def
      intro!: keeps_books_default [OF ok] map_new_books [OF ok] map_existing_books [OF ok])

lemma books_closed:
  assumes ok: "posix_ok sys R" and "keeps_books R os (r, os1)"
  shows "fds R (snd (region_close sys r os1)) = fds R os" "maps R (snd (region_close sys r os1)) = maps R os"
  using assms(2) by (auto simp: keeps_books_def region_close_resources [OF ok] split: if_splits)

section \<open>An operating system to compute with\<close>

text \<open>Descriptors and page-aligned addresses are handed out above all that are in use.\<close>

record demo_os =
  d_fds :: "nat list"
  d_maps :: "(nat \<times> u64) list"
  d_names :: "string list"

definition demo_posix :: "demo_os posix" where
  "demo_posix =
     \<lparr>px_shm_open = (\<lambda>name flags os.
        let fd = Suc (sum_list (d_fds os)); existing = name \<in> set (d_names os) in
        if O_CREAT \<in> set flags
        then if O_EXCL \<in> set flags \<and> existing then (-1, os)
          else (int fd, os\<lparr>d_fds := fd # d_fds os, d_names := name # d_names os\<rparr>)
        else if existing then (int fd, os\<lparr>d_fds := fd # d_fds os\<rparr>) else (-1, os)),
      px_ftruncate = (\<lambda>fd n os. (0, os)),
      px_fstat = (\<lambda>fd os. Some 1048576),
      px_mmap = (\<lambda>sz fd os. let p = 4096 * Suc (sum_list (map fst (d_maps os)))
        in (Some p, os\<lparr>d_maps := (p, sz) # d_maps os\<rparr>)),
      px_munmap = (\<lambda>p sz os. os\<lparr>d_maps := removeAll (p, sz) (d_maps os)\<rparr>),
      px_close = (\<lambda>fd os. os\<lparr>d_fds := filter (\<lambda>n. int n \<noteq> fd) (d_fds os)\<rparr>),
      px_unlink = (\<lambda>name os. os\<lparr>d_names := removeAll name (d_names os)\<rparr>)\<rparr>"

definition demo_resources :: "demo_os resources" where
  "demo_resources = \<lparr>fds = (\<lambda>os. int ` set (d_fds os)), maps = (\<lambda>os. set (d_maps os)),
     names = (\<lambda>os. set (d_names os))\<rparr>"

lemma fresh_number: "Suc (sum_list xs) \<notin> set xs" for xs :: "nat list"
  using member_le_sum_list [of "Suc (sum_list xs)" xs] by auto

lemma fresh_descriptor: "1 + int (sum_list xs) = int x \<Longrightarrow> x \<notin> set xs"
  using fresh_number [of xs] by (metis of_nat_1 of_nat_add of_nat_eq_iff plus_1_eq_Suc)

lemma fresh_address: "(4096 * Suc (sum_list (map fst ms)), sz) \<notin> set ms" for ms :: "(nat \<times> 'a) list"
proof
  assume "(4096 * Suc (sum_list (map fst ms)), sz) \<in> set ms"
  then have "4096 * Suc (sum_list (map fst ms)) \<in> set (map fst ms)" by force
  then show False using member_le_sum_list by fastforce
qed

lemma demo_posix_ok: "posix_ok demo_posix demo_resources"
proof -
  have "open_ok demo_posix demo_resources"
    by (auto dest: fresh_descriptor simp: open_ok_def demo_posix_def demo_resources_def same_resources_def Let_def)
  moreover have "map_ok demo_posix demo_resources"
    by (auto simp: fresh_address [simplified] map_ok_def demo_posix_def demo_resources_def same_resources_def Let_def nullptr_def)
  moreover have "release_ok demo_posix demo_resources"
    by (auto simp: release_ok_def demo_posix_def demo_resources_def)
  ultimately show ?thesis by (simp add: posix_ok_def)
qed

section \<open>Properties of the shared memory region\<close>

text \<open>
  C35. Whatever the name, the name passed to the operating system is not empty, starts with a slash,
  has at most 31 characters, and is left as it is by a second normalisation.
\<close>

theorem posix_name_normal:
  "hd (normalize_posix_shm_name name) = CHR ''/'' \<and> normalize_posix_shm_name name \<noteq> []
   \<and> length (normalize_posix_shm_name name) \<le> 31
   \<and> normalize_posix_shm_name (normalize_posix_shm_name name) = normalize_posix_shm_name name"
proof -
  let ?n = "normalize_posix_shm_name name"
  have "normalize_posix_shm_name ?n = ?n"
    using normalize_form [of name]
    by (subst normalize_posix_shm_name_def) (simp add: hd_conv_nth)
  with normalize_form [of name] show ?thesis by simp
qed

text \<open>
  C25. No leak: every way to obtain a region either fails and leaves descriptors and mappings as
  they were, or gives a region whose \<open>close\<close> restores them; after \<open>close\<close> the region is invalid and
  a second \<open>close\<close> does nothing.
\<close>

theorem region_resources:
  assumes "posix_ok sys R"
    and "attach \<in> {region_create sys, region_create_exclusive sys, region_open sys}"
    and "attach name sz os = (r, os1)" "region_close sys r os1 = (r', os2)"
  shows "(region_is_valid r \<or> fds R os1 = fds R os \<and> maps R os1 = maps R os)
    \<and> fds R os2 = fds R os \<and> maps R os2 = maps R os
    \<and> \<not> region_is_valid r' \<and> region_close sys r' os2 = (r', os2)"
proof -
  have books: "keeps_books R os (r, os1)"
    using region_books [OF assms(1), of os name sz] assms(2,3) by auto
  have "rg_fd r = -1 \<or> 0 \<le> rg_fd r" using books by (auto simp: keeps_books_def split: if_splits)
  then have "r' = \<lparr>rg_name = rg_name r, rg_data = nullptr, rg_size = 0, rg_creator = False, rg_fd = -1\<rparr>"
    using region_close_fst [of sys r os1] assms(4) by auto
  moreover from this have "region_close sys r' os2 = (r', os2)" by (simp add: region_close_def)
  ultimately show ?thesis
    using books_closed [OF assms(1) books] books assms(4)
    by (auto simp: keeps_books_def region_is_valid_def)
qed

theorem region_resources_witness:
  "(case region_create_exclusive demo_posix ''bus'' 4096 \<lparr>d_fds = [3], d_maps = [], d_names = []\<rparr> of
     (r, os1) \<Rightarrow> region_is_valid r \<and> fds demo_resources (snd (region_close demo_posix r os1)) = {3})"
proof -
  let ?os = "\<lparr>d_fds = [3], d_maps = [], d_names = []\<rparr>"
  obtain r os1 where c: "region_create_exclusive demo_posix ''bus'' 4096 ?os = (r, os1)"
    by (meson surj_pair)
  obtain r' os2 where d: "region_close demo_posix r os1 = (r', os2)" by (meson surj_pair)
  have "region_is_valid r"
    using c by (simp add: region_create_eq map_new_def demo_posix_def Let_def)
      (auto simp: region_is_valid_def nullptr_def)
  with region_resources [where attach = "region_create_exclusive demo_posix",
      OF demo_posix_ok _ c d] d c show ?thesis
    by (simp add: demo_resources_def)
qed

text \<open>
  C38. \<open>create_exclusive\<close> on a name that is in use fails, as it should, but also removes the name of
  the segment that is in use: the local region, already marked as its creator, unlinks it when it
  is destroyed on the way out.
\<close>

theorem create_exclusive_unlinks_existing:
  assumes "posix_ok sys R" "name \<noteq> []" "normalize_posix_shm_name name \<in> names R os"
    and "region_create_exclusive sys name sz os = (r, os')"
  shows "\<not> region_is_valid r \<and> names R os' = names R os - {normalize_posix_shm_name name}"
proof -
  obtain fd os1 where o: "px_shm_open sys (normalize_posix_shm_name name) [O_CREAT, O_EXCL, O_RDWR] os = (fd, os1)"
    by force
  have "fd < 0" by (rule px_open_exclusive [OF assms(1) o]) (simp_all add: assms(3))
  moreover from this have "names R os1 = names R os"
    using px_open_fail [OF assms(1) o] by (simp add: same_resources_def)
  moreover have "r = region_default" "os' = region_destroy sys (region_local name sz True) os1"
    using assms(4) o \<open>fd < 0\<close> unfolding region_create_eq by simp_all
  ultimately show ?thesis
    using assms(2)
    by (simp add: region_destroy_def region_close_resources [OF assms(1)] region_is_valid_def)
qed

theorem create_exclusive_unlinks_existing_witness:
  "names demo_resources (snd (region_create_exclusive demo_posix ''/bus'' 64
     \<lparr>d_fds = [], d_maps = [], d_names = [''/bus'', ''/other'']\<rparr>)) = {''/other''}"
proof -
  let ?os = "\<lparr>d_fds = [], d_maps = [], d_names = [''/bus'', ''/other'']\<rparr>"
  obtain r os' where c: "region_create_exclusive demo_posix ''/bus'' 64 ?os = (r, os')"
    by (meson surj_pair)
  have n: "normalize_posix_shm_name ''/bus'' = ''/bus''" by (simp add: normalize_posix_shm_name_def)
  from create_exclusive_unlinks_existing [OF demo_posix_ok _ _ c] c show ?thesis
    by (auto simp: n demo_resources_def)
qed

end
