(* ===== verification/Simulation.thy ===== *)
theory Simulation
  imports Prelude
begin

text \<open>
  Functional refinement, once for every component whose operations are steps on a state with a
  result: if each concrete step keeps the invariant and gives the result of an abstract step, so
  does every sequence of steps. The ring buffers and the bounded containers are instances.
\<close>

fun run :: "('st \<Rightarrow> 'op \<Rightarrow> 'out \<times> 'st) \<Rightarrow> 'st \<Rightarrow> 'op list \<Rightarrow> 'out list \<times> 'st" where
  "run step s [] = ([], s)"
| "run step s (x # xs) =
     (let (out, s1) = step s x; (outs, s2) = run step s1 xs in (out # outs, s2))"

lemma run_append:
  "run step s (xs @ ys) =
     (let (out1, s1) = run step s xs; (out2, s2) = run step s1 ys in (out1 @ out2, s2))"
  by (induction xs arbitrary: s) (simp_all add: split_def Let_def)

locale simulation =
  fixes inv :: "'st \<Rightarrow> bool" and abs :: "'st \<Rightarrow> 'a" and ok :: "'op \<Rightarrow> bool"
    and step :: "'st \<Rightarrow> 'op \<Rightarrow> 'out \<times> 'st" and astep :: "'a \<Rightarrow> 'op \<Rightarrow> 'out \<times> 'a"
  assumes step_simulates:
    "inv s \<Longrightarrow> ok x \<Longrightarrow> step s x = (out, s') \<Longrightarrow> inv s' \<and> astep (abs s) x = (out, abs s')"
begin

lemma run_simulates:
  assumes "inv s" "list_all ok xs" "run step s xs = (outs, s')"
  shows "inv s' \<and> run astep (abs s) xs = (outs, abs s')"
  using assms
proof (induction xs arbitrary: s outs s')
  case Nil
  then show ?case by simp
next
  case (Cons x xs)
  obtain out s1 where x: "step s x = (out, s1)" by force
  obtain outs' s2 where xs: "run step s1 xs = (outs', s2)" by force
  have one: "inv s1 \<and> astep (abs s) x = (out, abs s1)"
    using Cons.prems(1,2) x by (intro step_simulates) simp_all
  have "inv s2 \<and> run astep (abs s1) xs = (outs', abs s2)"
    using Cons.IH [OF _ _ xs] one Cons.prems(2) by simp
  with one show ?case
    using Cons.prems(3) x xs by simp
qed

end

text \<open>
  Refinement of step relations: a state of the detailed system is matched by a state of the abstract
  one; a detailed step is matched by one abstract step or by none. The abstract system may bring an
  invariant of its own.
\<close>

locale step_simulation =
  fixes astep :: "'a \<Rightarrow> 'a \<Rightarrow> bool" and ainv :: "'a \<Rightarrow> bool"
    and step :: "'st \<Rightarrow> 'st \<Rightarrow> bool" and match :: "'st \<Rightarrow> 'a \<Rightarrow> bool"
  assumes ainv_step: "astep a a' \<Longrightarrow> ainv a \<Longrightarrow> ainv a'"
    and match_step: "match s a \<Longrightarrow> ainv a \<Longrightarrow> step s s' \<Longrightarrow> match s' a \<or> (\<exists>a'. astep a a' \<and> match s' a')"
begin

lemma steps_match:
  assumes "step\<^sup>*\<^sup>* s s'" "match s a" "ainv a"
  shows "\<exists>a'. astep\<^sup>*\<^sup>* a a' \<and> match s' a' \<and> ainv a'"
  using assms(1)
proof (induction rule: rtranclp_induct)
  case base
  with assms(2,3) show ?case by blast
next
  case (step t t')
  then obtain b where b: "astep\<^sup>*\<^sup>* a b" "match t b" "ainv b" by blast
  from match_step [OF b(2,3) step(2)] show ?case
  proof
    assume "match t' b"
    with b show ?thesis by blast
  next
    assume "\<exists>b'. astep b b' \<and> match t' b'"
    with b ainv_step show ?thesis by (meson rtranclp.rtrancl_into_rtrancl)
  qed
qed

end

end
