(* ===== verification/Ring_Interface.thy ===== *)
theory Ring_Interface
  imports Simulation
begin

text \<open>
  What a client of a ring buffer relies on, as an interface: the \<open>RingBufferType\<close> parameter of
  \<open>ros2_bridge.hpp\<close> and the callers of \<open>push\<close> and \<open>pop\<close>. The state \<open>'st\<close> is the ring together with
  the memory it lives in. The abstract specification is a bounded first-in first-out queue of
  payloads; every client lemma is proved once, from the laws.
\<close>

section \<open>The abstract bounded queue\<close>

datatype ring_op = Push bytes | Pop

datatype ring_out = Pushed bool | Popped "bytes option"

fun queue_step :: "nat \<Rightarrow> bytes list \<Rightarrow> ring_op \<Rightarrow> ring_out \<times> bytes list" where
  "queue_step n q (Push v) =
     (if length q < n then (Pushed True, q @ [v]) else (Pushed False, q))"
| "queue_step n [] Pop = (Popped None, [])"
| "queue_step n (v # q) Pop = (Popped (Some v), q)"

text \<open>Payloads an operation may carry.\<close>

fun op_ok :: "nat \<Rightarrow> ring_op \<Rightarrow> bool" where
  "op_ok k (Push v) = (length v = k)"
| "op_ok k Pop = True"

section \<open>Generic clients\<close>

text \<open>\<open>push\<close>: prepare a slot, assign the value, commit.\<close>

definition ring_push ::
  "('st \<Rightarrow> ptr \<times> 'st) \<Rightarrow> ('st \<Rightarrow> ptr \<Rightarrow> bytes \<Rightarrow> 'st) \<Rightarrow> (bool \<Rightarrow> 'st \<Rightarrow> 'st)
     \<Rightarrow> bytes \<Rightarrow> bool \<Rightarrow> 'st \<Rightarrow> bool \<times> 'st" where
  "ring_push prepare_write store commit_write v compute_crc s =
     (let (slot, s1) = prepare_write s in
      if slot = nullptr then (False, s1)
      else (True, commit_write compute_crc (store s1 slot v)))"

text \<open>\<open>pop\<close>: peek, copy the value out, commit; \<open>None\<close> stands for the result \<open>false\<close>.\<close>

definition ring_pop ::
  "(bool \<Rightarrow> 'st \<Rightarrow> ptr) \<Rightarrow> ('st \<Rightarrow> ptr \<Rightarrow> bytes) \<Rightarrow> ('st \<Rightarrow> 'st)
     \<Rightarrow> bool \<Rightarrow> 'st \<Rightarrow> bytes option \<times> 'st" where
  "ring_pop peek_read fetch commit_read verify_crc s =
     (let item = peek_read verify_crc s in
      if item = nullptr then (None, s) else (Some (fetch s item), commit_read s))"

text \<open>One call of a ring, by the operation it is asked for.\<close>

definition ring_step ::
  "(bytes \<Rightarrow> 'st \<Rightarrow> bool \<times> 'st) \<Rightarrow> ('st \<Rightarrow> bytes option \<times> 'st)
     \<Rightarrow> 'st \<Rightarrow> ring_op \<Rightarrow> ring_out \<times> 'st" where
  "ring_step push pop s x = (case x of
     Push v \<Rightarrow> (case push v s of (ok, s') \<Rightarrow> (Pushed ok, s'))
   | Pop \<Rightarrow> (case pop s of (r, s') \<Rightarrow> (Popped r, s')))"

section \<open>The interface\<close>

text \<open>The reading half: what the consumer of a ring is promised.\<close>

locale ring_consumer =
  fixes inv :: "'st \<Rightarrow> bool" and contents :: "'st \<Rightarrow> bytes list"
    and peek_read :: "bool \<Rightarrow> 'st \<Rightarrow> ptr" and fetch :: "'st \<Rightarrow> ptr \<Rightarrow> bytes"
    and commit_read :: "'st \<Rightarrow> 'st"
  assumes peek_empty: "inv s \<Longrightarrow> contents s = [] \<Longrightarrow> peek_read c s = nullptr"
    and peek_front: "inv s \<Longrightarrow> contents s = v # q \<Longrightarrow> peek_read c s \<noteq> nullptr \<and> fetch s (peek_read c s) = v"
    and read_front: "inv s \<Longrightarrow> contents s = v # q \<Longrightarrow> inv (commit_read s) \<and> contents (commit_read s) = q"
begin

lemma pop_spec:
  assumes "inv s"
  shows "case ring_pop peek_read fetch commit_read c s of (r, s') \<Rightarrow>
    inv s' \<and> (case contents s of [] \<Rightarrow> r = None \<and> s' = s | v # q \<Rightarrow> r = Some v \<and> contents s' = q)"
  using assms peek_empty [of s c] peek_front [of s _ _ c] read_front [of s]
  by (auto simp: ring_pop_def Let_def split: list.split)

end

text \<open>
  The writing half, over the same state: \<open>slot_value\<close> reads through a pointer of the writer, \<open>fetch\<close>
  through one of the reader, which may be another process.
\<close>

locale message_ring = ring_consumer inv contents peek_read fetch commit_read
  for inv :: "'st \<Rightarrow> bool" and contents :: "'st \<Rightarrow> bytes list"
    and peek_read :: "bool \<Rightarrow> 'st \<Rightarrow> ptr" and fetch :: "'st \<Rightarrow> ptr \<Rightarrow> bytes"
    and commit_read :: "'st \<Rightarrow> 'st" +
  fixes limit :: nat and value_size :: nat and blank :: bytes
    and prepare_write :: "'st \<Rightarrow> ptr \<times> 'st" and slot_value :: "'st \<Rightarrow> ptr \<Rightarrow> bytes"
    and store :: "'st \<Rightarrow> ptr \<Rightarrow> bytes \<Rightarrow> 'st" and commit_write :: "bool \<Rightarrow> 'st \<Rightarrow> 'st"
  assumes bounded: "inv s \<Longrightarrow> length (contents s) \<le> limit"
    and prepare_full: "inv s \<Longrightarrow> length (contents s) = limit \<Longrightarrow> prepare_write s = (nullptr, s)"
    and prepare_room: "inv s \<Longrightarrow> length (contents s) < limit \<Longrightarrow> prepare_write s = (slot, s1) \<Longrightarrow>
        slot \<noteq> nullptr \<and> inv s1 \<and> contents s1 = contents s \<and> slot_value s1 slot = blank"
    and commit_filled: "inv s \<Longrightarrow> length (contents s) < limit \<Longrightarrow> prepare_write s = (slot, s1) \<Longrightarrow>
        length v = value_size \<Longrightarrow>
        inv (commit_write c (store s1 slot v)) \<and>
        contents (commit_write c (store s1 slot v)) = contents s @ [v]"
begin

lemma push_spec:
  assumes "inv s" "length v = value_size"
  shows "case ring_push prepare_write store commit_write v c s of (ok, s') \<Rightarrow>
    inv s' \<and> ok = (length (contents s) < limit)
    \<and> contents s' = (if length (contents s) < limit then contents s @ [v] else contents s)"
proof (cases "length (contents s) < limit")
  case True
  obtain slot s1 where p: "prepare_write s = (slot, s1)" by force
  with True assms prepare_room [OF assms(1) True p] commit_filled [OF assms(1) True p assms(2)]
  show ?thesis by (simp add: ring_push_def)
next
  case False
  then have "length (contents s) = limit" using bounded [OF assms(1)] by simp
  with assms prepare_full show ?thesis by (simp add: ring_push_def)
qed

text \<open>One operation of the ring simulates the operation of the abstract queue.\<close>

lemma step_simulates:
  assumes "inv s" "op_ok value_size x" "ring_step (\<lambda>v. ring_push prepare_write store commit_write v cc)
      (ring_pop peek_read fetch commit_read vc) s x = (out, s')"
  shows "inv s' \<and> queue_step limit (contents s) x = (out, contents s')"
proof (cases x)
  case (Push v)
  with assms push_spec [of s v cc] show ?thesis
    by (auto simp: ring_step_def split: prod.splits)
next
  case Pop
  with assms pop_spec [of s vc] show ?thesis
    by (cases "contents s") (auto simp: ring_step_def split: prod.splits)
qed

end

sublocale message_ring \<subseteq> sim: simulation inv contents "op_ok value_size"
  "ring_step (\<lambda>v. ring_push prepare_write store commit_write v cc)
     (ring_pop peek_read fetch commit_read vc)" "queue_step limit" for cc vc
  by unfold_locales (rule step_simulates)

end
