(* ===== verification/Ipc_Ring_Buffer.thy ===== *)
theory Ipc_Ring_Buffer
  imports Wire Shm Ring_Interface
begin

text \<open>
  Model of \<open>include/sinew/ipc_ring_buffer.hpp\<close>: a ring whose header and slots lie in a shared memory
  segment. The object is a record of the region and the two pointers into it; cursors, layout
  fields and slots are bytes of the memory, read and written with the byte order \<open>e\<close> of the
  machine that the processes share. \<open>Capacity\<close> is a \<open>size_t\<close> of 64 bits.
\<close>

section \<open>The ring header\<close>

definition IPC_RING_MAGIC :: u32 where
  "IPC_RING_MAGIC = 0x524D4853"

definition sizeof_IpcRingHeader :: nat where
  "sizeof_IpcRingHeader = 192"

text \<open>The layout fields and, on cache lines of their own, the cursors.\<close>

record ipc_header =
  ih_magic :: u32
  ih_version :: u32
  ih_capacity :: u32
  ih_slot_size :: u32
  ih_payload_len :: u32
  ih_msg_id :: u16
  ih_reserved :: u16
  ih_head :: u64
  ih_tail :: u64

definition load_ipc_header :: "endian \<Rightarrow> mem \<Rightarrow> ptr \<Rightarrow> ipc_header" where
  "load_ipc_header e m p =
     \<lparr>ih_magic = load_u32 e m p, ih_version = load_u32 e m (p + 4), ih_capacity = load_u32 e m (p + 8),
      ih_slot_size = load_u32 e m (p + 12), ih_payload_len = load_u32 e m (p + 16),
      ih_msg_id = load_u16 e m (p + 20), ih_reserved = load_u16 e m (p + 22),
      ih_head = load_u64 e m (p + 64), ih_tail = load_u64 e m (p + 128)\<rparr>"

definition store_ipc_header :: "endian \<Rightarrow> mem \<Rightarrow> ptr \<Rightarrow> ipc_header \<Rightarrow> mem" where
  "store_ipc_header e m p h =
     (let m = store_u32 e m p (ih_magic h);
          m = store_u32 e m (p + 4) (ih_version h);
          m = store_u32 e m (p + 8) (ih_capacity h);
          m = store_u32 e m (p + 12) (ih_slot_size h);
          m = store_u32 e m (p + 16) (ih_payload_len h);
          m = store_u16 e m (p + 20) (ih_msg_id h);
          m = store_u16 e m (p + 22) (ih_reserved h);
          m = store_u64 e m (p + 64) (ih_head h)
      in store_u64 e m (p + 128) (ih_tail h))"

text \<open>The atomic cursors.\<close>

definition load_head :: "endian \<Rightarrow> mem \<Rightarrow> ptr \<Rightarrow> u64" where
  "load_head e m p = load_u64 e m (p + 64)"

definition load_tail :: "endian \<Rightarrow> mem \<Rightarrow> ptr \<Rightarrow> u64" where
  "load_tail e m p = load_u64 e m (p + 128)"

definition store_head :: "endian \<Rightarrow> mem \<Rightarrow> ptr \<Rightarrow> u64 \<Rightarrow> mem" where
  "store_head e m p h = store_u64 e m (p + 64) h"

definition store_tail :: "endian \<Rightarrow> mem \<Rightarrow> ptr \<Rightarrow> u64 \<Rightarrow> mem" where
  "store_tail e m p t = store_u64 e m (p + 128) t"

lemmas cursor_defs = load_head_def load_tail_def store_head_def store_tail_def

lemma load_store_header: "load_ipc_header e (store_ipc_header e m p h) p = h"
  by (simp add: load_ipc_header_def store_ipc_header_def Let_def mem_simps)

lemma header_cursors: "load_head e m p = ih_head (load_ipc_header e m p)" "load_tail e m p = ih_tail (load_ipc_header e m p)"
  by (simp_all add: cursor_defs load_ipc_header_def)

lemma cursor_stores [simp]:
  "load_head e (store_head e m p h) p = h" "load_tail e (store_head e m p h) p = load_tail e m p"
  "load_tail e (store_tail e m p t) p = t" "load_head e (store_tail e m p t) p = load_head e m p"
  by (simp_all add: cursor_defs mem_simps)

lemma cursor_frame:
  "same_outside q n m m' \<Longrightarrow> p + 192 \<le> q \<Longrightarrow> load_head e m' p = load_head e m p"
  "same_outside q n m m' \<Longrightarrow> p + 192 \<le> q \<Longrightarrow> load_tail e m' p = load_tail e m p"
  by (simp_all add: cursor_defs load_u64_def same_outside_read)

lemma cursor_store_frame:
  "same_outside p 192 m (store_head e m p h)" "same_outside p 192 m (store_tail e m p h)"
  by (auto simp: cursor_defs)

section \<open>The ring\<close>

definition ipc_kSlotAlign :: "msgtype \<Rightarrow> nat" where
  "ipc_kSlotAlign T = (if mt_alignof T > 16 then mt_alignof T else 16)"

definition ipc_kSlotSize :: "msgtype \<Rightarrow> nat" where
  "ipc_kSlotSize T =
     (let kRawSlotSize = sizeof_Header + mt_sizeof T
      in ((kRawSlotSize + ipc_kSlotAlign T - 1) div ipc_kSlotAlign T) * ipc_kSlotAlign T)"

definition ipc_kTotalShmSize :: "msgtype \<Rightarrow> u64 \<Rightarrow> nat" where
  "ipc_kTotalShmSize T cap = sizeof_IpcRingHeader + unat cap * ipc_kSlotSize T"

record ipc_ring =
  ir_shm :: region
  ir_hdr :: ptr
  ir_slots :: ptr
  ir_producer :: bool

definition ipc_default :: ipc_ring where
  "ipc_default = \<lparr>ir_shm = region_default, ir_hdr = nullptr, ir_slots = nullptr, ir_producer = False\<rparr>"

text \<open>
  The header a creator writes. The memory is that of the process after \<open>mmap\<close>; what the segment
  held before is whatever that memory holds there.
\<close>

definition ipc_create ::
  "'os posix \<Rightarrow> endian \<Rightarrow> msgtype \<Rightarrow> u64 \<Rightarrow> string \<Rightarrow> mem \<Rightarrow> 'os \<Rightarrow> ipc_ring \<times> mem \<times> 'os" where
  "ipc_create sys e T cap name m os =
     (let (shm, os) = region_create sys name (of_nat (ipc_kTotalShmSize T cap)) os in
      if \<not> region_is_valid shm then (ipc_default, m, region_destroy sys shm os)
      else
        let hdr = rg_data shm;
            m = store_ipc_header e m hdr
              \<lparr>ih_magic = IPC_RING_MAGIC, ih_version = 1, ih_capacity = ucast cap,
               ih_slot_size = of_nat (ipc_kSlotSize T), ih_payload_len = of_nat (mt_sizeof T),
               ih_msg_id = mt_id T, ih_reserved = 0, ih_head = 0, ih_tail = 0\<rparr>
        in (\<lparr>ir_shm = shm, ir_hdr = hdr, ir_slots = rg_data shm + sizeof_IpcRingHeader,
             ir_producer = True\<rparr>, m, os))"

definition ipc_open ::
  "'os posix \<Rightarrow> endian \<Rightarrow> msgtype \<Rightarrow> u64 \<Rightarrow> string \<Rightarrow> mem \<Rightarrow> 'os \<Rightarrow> ipc_ring \<times> 'os" where
  "ipc_open sys e T cap name m os =
     (let (shm, os) = region_open sys name (of_nat (ipc_kTotalShmSize T cap)) os in
      if \<not> region_is_valid shm then (ipc_default, region_destroy sys shm os)
      else
        let hdr = load_ipc_header e m (rg_data shm) in
        if ih_magic hdr \<noteq> IPC_RING_MAGIC \<or> ucast (ih_capacity hdr) \<noteq> cap
           \<or> unat (ih_slot_size hdr) \<noteq> ipc_kSlotSize T \<or> unat (ih_payload_len hdr) \<noteq> mt_sizeof T
        then (ipc_default, region_destroy sys shm os)
        else (\<lparr>ir_shm = shm, ir_hdr = rg_data shm, ir_slots = rg_data shm + sizeof_IpcRingHeader,
               ir_producer = False\<rparr>, os))"

text \<open>The defaulted move: the pointers are copied, only the region is emptied.\<close>

definition ipc_move :: "string \<Rightarrow> ipc_ring \<Rightarrow> ipc_ring \<times> ipc_ring" where
  "ipc_move leftover other =
     (other, other\<lparr>ir_shm := snd (region_move leftover (ir_shm other))\<rparr>)"

definition ipc_is_valid :: "ipc_ring \<Rightarrow> bool" where
  "ipc_is_valid rb \<longleftrightarrow> ir_hdr rb \<noteq> nullptr \<and> ir_slots rb \<noteq> nullptr"

definition ipc_size :: "endian \<Rightarrow> ipc_ring \<times> mem \<Rightarrow> u64" where
  "ipc_size e = (\<lambda>(rb, m).
     if \<not> ipc_is_valid rb then 0
     else let head = load_head e m (ir_hdr rb); tail = load_tail e m (ir_hdr rb)
       in if tail \<le> head then head - tail else 0)"

definition ipc_empty :: "endian \<Rightarrow> ipc_ring \<times> mem \<Rightarrow> bool" where
  "ipc_empty e = (\<lambda>(rb, m).
     if \<not> ipc_is_valid rb then True else load_head e m (ir_hdr rb) = load_tail e m (ir_hdr rb))"

definition ipc_full :: "endian \<Rightarrow> u64 \<Rightarrow> ipc_ring \<times> mem \<Rightarrow> bool" where
  "ipc_full e cap = (\<lambda>(rb, m).
     if \<not> ipc_is_valid rb then True
     else let head = load_head e m (ir_hdr rb); tail = load_tail e m (ir_hdr rb) in cap \<le> head - tail)"

definition ipc_slot :: "msgtype \<Rightarrow> u64 \<Rightarrow> ipc_ring \<Rightarrow> u64 \<Rightarrow> ptr" where
  "ipc_slot T cap rb = ring_slot (ir_slots rb) (ipc_kSlotSize T) cap"

definition ipc_prepare_write :: "endian \<Rightarrow> msgtype \<Rightarrow> u64 \<Rightarrow> ipc_ring \<times> mem \<Rightarrow> ptr \<times> ipc_ring \<times> mem" where
  "ipc_prepare_write e T cap = (\<lambda>(rb, m).
     if \<not> ipc_is_valid rb then (nullptr, rb, m)
     else
       let head = load_head e m (ir_hdr rb); tail = load_tail e m (ir_hdr rb) in
       if cap \<le> head - tail then (nullptr, rb, m)
       else let (slot, m) = prepare e T m (ipc_slot T cap rb head) (ipc_kSlotSize T) in (slot, rb, m))"

definition ipc_commit_write ::
  "endian \<Rightarrow> msgtype \<Rightarrow> u64 \<Rightarrow> bool \<Rightarrow> ipc_ring \<times> mem \<Rightarrow> ipc_ring \<times> mem" where
  "ipc_commit_write e T cap compute_crc = (\<lambda>(rb, m).
     if \<not> ipc_is_valid rb then (rb, m)
     else
       let head = load_head e m (ir_hdr rb);
           payload = ipc_slot T cap rb head + sizeof_Header;
           m = snd (finalize e T m payload compute_crc)
       in (rb, store_head e m (ir_hdr rb) (head + 1)))"

definition ipc_push ::
  "endian \<Rightarrow> msgtype \<Rightarrow> u64 \<Rightarrow> bytes \<Rightarrow> bool \<Rightarrow> ipc_ring \<times> mem \<Rightarrow> bool \<times> ipc_ring \<times> mem" where
  "ipc_push e T cap val compute_crc s =
     (let (slot, rb, m) = ipc_prepare_write e T cap s in
      if slot = nullptr then (False, rb, m)
      else (True, ipc_commit_write e T cap compute_crc (rb, assign_object m slot val)))"

definition ipc_peek_read :: "endian \<Rightarrow> msgtype \<Rightarrow> u64 \<Rightarrow> bool \<Rightarrow> ipc_ring \<times> mem \<Rightarrow> ptr" where
  "ipc_peek_read e T cap verify_crc = (\<lambda>(rb, m).
     if \<not> ipc_is_valid rb then nullptr
     else
       let tail = load_tail e m (ir_hdr rb); head = load_head e m (ir_hdr rb) in
       if tail = head then nullptr
       else view e T m (ipc_slot T cap rb tail) (ipc_kSlotSize T) verify_crc)"

definition ipc_commit_read :: "endian \<Rightarrow> ipc_ring \<times> mem \<Rightarrow> ipc_ring \<times> mem" where
  "ipc_commit_read e = (\<lambda>(rb, m).
     if \<not> ipc_is_valid rb then (rb, m)
     else let tail = load_tail e m (ir_hdr rb) in (rb, store_tail e m (ir_hdr rb) (tail + 1)))"

definition ipc_pop ::
  "endian \<Rightarrow> msgtype \<Rightarrow> u64 \<Rightarrow> bytes \<Rightarrow> bool \<Rightarrow> ipc_ring \<times> mem \<Rightarrow> bool \<times> bytes \<times> ipc_ring \<times> mem" where
  "ipc_pop e T cap out_value verify_crc s =
     (let item = ipc_peek_read e T cap verify_crc s in
      if item = nullptr then (False, out_value, s)
      else (True, read_bytes (snd s) item (mt_sizeof T), ipc_commit_read e s))"

definition ipc_consume ::
  "endian \<Rightarrow> msgtype \<Rightarrow> u64 \<Rightarrow> (bytes \<Rightarrow> 'a \<Rightarrow> 'a) \<Rightarrow> 'a \<Rightarrow> bool \<Rightarrow> ipc_ring \<times> mem
     \<Rightarrow> bool \<times> 'a \<times> ipc_ring \<times> mem" where
  "ipc_consume e T cap func a verify_crc s =
     (let item = ipc_peek_read e T cap verify_crc s in
      if item = nullptr then (False, a, s)
      else (True, func (read_bytes (snd s) item (mt_sizeof T)) a, ipc_commit_read e s))"

section \<open>Invariant and contents\<close>

lemma ipc_kSlotSize_props:
  "message_size T \<le> ipc_kSlotSize T" "mt_alignof T dvd 16 \<Longrightarrow> 16 dvd ipc_kSlotSize T"
proof -
  let ?a = "ipc_kSlotAlign T" and ?n = "sizeof_Header + mt_sizeof T"
  have a: "0 < ?a" by (simp add: ipc_kSlotAlign_def)
  have "(?n + ?a - 1) div ?a * ?a + (?n + ?a - 1) mod ?a = ?n + ?a - 1" by simp
  moreover have "(?n + ?a - 1) mod ?a < ?a" using a by simp
  ultimately have "?n \<le> (?n + ?a - 1) div ?a * ?a" using a by linarith
  then show "message_size T \<le> ipc_kSlotSize T" by (simp add: ipc_kSlotSize_def message_size_def)
  assume "mt_alignof T dvd 16"
  then have "?a = 16" by (auto simp: ipc_kSlotAlign_def dest: dvd_imp_le)
  then show "16 dvd ipc_kSlotSize T" by (simp add: ipc_kSlotSize_def)
qed

text \<open>
  A ring attached to a segment that \<open>mmap\<close> placed (at a multiple of 16, at least), for a type whose
  payloads can be aligned 16 bytes into a slot.
\<close>

definition ipc_ok :: "msgtype \<Rightarrow> u64 \<Rightarrow> ipc_ring \<Rightarrow> bool" where
  "ipc_ok T cap rb \<longleftrightarrow> capacity_ok cap \<and> is_valid_message T \<and> mt_alignof T dvd 16
     \<and> ir_hdr rb \<noteq> nullptr \<and> 16 dvd ir_hdr rb \<and> ir_slots rb = ir_hdr rb + 192"

definition ipc_contents :: "endian \<Rightarrow> msgtype \<Rightarrow> u64 \<Rightarrow> ipc_ring \<times> mem \<Rightarrow> bytes list" where
  "ipc_contents e T cap = (\<lambda>(rb, m). ring_items (slot_look e T True) (ipc_slot T cap rb)
     (load_head e m (ir_hdr rb)) (load_tail e m (ir_hdr rb)) m)"

definition ipc_inv :: "endian \<Rightarrow> msgtype \<Rightarrow> u64 \<Rightarrow> ipc_ring \<times> mem \<Rightarrow> bool" where
  "ipc_inv e T cap = (\<lambda>(rb, m). ipc_ok T cap rb \<and> ring_ok (slot_look e T True) (ipc_slot T cap rb) cap
     (load_head e m (ir_hdr rb)) (load_tail e m (ir_hdr rb)) m)"

lemma ipc_okD:
  assumes "ipc_ok T cap rb"
  shows "capacity_ok cap" "ipc_is_valid rb" "is_valid_message T" "fits T (ipc_slot T cap rb i)"
    "ir_hdr rb + 192 \<le> ipc_slot T cap rb i"
proof -
  show "capacity_ok cap" "ipc_is_valid rb" "is_valid_message T"
    using assms by (auto simp: ipc_ok_def ipc_is_valid_def nullptr_def)
  show below: "ir_hdr rb + 192 \<le> ipc_slot T cap rb i"
    using assms by (simp add: ipc_ok_def ipc_slot_def ring_slot_def)
  have "16 dvd (192 :: nat)" by simp
  then have "16 dvd ipc_slot T cap rb i + 16"
    using assms ipc_kSlotSize_props(2) [of T] unfolding ipc_ok_def ipc_slot_def ring_slot_def
    by (metis dvd_add dvd_mult dvd_refl)
  then have "mt_alignof T dvd ipc_slot T cap rb i + 16"
    using assms dvd_trans unfolding ipc_ok_def by blast
  then show "fits T (ipc_slot T cap rb i)"
    using assms below by (simp add: ipc_ok_def fits_def nullptr_def)
qed

text \<open>Moving a cursor leaves the slots alone.\<close>

lemma look_store_cursor:
  assumes "ipc_ok T cap rb"
  shows "slot_look e T c (store_head e m (ir_hdr rb) h) (ipc_slot T cap rb i) = slot_look e T c m (ipc_slot T cap rb i)"
    and "slot_look e T c (store_tail e m (ir_hdr rb) h) (ipc_slot T cap rb i) = slot_look e T c m (ipc_slot T cap rb i)"
  using ipc_okD(5) [OF assms, of i]
  by (auto intro: wire.look_outside [OF cursor_store_frame(1)] wire.look_outside [OF cursor_store_frame(2)])

lemma ring_store_cursor:
  assumes "ipc_ok T cap rb"
  shows "ring_ok (slot_look e T c) (ipc_slot T cap rb) cap h t (store_head e m (ir_hdr rb) x) =
      ring_ok (slot_look e T c) (ipc_slot T cap rb) cap h t m"
    and "ring_ok (slot_look e T c) (ipc_slot T cap rb) cap h t (store_tail e m (ir_hdr rb) x) =
      ring_ok (slot_look e T c) (ipc_slot T cap rb) cap h t m"
    and "ring_items (slot_look e T c) (ipc_slot T cap rb) h t (store_head e m (ir_hdr rb) x) =
      ring_items (slot_look e T c) (ipc_slot T cap rb) h t m"
    and "ring_items (slot_look e T c) (ipc_slot T cap rb) h t (store_tail e m (ir_hdr rb) x) =
      ring_items (slot_look e T c) (ipc_slot T cap rb) h t m"
  by (rule ring_look_cong look_store_cursor [OF assms])+

text \<open>Writing and reading through the pointer of a slot.\<close>

definition ipc_store :: "ipc_ring \<times> mem \<Rightarrow> ptr \<Rightarrow> bytes \<Rightarrow> ipc_ring \<times> mem" where
  "ipc_store = (\<lambda>(rb, m) slot v. (rb, assign_object m slot v))"

definition ipc_fetch :: "msgtype \<Rightarrow> ipc_ring \<times> mem \<Rightarrow> ptr \<Rightarrow> bytes" where
  "ipc_fetch T s slot = read_bytes (snd s) slot (mt_sizeof T)"

lemma ipc_prepare_room:
  assumes inv: "ipc_inv e T cap (rb, m)" and room: "length (ipc_contents e T cap (rb, m)) < unat cap"
  defines "p \<equiv> ipc_slot T cap rb (load_head e m (ir_hdr rb))"
  shows "ipc_prepare_write e T cap (rb, m) = (p + 16, rb, prepared e T m p)"
    and "ipc_inv e T cap (rb, prepared e T m p)"
    and "ipc_contents e T cap (rb, prepared e T m p) = ipc_contents e T cap (rb, m)"
proof -
  have ok: "ipc_ok T cap rb" using inv by (simp add: ipc_inv_def)
  let ?h = "load_head e m (ir_hdr rb)" and ?t = "load_tail e m (ir_hdr rb)"
  have "unat (?h - ?t) < unat cap" using room by (simp add: ipc_contents_def)
  moreover have frame: "same_outside p (message_size T) m (prepared e T m p)"
    unfolding p_def by (rule wire.prep_frame [OF ipc_okD(4) [OF ok]])
  ultimately have "ring_ok (slot_look e T True) (ipc_slot T cap rb) cap ?h ?t (prepared e T m p) =
        ring_ok (slot_look e T True) (ipc_slot T cap rb) cap ?h ?t m"
      "ring_items (slot_look e T True) (ipc_slot T cap rb) ?h ?t (prepared e T m p) =
        ring_items (slot_look e T True) (ipc_slot T cap rb) ?h ?t m"
    using wire.ring_prepare [OF ipc_okD(1) [OF ok] ipc_kSlotSize_props(1)] by (simp_all add: p_def ipc_slot_def)
  moreover have "ir_hdr rb + 192 \<le> p" unfolding p_def by (rule ipc_okD [OF ok])
  ultimately show "ipc_inv e T cap (rb, prepared e T m p)"
      "ipc_contents e T cap (rb, prepared e T m p) = ipc_contents e T cap (rb, m)"
    using inv cursor_frame [OF frame, of "ir_hdr rb" e] by (simp_all add: ipc_inv_def ipc_contents_def)
  have "\<not> cap \<le> ?h - ?t" using \<open>unat (?h - ?t) < unat cap\<close> by (simp add: word_le_nat_alt)
  then show "ipc_prepare_write e T cap (rb, m) = (p + 16, rb, prepared e T m p)"
    using ipc_okD [OF ok] ipc_kSlotSize_props(1) by (simp add: ipc_prepare_write_def Let_def p_def)
qed

lemma ipc_committed:
  fixes c :: bool and e :: endian and m :: mem
  assumes ok: "ipc_ok T cap rb" and "length v = mt_sizeof T"
  defines "p \<equiv> ipc_slot T cap rb (load_head e m (ir_hdr rb))"
  defines "m1 \<equiv> assign_object (prepared e T m p) (p + 16) v"
  shows "ipc_commit_write e T cap c (rb, m1) =
      (rb, store_head e (slot_seal e T c m1 p) (ir_hdr rb) (load_head e m (ir_hdr rb) + 1))"
    and "same_outside p (message_size T) m m1" "same_outside p (message_size T) m (slot_seal e T c m1 p)"
proof -
  have usable: "fits T p" and above: "ir_hdr rb + 192 \<le> p" unfolding p_def by (rule ipc_okD [OF ok])+
  show frame: "same_outside p (message_size T) m m1"
    using wire.prep_frame [OF usable] assms(2)
    by (auto simp: m1_def assign_object_def message_size_eq intro!: same_outside_writeI)
  then show "same_outside p (message_size T) m (slot_seal e T c m1 p)"
    using wire.seal_frame [OF usable] by (rule same_outside_trans)
  show "ipc_commit_write e T cap c (rb, m1) =
      (rb, store_head e (slot_seal e T c m1 p) (ir_hdr rb) (load_head e m (ir_hdr rb) + 1))"
    using ipc_okD(2) [OF ok] cursor_frame [OF frame above, of e]
    by (simp add: ipc_commit_write_def slot_seal_def sizeof_Header_def p_def Let_def)
qed

lemma ipc_commit_room:
  fixes c :: bool
  assumes inv: "ipc_inv e T cap (rb, m)" and room: "length (ipc_contents e T cap (rb, m)) < unat cap"
    and len: "length v = mt_sizeof T"
  defines "p \<equiv> ipc_slot T cap rb (load_head e m (ir_hdr rb))"
  defines "s \<equiv> ipc_commit_write e T cap c (rb, assign_object (prepared e T m p) (p + 16) v)"
  shows "ipc_inv e T cap s" "ipc_contents e T cap s = ipc_contents e T cap (rb, m) @ [v]"
proof -
  have ok: "ipc_ok T cap rb" using inv by (simp add: ipc_inv_def)
  let ?h = "load_head e m (ir_hdr rb)" and ?t = "load_tail e m (ir_hdr rb)"
  let ?m1 = "assign_object (prepared e T m p) (p + 16) v"
  let ?m2 = "slot_seal e T c ?m1 p"
  have usable: "fits T p" and above: "ir_hdr rb + 192 \<le> p" unfolding p_def by (rule ipc_okD [OF ok])+
  note committed = ipc_committed [OF ok len, where e = e and m = m, folded p_def]
  have room': "unat (?h - ?t) < unat cap" using room by (simp add: ipc_contents_def)
  have ready: "stamped e T ?m1 p" using wire.ready_prep [OF usable] by (rule stamped_assign)
  have "ring_ok (slot_look e T True) (ipc_slot T cap rb) cap (?h + 1) ?t ?m2"
    "ring_items (slot_look e T True) (ipc_slot T cap rb) (?h + 1) ?t ?m2 =
      ring_items (slot_look e T True) (ipc_slot T cap rb) ?h ?t m @ [v]"
    using wire.ring_commit [OF ipc_okD(1) [OF ok] ipc_kSlotSize_props(1) room', where base = "ir_slots rb"
        and m = m and ?m1.0 = ?m1] inv committed(2) usable ready len
    by (simp_all add: ipc_slot_def p_def ipc_inv_def assign_object_def)
  then show "ipc_inv e T cap s" "ipc_contents e T cap s = ipc_contents e T cap (rb, m) @ [v]"
    using ok cursor_frame [OF committed(3) above, of e] committed(1)
    by (simp_all add: s_def ipc_inv_def ipc_contents_def ring_store_cursor [OF ok])
qed

interpretation ipc: message_ring "ipc_inv e T cap" "ipc_contents e T cap"
  "ipc_peek_read e T cap" "ipc_fetch T" "ipc_commit_read e"
  "unat cap" "mt_sizeof T" "mt_construct T (replicate (mt_sizeof T) 0)"
  "ipc_prepare_write e T cap" "ipc_fetch T" ipc_store "ipc_commit_write e T cap" for e T cap
proof (unfold_locales, goal_cases)
  case (1 s c)
  then show ?case
    by (cases s) (simp add: ipc_peek_read_def ipc_contents_def ring_items_empty)
next
  case (2 s v q c)
  obtain rb m where s: "s = (rb, m)" by force
  have ok: "ipc_ok T cap rb" using 2 by (simp add: s ipc_inv_def)
  from ring_front [of "slot_look e T True" "ipc_slot T cap rb" cap "load_head e m (ir_hdr rb)"
      "load_tail e m (ir_hdr rb)" m v q] 2
  have ne: "load_head e m (ir_hdr rb) \<noteq> load_tail e m (ir_hdr rb)"
    and look: "slot_look e T True m (ipc_slot T cap rb (load_tail e m (ir_hdr rb))) = Some v"
    by (simp_all add: s ipc_inv_def ipc_contents_def)
  from slot_look_weaken [OF look, of c] ne ipc_okD(2) [OF ok] look show ?case
    by (auto simp: s ipc_peek_read_def Let_def view_slot_look ipc_kSlotSize_props ipc_fetch_def slot_look_Some)
next
  case (3 s v q)
  obtain rb m where s: "s = (rb, m)" by force
  have ok: "ipc_ok T cap rb" using 3 by (simp add: s ipc_inv_def)
  from ring_front [of "slot_look e T True" "ipc_slot T cap rb" cap "load_head e m (ir_hdr rb)"
      "load_tail e m (ir_hdr rb)" m v q] 3 ipc_okD(2) [OF ok]
  show ?case
    by (simp add: s ipc_inv_def ipc_contents_def ipc_commit_read_def Let_def ring_store_cursor [OF ok])
next
  case (4 s)
  then show ?case by (cases s) (simp add: ipc_contents_def ipc_inv_def ring_ok_def)
next
  case (5 s)
  then show ?case
    by (cases s) (simp add: ipc_contents_def ipc_prepare_write_def word_le_nat_alt)
next
  case (6 s slot s1)
  obtain rb m where s: "s = (rb, m)" by force
  have "is_valid_message T" using 6 ipc_okD by (auto simp: s ipc_inv_def)
  with 6 ipc_prepare_room [OF 6(1,2) [unfolded s]] show ?case
    by (auto simp: s ipc_fetch_def read_prepared_payload)
next
  case (7 s slot s1 v c)
  obtain rb m where s: "s = (rb, m)" by force
  from 7 ipc_prepare_room(1) [OF 7(1,2) [unfolded s]] ipc_commit_room [OF 7(1,2) [unfolded s] 7(4)]
  show ?case by (auto simp: s ipc_store_def)
qed

section \<open>One segment, two mappings\<close>

text \<open>
  Two processes map a segment at different addresses of their own memories; what they read there
  is the same.
\<close>

lemma slot_look_relocate:
  assumes "read_bytes m p (message_size T) = read_bytes m' p' (message_size T)" "fits T p" "fits T p'"
  shows "slot_look e T c m p = slot_look e T c m' p'"
proof -
  note part = read_bytes_part [OF assms(1), unfolded message_size_eq]
  have "load_u32 e m p = load_u32 e m' p'"
    using part [of 0 4] by (simp add: load_u32_def)
  moreover have "load_u16 e m (p + 4) = load_u16 e m' (p' + 4)" "load_u16 e m (p + 6) = load_u16 e m' (p' + 6)"
    "load_u32 e m (p + 8) = load_u32 e m' (p' + 8)" "load_u32 e m (p + 12) = load_u32 e m' (p' + 12)"
    by (simp_all add: load_defs part)
  moreover have "read_bytes m (p + 16) (mt_sizeof T) = read_bytes m' (p' + 16) (mt_sizeof T)"
    by (rule part) simp
  ultimately show ?thesis
    using assms(2,3) by (auto simp: slot_look_def validate_Ok_iff fits_def)
qed

definition same_segment :: "nat \<Rightarrow> mem \<Rightarrow> ptr \<Rightarrow> mem \<Rightarrow> ptr \<Rightarrow> bool" where
  "same_segment n m p m' p' \<longleftrightarrow> read_bytes m p n = read_bytes m' p' n"

lemma same_segment_header:
  assumes "same_segment (ipc_kTotalShmSize T cap) m p m' p'"
  shows "load_ipc_header e m p = load_ipc_header e m' p'"
proof -
  note part = read_bytes_part [OF assms [unfolded same_segment_def ipc_kTotalShmSize_def sizeof_IpcRingHeader_def]]
  have "load_u32 e m p = load_u32 e m' p'"
    using part [of 0 4] by (simp add: load_u32_def)
  then show ?thesis
    by (simp add: load_ipc_header_def load_defs part)
qed

lemma look_relocate:
  assumes seg: "same_segment (ipc_kTotalShmSize T cap) m (ir_hdr rb) m' (ir_hdr rb')"
    and ok: "ipc_ok T cap rb" and ok': "ipc_ok T cap rb'"
  shows "slot_look e T c m (ipc_slot T cap rb i) = slot_look e T c m' (ipc_slot T cap rb' i)"
proof (rule slot_look_relocate)
  let ?off = "192 + unat (i AND kIndexMask cap) * ipc_kSlotSize T"
  have at: "ipc_slot T cap rb i = ir_hdr rb + ?off" "ipc_slot T cap rb' i = ir_hdr rb' + ?off"
    using ok ok' by (simp_all add: ipc_slot_def ring_slot_def ipc_ok_def)
  have "unat (i AND kIndexMask cap) < unat cap"
    using ipc_okD(1) [OF ok] by (simp add: unat_masked capacity_pos)
  then have "Suc (unat (i AND kIndexMask cap)) * ipc_kSlotSize T \<le> unat cap * ipc_kSlotSize T"
    by (intro mult_le_mono1) simp
  then show "read_bytes m (ipc_slot T cap rb i) (message_size T) =
      read_bytes m' (ipc_slot T cap rb' i) (message_size T)"
    unfolding at using seg ipc_kSlotSize_props(1) [of T]
    by (intro read_bytes_part) (auto simp: same_segment_def ipc_kTotalShmSize_def sizeof_IpcRingHeader_def)
qed (rule ipc_okD [OF ok] ipc_okD [OF ok'])+

lemma ipc_relocate:
  assumes seg: "same_segment (ipc_kTotalShmSize T cap) m (ir_hdr rb) m' (ir_hdr rb')"
    and inv: "ipc_inv e T cap (rb, m)" and ok': "ipc_ok T cap rb'"
  shows "ipc_inv e T cap (rb', m') \<and> ipc_contents e T cap (rb', m') = ipc_contents e T cap (rb, m)"
proof -
  have ok: "ipc_ok T cap rb" using inv by (simp add: ipc_inv_def)
  note look = look_relocate [OF seg ok ok', of e]
  have "load_head e m' (ir_hdr rb') = load_head e m (ir_hdr rb)" "load_tail e m' (ir_hdr rb') = load_tail e m (ir_hdr rb)"
    using same_segment_header [OF seg, of e] by (simp_all add: header_cursors)
  with inv ok' look show ?thesis
    by (simp add: ipc_inv_def ipc_contents_def ring_ok_def ring_items_def ring_view_def)
qed

text \<open>The layout fields that \<open>open\<close> checks; no operation of a ring touches them.\<close>

definition layout_matches :: "endian \<Rightarrow> msgtype \<Rightarrow> u64 \<Rightarrow> mem \<Rightarrow> ptr \<Rightarrow> bool" where
  "layout_matches e T cap m p \<longleftrightarrow> (let hdr = load_ipc_header e m p in
     ih_magic hdr = IPC_RING_MAGIC \<and> ucast (ih_capacity hdr) = cap
     \<and> unat (ih_slot_size hdr) = ipc_kSlotSize T \<and> unat (ih_payload_len hdr) = mt_sizeof T)"

lemma layout_frame:
  assumes "read_bytes m' p 24 = read_bytes m p 24"
  shows "layout_matches e T cap m' p = layout_matches e T cap m p"
proof -
  note part = read_bytes_part [OF assms]
  have "load_u32 e m' p = load_u32 e m p" using part [of 0 4] by (simp add: load_u32_def)
  then show ?thesis
    by (simp add: layout_matches_def load_ipc_header_def load_defs part Let_def)
qed

lemma layout_store_cursor:
  "layout_matches e T cap (store_head e m p x) p = layout_matches e T cap m p"
  "layout_matches e T cap (store_tail e m p x) p = layout_matches e T cap m p"
  by (rule layout_frame; simp add: cursor_defs read_store_disjoint)+

definition ipc_call ::
  "endian \<Rightarrow> msgtype \<Rightarrow> u64 \<Rightarrow> bool \<Rightarrow> bool \<Rightarrow> ipc_ring \<times> mem \<Rightarrow> ring_op \<Rightarrow> ring_out \<times> ipc_ring \<times> mem" where
  "ipc_call e T cap compute_crc verify_crc =
     ring_step (\<lambda>v. ipc_push e T cap v compute_crc)
       (\<lambda>s. case ipc_pop e T cap [] verify_crc s of (ok, v, s') \<Rightarrow> (if ok then Some v else None, s'))"

lemma ipc_push_client:
  "ipc_push e T cap v c = ring_push (ipc_prepare_write e T cap) ipc_store (ipc_commit_write e T cap) v c"
  by (intro ext) (simp add: ipc_push_def ring_push_def ipc_store_def split_def Let_def)

lemma ipc_call_client:
  "ipc_call e T cap cc vc =
     ring_step (\<lambda>v. ring_push (ipc_prepare_write e T cap) ipc_store (ipc_commit_write e T cap) v cc)
       (ring_pop (ipc_peek_read e T cap) (ipc_fetch T) (ipc_commit_read e) vc)"
  unfolding ipc_call_def ipc_push_client
  by (intro ext) (auto simp: ring_step_def ipc_pop_def ring_pop_def ipc_fetch_def Let_def
      split: ring_op.split prod.split)

lemma ipc_push_layout:
  assumes inv: "ipc_inv e T cap (rb, m)" and len: "length v = mt_sizeof T"
    and push: "ipc_push e T cap v c (rb, m) = (ok, rb', m')"
  shows "rb' = rb \<and> layout_matches e T cap m' (ir_hdr rb) = layout_matches e T cap m (ir_hdr rb)"
proof (cases "length (ipc_contents e T cap (rb, m)) < unat cap")
  case True
  let ?p = "ipc_slot T cap rb (load_head e m (ir_hdr rb))"
  have rb: "ipc_ok T cap rb" using inv by (simp add: ipc_inv_def)
  note committed = ipc_committed [OF rb len, where e = e and m = m]
  have "read_bytes (slot_seal e T c (assign_object (prepared e T m ?p) (?p + 16) v) ?p) (ir_hdr rb) 24 =
      read_bytes m (ir_hdr rb) 24"
    using ipc_okD(5) [OF rb, of "load_head e m (ir_hdr rb)"]
    by (intro same_outside_read [OF committed(3)]) simp
  note same = layout_frame [OF this]
  have "(ok, rb', m') = (True, ipc_commit_write e T cap c
      (rb, assign_object (prepared e T m ?p) (?p + 16) v))"
    using push ipc_prepare_room(1) [OF inv True] by (simp add: ipc_push_def)
  then show ?thesis
    unfolding committed(1) by (simp add: layout_store_cursor same)
next
  case False
  then have "length (ipc_contents e T cap (rb, m)) = unat cap" using ipc.bounded [OF inv] by simp
  with push ipc.prepare_full [OF inv] show ?thesis by (simp add: ipc_push_def)
qed

lemma ipc_pop_layout:
  "ipc_pop e T cap out c (rb, m) = (ok, v, rb', m') \<Longrightarrow>
     rb' = rb \<and> layout_matches e T cap m' (ir_hdr rb) = layout_matches e T cap m (ir_hdr rb)"
  by (auto simp: ipc_pop_def ipc_commit_read_def layout_store_cursor Let_def split: if_splits)

text \<open>A ring in use: the queue it implements, and the layout fields that a later \<open>open\<close> checks.\<close>

definition ipc_attached :: "endian \<Rightarrow> msgtype \<Rightarrow> u64 \<Rightarrow> ipc_ring \<Rightarrow> ipc_ring \<times> mem \<Rightarrow> bool" where
  "ipc_attached e T cap rb s \<longleftrightarrow>
     ipc_inv e T cap s \<and> fst s = rb \<and> layout_matches e T cap (snd s) (ir_hdr rb)"

interpretation ipc_run: simulation "ipc_attached e T cap rb" "ipc_contents e T cap" "op_ok (mt_sizeof T)"
  "ipc_call e T cap cc vc" "queue_step (unat cap)" for e T cap rb cc vc
proof (unfold_locales, goal_cases)
  case (1 s x out s')
  obtain m where s: "s = (rb, m)" using 1(1) by (cases s) (simp add: ipc_attached_def)
  have inv: "ipc_inv e T cap (rb, m)" and lay: "layout_matches e T cap m (ir_hdr rb)"
    using 1(1) by (simp_all add: s ipc_attached_def)
  have "ipc_inv e T cap s' \<and> queue_step (unat cap) (ipc_contents e T cap s) x = (out, ipc_contents e T cap s')"
    using inv 1(2,3) unfolding ipc_call_client s by (rule ipc.step_simulates)
  moreover obtain rb' m' where s': "s' = (rb', m')" by force
  have "fst s' = rb \<and> layout_matches e T cap (snd s') (ir_hdr rb)"
  proof (cases x)
    case (Push v)
    then show ?thesis
      using 1(2,3) lay ipc_push_layout [OF inv, of v cc]
      by (auto simp: s s' ipc_call_def ring_step_def split: prod.splits)
  next
    case Pop
    then show ?thesis
      using 1(3) lay ipc_pop_layout [of e T cap "[]" vc rb m]
      by (auto simp: s s' ipc_call_def ring_step_def split: prod.splits)
  qed
  ultimately show ?case by (simp add: ipc_attached_def)
qed

lemma ipc_create_attached:
  assumes "capacity_ok cap" "is_valid_message T" "mt_alignof T dvd 16"
    and "unat cap < 2 ^ 32" "ipc_kSlotSize T < 2 ^ 32"
    and "region_create sys name (of_nat (ipc_kTotalShmSize T cap)) os = (shm, os1)"
    and "region_is_valid shm" "16 dvd rg_data shm"
    and create: "ipc_create sys e T cap name m os = (rb, m', os')"
  shows "ipc_attached e T cap rb (rb, m') \<and> ipc_contents e T cap (rb, m') = [] \<and> ir_shm rb = shm
    \<and> ir_hdr rb = rg_data shm"
proof -
  let ?h = "\<lparr>ih_magic = IPC_RING_MAGIC, ih_version = 1, ih_capacity = ucast cap,
      ih_slot_size = of_nat (ipc_kSlotSize T), ih_payload_len = of_nat (mt_sizeof T),
      ih_msg_id = mt_id T, ih_reserved = 0, ih_head = 0, ih_tail = 0\<rparr>"
  have rb: "rb = \<lparr>ir_shm = shm, ir_hdr = rg_data shm, ir_slots = rg_data shm + 192, ir_producer = True\<rparr>"
    and m': "m' = store_ipc_header e m (rg_data shm) ?h"
    using create assms(6,7) by (auto simp: ipc_create_def Let_def sizeof_IpcRingHeader_def)
  have "ipc_ok T cap rb"
    using assms(1-3,7,8) by (simp add: ipc_ok_def rb region_is_valid_def)
  moreover have "unat (ucast cap :: u32) = unat cap"
    using assms(4) by (simp add: unsigned_ucast_eq take_bit_nat_eq_self_iff)
  then have "ucast (ucast cap :: u32) = cap" by (simp add: word_unat_eq_iff)
  moreover have "unat (of_nat (ipc_kSlotSize T) :: u32) = ipc_kSlotSize T"
    using assms(5) by (simp add: unat_of_nat take_bit_nat_eq_self_iff)
  ultimately show ?thesis
    using assms(2)
    by (simp add: ipc_attached_def ipc_inv_def ipc_contents_def layout_matches_def header_cursors
        load_store_header m' rb ring_drained valid_size_u32 Let_def)
qed

lemma ipc_create_cursors:
  assumes "region_create sys name (of_nat (ipc_kTotalShmSize T cap)) os = (shm, os1)" "region_is_valid shm"
    and "ipc_create sys e T cap name m os = (rb, m', os')"
  shows "load_head e m' (ir_hdr rb) = 0" "load_tail e m' (ir_hdr rb) = 0"
  using assms by (auto simp: ipc_create_def Let_def header_cursors load_store_header)

lemma ipc_open_attaches:
  assumes "region_open sys name (of_nat (ipc_kTotalShmSize T cap)) os = (shm, os1)"
    and "region_is_valid shm" "16 dvd rg_data shm" "capacity_ok cap" "is_valid_message T" "mt_alignof T dvd 16"
    and "layout_matches e T cap m (rg_data shm)"
  shows "\<exists>rb. ipc_open sys e T cap name m os = (rb, os1) \<and> ipc_ok T cap rb \<and> ir_hdr rb = rg_data shm"
  using assms
  by (simp add: ipc_open_def layout_matches_def Let_def ipc_ok_def region_is_valid_def sizeof_IpcRingHeader_def)

section \<open>Properties of the shared ring\<close>

text \<open>A ring of four \<open>PingMsg\<close> slots in a fresh mapping, its cursors about to wrap around.\<close>

definition demo_ring :: "ipc_ring \<times> mem" where
  "demo_ring = (\<lparr>ir_shm = region_default, ir_hdr = 4096, ir_slots = 4288, ir_producer = True\<rparr>,
     store_tail Little (store_head Little dirty 4096 0xFFFFFFFFFFFFFFFF) 4096 0xFFFFFFFFFFFFFFFF)"

lemma capacity_4_64: "capacity_ok (4 :: u64)"
  by (simp add: capacity_ok_def)

lemma demo_ring: "ipc_inv Little PingMsg 4 demo_ring" "ipc_contents Little PingMsg 4 demo_ring = []"
  by (simp_all add: demo_ring_def ipc_inv_def ipc_contents_def ring_drained ipc_ok_def capacity_4_64 nullptr_def)

text \<open>
  C10. Any sequence of \<open>push\<close> and \<open>pop\<close> calls on a shared ring gives exactly the results of a bounded
  first-in first-out queue of \<open>Capacity\<close> payloads, with the cursors and the slots in the bytes of
  the segment: messages come out unchanged and in order, and a push fails exactly when the queue is
  full, also when the 64-bit cursors wrap around.
\<close>

theorem ipc_refines_queue:
  assumes "ipc_inv e T cap s" "list_all (op_ok (mt_sizeof T)) xs"
    and "run (ipc_call e T cap compute_crc verify_crc) s xs = (outs, s')"
  shows "ipc_inv e T cap s' \<and>
    run (queue_step (unat cap)) (ipc_contents e T cap s) xs = (outs, ipc_contents e T cap s')"
  using assms unfolding ipc_call_client by (rule ipc.sim.run_simulates)

theorem ipc_refines_queue_witness:
  "fst (run (ipc_call Little PingMsg 4 True True) demo_ring
      [Push [1, 2, 3, 4], Push [5, 6, 7, 8], Pop, Pop, Pop]) =
    [Pushed True, Pushed True, Popped (Some [1, 2, 3, 4]), Popped (Some [5, 6, 7, 8]), Popped None]"
proof -
  let ?xs = "[Push [1, 2, 3, 4], Push [5, 6, 7, 8], Pop, Pop, Pop]"
  obtain outs s' where r: "run (ipc_call Little PingMsg 4 True True) demo_ring ?xs = (outs, s')"
    by (meson surj_pair)
  have "list_all (op_ok (mt_sizeof PingMsg)) ?xs" by simp
  from ipc_refines_queue [OF demo_ring(1) this r] show ?thesis
    unfolding r fst_conv by (simp add: demo_ring)
qed

text \<open>The segment of a ring of four \<open>PingMsg\<close> slots, created by one process and attached by another.\<close>

lemma demo_sizes: "ipc_kSlotSize PingMsg = 32" "ipc_kTotalShmSize PingMsg 4 = 320"
  by (simp_all add: ipc_kSlotSize_def ipc_kTotalShmSize_def ipc_kSlotAlign_def sizeof_Header_def
      sizeof_IpcRingHeader_def)

lemma demo_name: "normalize_posix_shm_name ''bus'' = ''/bus''"
  by (simp add: normalize_posix_shm_name_def)

lemma demo_create:
  "region_create demo_posix ''bus'' 320 \<lparr>d_fds = [], d_maps = [], d_names = []\<rparr> =
     (\<lparr>rg_name = ''bus'', rg_data = 4096, rg_size = 320, rg_creator = True, rg_fd = 1\<rparr>,
      \<lparr>d_fds = [1], d_maps = [(4096, 320)], d_names = [''/bus'']\<rparr>)"
  by (simp add: region_create_eq map_new_def demo_posix_def demo_name Let_def region_local_def region_default_def)

lemma demo_attach:
  obtains os where "region_open demo_posix ''bus'' 320 \<lparr>d_fds = [], d_maps = [(5, 0)], d_names = [''/bus'']\<rparr> =
      (\<lparr>rg_name = ''bus'', rg_data = 24576, rg_size = 320, rg_creator = False, rg_fd = 1\<rparr>, os)"
  by (simp add: region_create_eq map_existing_def demo_posix_def demo_name Let_def region_local_def region_default_def)

text \<open>
  Across processes: a producer creates the segment and uses the ring; a consumer process that maps
  the segment at an address of its own and calls \<open>open\<close> gets a ring whose contents are those of the
  abstract queue after the producer's calls, and which satisfies the invariant under which its own
  calls are correct.
\<close>

theorem ipc_consumer_sees_producer:
  assumes type: "capacity_ok cap" "is_valid_message T" "mt_alignof T dvd 16"
      "unat cap < 2 ^ 32" "ipc_kSlotSize T < 2 ^ 32"
    and mapped: "region_create sys name (of_nat (ipc_kTotalShmSize T cap)) os = (shm, os1)"
      "region_is_valid shm" "16 dvd rg_data shm"
    and create: "ipc_create sys e T cap name m os = (rb, m1, os2)"
    and calls: "list_all (op_ok (mt_sizeof T)) xs"
      "run (ipc_call e T cap compute_crc verify_crc) (rb, m1) xs = (outs, rb', m2)"
    and peer: "region_open sys' name (of_nat (ipc_kTotalShmSize T cap)) os3 = (shm', os4)"
      "region_is_valid shm'" "16 dvd rg_data shm'"
    and seg: "same_segment (ipc_kTotalShmSize T cap) m2 (rg_data shm) m3 (rg_data shm')"
  defines "consumer \<equiv> fst (ipc_open sys' e T cap name m3 os3)"
  shows "ipc_inv e T cap (consumer, m3)
    \<and> run (queue_step (unat cap)) [] xs = (outs, ipc_contents e T cap (consumer, m3))"
proof -
  have start: "ipc_attached e T cap rb (rb, m1)" "ipc_contents e T cap (rb, m1) = []" "ir_hdr rb = rg_data shm"
    using ipc_create_attached [OF type mapped create] by simp_all
  have "ipc_attached e T cap rb (rb', m2) \<and>
      run (queue_step (unat cap)) [] xs = (outs, ipc_contents e T cap (rb', m2))"
    using ipc_run.run_simulates [OF start(1) calls] start(2) by simp
  then have inv: "ipc_inv e T cap (rb, m2)" and lay: "layout_matches e T cap m2 (rg_data shm)"
    and queue: "run (queue_step (unat cap)) [] xs = (outs, ipc_contents e T cap (rb, m2))"
    using start(3) by (auto simp: ipc_attached_def)
  from lay have "layout_matches e T cap m3 (rg_data shm')"
    using same_segment_header [OF seg, of e] by (simp add: layout_matches_def)
  from ipc_open_attaches [OF peer type(1-3) this]
  have "ipc_ok T cap consumer" "ir_hdr consumer = rg_data shm'"
    by (auto simp: consumer_def)
  with ipc_relocate [OF _ inv, of m3 consumer] seg start(3) queue show ?thesis by simp
qed

theorem ipc_consumer_sees_producer_witness:
  "\<exists>m2 shift consumer. shift = (\<lambda>x. m2 (x - 20480))
     \<and> fst (run (ipc_call Little PingMsg 4 False False)
          (\<lparr>ir_shm = \<lparr>rg_name = ''bus'', rg_data = 4096, rg_size = 320, rg_creator = True, rg_fd = 1\<rparr>,
            ir_hdr = 4096, ir_slots = 4288, ir_producer = True\<rparr>,
           fst (snd (ipc_create demo_posix Little PingMsg 4 ''bus'' dirty
             \<lparr>d_fds = [], d_maps = [], d_names = []\<rparr>))) [Push [1, 2, 3, 4]]) = [Pushed True]
     \<and> consumer = fst (ipc_open demo_posix Little PingMsg 4 ''bus'' shift
          \<lparr>d_fds = [], d_maps = [(5, 0)], d_names = [''/bus'']\<rparr>)
     \<and> ipc_contents Little PingMsg 4 (consumer, shift) = [[1, 2, 3, 4]]"
proof -
  let ?os = "\<lparr>d_fds = [], d_maps = [], d_names = []\<rparr>"
  let ?os3 = "\<lparr>d_fds = [], d_maps = [(5, 0)], d_names = [''/bus'']\<rparr>"
  let ?shm = "\<lparr>rg_name = ''bus'', rg_data = 4096, rg_size = 320, rg_creator = True, rg_fd = 1\<rparr>"
  obtain os4 where shm': "region_open demo_posix ''bus'' 320 ?os3 =
      (\<lparr>rg_name = ''bus'', rg_data = 24576, rg_size = 320, rg_creator = False, rg_fd = 1\<rparr>, os4)"
    by (rule demo_attach)
  note size = demo_sizes and shm = demo_create
  obtain rb m1 os2 where c: "ipc_create demo_posix Little PingMsg 4 ''bus'' dirty ?os = (rb, m1, os2)"
    by (meson prod_cases3)
  obtain outs rb' m2 where r: "run (ipc_call Little PingMsg 4 False False) (rb, m1) [Push [1, 2, 3, 4]] = (outs, rb', m2)"
    by (meson prod_cases3)
  have rb: "rb = \<lparr>ir_shm = ?shm, ir_hdr = 4096, ir_slots = 4288, ir_producer = True\<rparr>"
    using c by (simp add: ipc_create_def size shm region_is_valid_def nullptr_def sizeof_IpcRingHeader_def Let_def)
  let ?m3 = "\<lambda>x. m2 (x - 20480)"
  have "same_segment (ipc_kTotalShmSize PingMsg 4) m2 4096 ?m3 24576"
    by (auto simp: same_segment_def intro: read_bytes_cong)
  with ipc_consumer_sees_producer [where cap = 4 and T = PingMsg, OF _ _ _ _ _ _ _ _ c _ r,
      where sys' = demo_posix and ?os3.0 = ?os3 and ?m3.0 = ?m3]
  have "ipc_contents Little PingMsg 4 (fst (ipc_open demo_posix Little PingMsg 4 ''bus'' ?m3 ?os3), ?m3) = [[1, 2, 3, 4]]
      \<and> outs = [Pushed True]"
    by (simp add: capacity_4_64 size shm shm' region_is_valid_def nullptr_def)
  with r c rb show ?thesis by auto
qed

text \<open>
  The defaulted move of a ring copies its two pointers: the moved-from ring still reports that it
  is valid, and after the new owner is closed it points into memory that is no longer mapped.
\<close>

theorem moved_from_ring_dangles:
  assumes "posix_ok sys R" "ipc_is_valid rb" "ir_hdr rb = rg_data (ir_shm rb)"
    and "ipc_move leftover rb = (owner, old)" "region_close sys (ir_shm owner) os = (closed, os')"
  shows "ipc_is_valid old \<and> ir_hdr old = rg_data (ir_shm rb)
    \<and> (rg_data (ir_shm rb), rg_size (ir_shm rb)) \<notin> maps R os'"
proof -
  have move: "owner = rb" "ir_hdr old = ir_hdr rb" "ir_slots old = ir_slots rb"
    using assms(4) by (auto simp: ipc_move_def)
  have "maps R os' = maps R (snd (region_close sys (ir_shm rb) os))"
    using assms(5) by (simp add: move)
  then show ?thesis
    using assms(2,3) by (auto simp: ipc_is_valid_def move region_close_resources [OF assms(1)])
qed

theorem moved_from_ring_dangles_witness:
  "ipc_is_valid (snd (ipc_move [] \<lparr>ir_shm = \<lparr>rg_name = ''bus'', rg_data = 4096, rg_size = 320,
     rg_creator = True, rg_fd = 1\<rparr>, ir_hdr = 4096, ir_slots = 4288, ir_producer = True\<rparr>))"
proof -
  let ?rb = "\<lparr>ir_shm = \<lparr>rg_name = ''bus'', rg_data = 4096, rg_size = 320,
     rg_creator = True, rg_fd = 1\<rparr>, ir_hdr = 4096, ir_slots = 4288, ir_producer = True\<rparr>"
  obtain owner old where mv: "ipc_move [] ?rb = (owner, old)" by (meson surj_pair)
  obtain closed os' where cl: "region_close demo_posix (ir_shm owner) \<lparr>d_fds = [1], d_maps = [(4096, 320)],
      d_names = [''/bus'']\<rparr> = (closed, os')" by (meson surj_pair)
  from moved_from_ring_dangles [OF demo_posix_ok _ _ mv cl] mv show ?thesis
    by (simp add: ipc_is_valid_def nullptr_def)
qed

end
