(* ===== verification/Ipc_Shared.thy ===== *)
theory Ipc_Shared
  imports Ipc_Ring_Buffer
begin

text \<open>
  The inter-process ring of \<open>include/sinew/ipc_ring_buffer.hpp\<close> in use by two processes, as in
  \<open>examples/ipc_telemetry.cpp\<close>. Each process has a memory of its own, an \<open>IpcRingBuffer\<close> object of
  its own, and the segment mapped at an address of its own; \<open>MAP_SHARED\<close> makes what one process
  writes to the segment appear in the other's mapping. The producer calls the writing half of the
  ring, the consumer the reading half.
\<close>

section \<open>Two processes\<close>

record processes =
  pro_ring :: ipc_ring
  pro_mem :: mem
  con_ring :: ipc_ring
  con_mem :: mem

text \<open>The segment as one process left it, in the mapping of the other.\<close>

definition to_consumer :: "nat \<Rightarrow> processes \<Rightarrow> processes" where
  "to_consumer n s = s\<lparr>con_mem := write_bytes (con_mem s) (ir_hdr (con_ring s))
     (read_bytes (pro_mem s) (ir_hdr (pro_ring s)) n)\<rparr>"

definition to_producer :: "nat \<Rightarrow> processes \<Rightarrow> processes" where
  "to_producer n s = s\<lparr>pro_mem := write_bytes (pro_mem s) (ir_hdr (pro_ring s))
     (read_bytes (con_mem s) (ir_hdr (con_ring s)) n)\<rparr>"

definition shared_prepare_write :: "endian \<Rightarrow> msgtype \<Rightarrow> u64 \<Rightarrow> processes \<Rightarrow> ptr \<times> processes" where
  "shared_prepare_write e T cap s =
     (case ipc_prepare_write e T cap (pro_ring s, pro_mem s) of (slot, rb, m) \<Rightarrow>
        if slot = nullptr then (slot, s)
        else (slot, to_consumer (ipc_kTotalShmSize T cap) (s\<lparr>pro_ring := rb, pro_mem := m\<rparr>)))"

definition shared_slot_value :: "msgtype \<Rightarrow> processes \<Rightarrow> ptr \<Rightarrow> bytes" where
  "shared_slot_value T s slot = ipc_fetch T (pro_ring s, pro_mem s) slot"

definition shared_store :: "msgtype \<Rightarrow> u64 \<Rightarrow> processes \<Rightarrow> ptr \<Rightarrow> bytes \<Rightarrow> processes" where
  "shared_store T cap s slot v =
     (case ipc_store (pro_ring s, pro_mem s) slot v of (rb, m) \<Rightarrow>
        to_consumer (ipc_kTotalShmSize T cap) (s\<lparr>pro_ring := rb, pro_mem := m\<rparr>))"

definition shared_commit_write :: "endian \<Rightarrow> msgtype \<Rightarrow> u64 \<Rightarrow> bool \<Rightarrow> processes \<Rightarrow> processes" where
  "shared_commit_write e T cap compute_crc s =
     (case ipc_commit_write e T cap compute_crc (pro_ring s, pro_mem s) of (rb, m) \<Rightarrow>
        to_consumer (ipc_kTotalShmSize T cap) (s\<lparr>pro_ring := rb, pro_mem := m\<rparr>))"

definition shared_peek_read :: "endian \<Rightarrow> msgtype \<Rightarrow> u64 \<Rightarrow> bool \<Rightarrow> processes \<Rightarrow> ptr" where
  "shared_peek_read e T cap verify_crc s = ipc_peek_read e T cap verify_crc (con_ring s, con_mem s)"

definition shared_fetch :: "msgtype \<Rightarrow> processes \<Rightarrow> ptr \<Rightarrow> bytes" where
  "shared_fetch T s slot = ipc_fetch T (con_ring s, con_mem s) slot"

definition shared_commit_read :: "endian \<Rightarrow> msgtype \<Rightarrow> u64 \<Rightarrow> processes \<Rightarrow> processes" where
  "shared_commit_read e T cap s =
     (case ipc_commit_read e (con_ring s, con_mem s) of (rb, m) \<Rightarrow>
        to_producer (ipc_kTotalShmSize T cap) (s\<lparr>con_ring := rb, con_mem := m\<rparr>))"

section \<open>Invariant and contents\<close>

definition shared_inv :: "endian \<Rightarrow> msgtype \<Rightarrow> u64 \<Rightarrow> processes \<Rightarrow> bool" where
  "shared_inv e T cap s \<longleftrightarrow> ipc_inv e T cap (pro_ring s, pro_mem s) \<and> ipc_ok T cap (con_ring s)
     \<and> same_segment (ipc_kTotalShmSize T cap) (pro_mem s) (ir_hdr (pro_ring s)) (con_mem s) (ir_hdr (con_ring s))"

definition shared_contents :: "endian \<Rightarrow> msgtype \<Rightarrow> u64 \<Rightarrow> processes \<Rightarrow> bytes list" where
  "shared_contents e T cap s = ipc_contents e T cap (pro_ring s, pro_mem s)"

lemma to_consumer_sel [simp]:
  "pro_ring (to_consumer n s) = pro_ring s" "pro_mem (to_consumer n s) = pro_mem s"
  "con_ring (to_consumer n s) = con_ring s"
  "same_segment n (pro_mem s) p (con_mem (to_consumer n s)) (ir_hdr (con_ring s))
     \<longleftrightarrow> read_bytes (pro_mem s) p n = read_bytes (pro_mem s) (ir_hdr (pro_ring s)) n"
  by (simp_all add: to_consumer_def same_segment_def)

lemma to_producer_sel [simp]:
  "pro_ring (to_producer n s) = pro_ring s" "con_mem (to_producer n s) = con_mem s"
  "con_ring (to_producer n s) = con_ring s"
  "same_segment n (pro_mem (to_producer n s)) (ir_hdr (pro_ring s)) (con_mem s) p
     \<longleftrightarrow> read_bytes (con_mem s) (ir_hdr (con_ring s)) n = read_bytes (con_mem s) p n"
  by (simp_all add: to_producer_def same_segment_def)

lemma same_segment_sym: "same_segment n m p m' p' \<Longrightarrow> same_segment n m' p' m p"
  by (simp add: same_segment_def)

text \<open>What the consumer sees is what the producer left.\<close>

lemma shared_consumer_view:
  assumes "shared_inv e T cap s"
  shows "ipc_inv e T cap (con_ring s, con_mem s)"
    and "ipc_contents e T cap (con_ring s, con_mem s) = shared_contents e T cap s"
  using assms ipc_relocate [of T cap "pro_mem s" "pro_ring s" "con_mem s" "con_ring s" e]
  by (simp_all add: shared_inv_def shared_contents_def)

text \<open>A step of the producer, and one of the consumer, on its own ring object and memory.\<close>

lemma shared_after_producer:
  assumes "ipc_inv e T cap (rb, m)" "ipc_ok T cap (con_ring s)"
  defines "s' \<equiv> to_consumer (ipc_kTotalShmSize T cap) (s\<lparr>pro_ring := rb, pro_mem := m\<rparr>)"
  shows "shared_inv e T cap s' \<and> shared_contents e T cap s' = ipc_contents e T cap (rb, m)"
  using assms(1,2) to_consumer_sel(4) [of _ "s\<lparr>pro_ring := rb, pro_mem := m\<rparr>"]
  by (simp add: shared_inv_def shared_contents_def s'_def)

lemma shared_after_consumer:
  assumes inv: "ipc_inv e T cap (rb, m)" and ok: "ipc_ok T cap (pro_ring s)"
  defines "s' \<equiv> to_producer (ipc_kTotalShmSize T cap) (s\<lparr>con_ring := rb, con_mem := m\<rparr>)"
  shows "shared_inv e T cap s' \<and> shared_contents e T cap s' = ipc_contents e T cap (rb, m)"
proof -
  let ?n = "ipc_kTotalShmSize T cap"
  have seg: "same_segment ?n (pro_mem s') (ir_hdr (pro_ring s)) m (ir_hdr rb)"
    using to_producer_sel(4) [of ?n "s\<lparr>con_ring := rb, con_mem := m\<rparr>"] by (simp add: s'_def)
  have "ipc_ok T cap rb" using inv by (simp add: ipc_inv_def)
  with seg ipc_relocate [OF same_segment_sym [OF seg] inv ok] show ?thesis
    by (simp add: shared_inv_def shared_contents_def s'_def)
qed

section \<open>Two processes implement the interface\<close>

interpretation shared: message_ring "shared_inv e T cap" "shared_contents e T cap"
  "shared_peek_read e T cap" "shared_fetch T" "shared_commit_read e T cap"
  "unat cap" "mt_sizeof T" "mt_construct T (replicate (mt_sizeof T) 0)"
  "shared_prepare_write e T cap" "shared_slot_value T" "shared_store T cap" "shared_commit_write e T cap"
  for e T cap
proof (unfold_locales, goal_cases)
  case (1 s c)
  with ipc.peek_empty [OF shared_consumer_view(1) [OF 1(1)]] shared_consumer_view(2) [OF 1(1)] show ?case
    by (simp add: shared_peek_read_def)
next
  case (2 s v q c)
  with ipc.peek_front [OF shared_consumer_view(1) [OF 2(1)], of v q c] shared_consumer_view(2) [OF 2(1)] show ?case
    by (simp add: shared_peek_read_def shared_fetch_def)
next
  case (3 s v q)
  obtain rb m where r: "ipc_commit_read e (con_ring s, con_mem s) = (rb, m)" by force
  have "ipc_inv e T cap (rb, m) \<and> ipc_contents e T cap (rb, m) = q"
    using ipc.read_front [OF shared_consumer_view(1) [OF 3(1)], of v q] shared_consumer_view(2) [OF 3(1)] 3(2)
    by (simp add: r)
  with shared_after_consumer [of e T cap rb m s] 3(1) show ?case
    by (simp add: shared_commit_read_def r shared_inv_def ipc_inv_def)
next
  case (4 s)
  then show ?case by (simp add: shared_inv_def shared_contents_def ipc.bounded)
next
  case (5 s)
  then show ?case
    using ipc.prepare_full [of e T cap "(pro_ring s, pro_mem s)"]
    by (simp add: shared_prepare_write_def shared_contents_def shared_inv_def)
next
  case (6 s slot s1)
  obtain p rb m where r: "ipc_prepare_write e T cap (pro_ring s, pro_mem s) = (p, rb, m)" by (meson prod_cases3)
  have room: "p \<noteq> nullptr \<and> ipc_inv e T cap (rb, m)
      \<and> ipc_contents e T cap (rb, m) = shared_contents e T cap s
      \<and> ipc_fetch T (rb, m) p = mt_construct T (replicate (mt_sizeof T) 0)"
    using ipc.prepare_room [OF _ _ r] 6(1,2) by (simp add: shared_inv_def shared_contents_def)
  with shared_after_producer [of e T cap rb m s] 6(1,3) show ?case
    by (auto simp: shared_prepare_write_def r shared_inv_def shared_slot_value_def)
next
  case (7 s slot s1 v c)
  obtain p rb m where r: "ipc_prepare_write e T cap (pro_ring s, pro_mem s) = (p, rb, m)" by (meson prod_cases3)
  have pre: "ipc_inv e T cap (pro_ring s, pro_mem s)"
    "length (ipc_contents e T cap (pro_ring s, pro_mem s)) < unat cap"
    using 7(1,2) by (simp_all add: shared_inv_def shared_contents_def)
  have "p \<noteq> nullptr" using ipc.prepare_room [OF pre r] by simp
  with 7(3) have s1: "slot = p" "pro_ring s1 = rb" "pro_mem s1 = m" "con_ring s1 = con_ring s"
    by (auto simp: shared_prepare_write_def r)
  obtain rb1 m1 where st: "ipc_store (rb, m) p v = (rb1, m1)" by force
  obtain rb2 m2 where co: "ipc_commit_write e T cap c (rb1, m1) = (rb2, m2)" by force
  have "ipc_inv e T cap (rb2, m2) \<and> ipc_contents e T cap (rb2, m2) = shared_contents e T cap s @ [v]"
    using ipc.commit_filled [OF pre r 7(4), of c] by (simp add: st co shared_contents_def)
  with shared_after_producer [of e T cap rb2 m2 "shared_store T cap s1 p v"] 7(1) s1 show ?case
    by (simp add: shared_commit_write_def shared_store_def st co shared_inv_def)
qed

section \<open>Properties of the ring between two processes\<close>

text \<open>A call by the process that may make it: \<open>push\<close> by the producer, \<open>pop\<close> by the consumer.\<close>

definition shared_call ::
  "endian \<Rightarrow> msgtype \<Rightarrow> u64 \<Rightarrow> bool \<Rightarrow> bool \<Rightarrow> processes \<Rightarrow> ring_op \<Rightarrow> ring_out \<times> processes" where
  "shared_call e T cap compute_crc verify_crc =
     ring_step (\<lambda>v. ring_push (shared_prepare_write e T cap) (shared_store T cap) (shared_commit_write e T cap) v compute_crc)
       (ring_pop (shared_peek_read e T cap) (shared_fetch T) (shared_commit_read e T cap) verify_crc)"

text \<open>The producer creates the segment, the consumer opens it.\<close>

lemma shared_start:
  assumes type: "capacity_ok cap" "is_valid_message T" "mt_alignof T dvd 16"
      "unat cap < 2 ^ 32" "ipc_kSlotSize T < 2 ^ 32"
    and mapped: "region_create sys name (of_nat (ipc_kTotalShmSize T cap)) os = (shm, os1)"
      "region_is_valid shm" "16 dvd rg_data shm"
    and create: "ipc_create sys e T cap name m os = (producer, m1, os2)"
    and peer: "region_open sys' name (of_nat (ipc_kTotalShmSize T cap)) os3 = (shm', os4)"
      "region_is_valid shm'" "16 dvd rg_data shm'"
    and seg: "same_segment (ipc_kTotalShmSize T cap) m1 (rg_data shm) m3 (rg_data shm')"
  defines "s \<equiv> \<lparr>pro_ring = producer, pro_mem = m1,
      con_ring = fst (ipc_open sys' e T cap name m3 os3), con_mem = m3\<rparr>"
  shows "shared_inv e T cap s \<and> shared_contents e T cap s = []"
proof -
  have start: "ipc_attached e T cap producer (producer, m1)" "ipc_contents e T cap (producer, m1) = []"
    "ir_hdr producer = rg_data shm"
    using ipc_create_attached [OF type mapped create] by simp_all
  then have "layout_matches e T cap m3 (rg_data shm')"
    using same_segment_header [OF seg, of e] by (simp add: ipc_attached_def layout_matches_def)
  from ipc_open_attaches [OF peer type(1-3) this] start seg show ?thesis
    by (auto simp: shared_inv_def shared_contents_def ipc_attached_def s_def)
qed

text \<open>
  C7. Two processes over one segment, each with its own mapping: once the producer has created the
  ring and the consumer has opened it, every interleaving of pushes by the one and pops by the other
  gives the results of one bounded first-in first-out queue.
\<close>

theorem shared_refines_queue:
  assumes type: "capacity_ok cap" "is_valid_message T" "mt_alignof T dvd 16"
      "unat cap < 2 ^ 32" "ipc_kSlotSize T < 2 ^ 32"
    and mapped: "region_create sys name (of_nat (ipc_kTotalShmSize T cap)) os = (shm, os1)"
      "region_is_valid shm" "16 dvd rg_data shm"
    and create: "ipc_create sys e T cap name m os = (producer, m1, os2)"
    and peer: "region_open sys' name (of_nat (ipc_kTotalShmSize T cap)) os3 = (shm', os4)"
      "region_is_valid shm'" "16 dvd rg_data shm'"
    and seg: "same_segment (ipc_kTotalShmSize T cap) m1 (rg_data shm) m3 (rg_data shm')"
    and calls: "list_all (op_ok (mt_sizeof T)) xs"
      "run (shared_call e T cap compute_crc verify_crc)
         \<lparr>pro_ring = producer, pro_mem = m1, con_ring = fst (ipc_open sys' e T cap name m3 os3), con_mem = m3\<rparr> xs
       = (outs, s')"
  shows "run (queue_step (unat cap)) [] xs = (outs, shared_contents e T cap s')"
proof -
  note start = shared_start [OF type mapped create peer seg]
  from shared.sim.run_simulates [OF conjunct1 [OF start] calls(1) calls(2) [unfolded shared_call_def]] start
  show ?thesis by simp
qed

theorem shared_refines_queue_witness:
  "\<exists>producer m1 os2 consumer. ipc_create demo_posix Little PingMsg 4 ''bus'' dirty
       \<lparr>d_fds = [], d_maps = [], d_names = []\<rparr> = (producer, m1, os2)
     \<and> consumer = fst (ipc_open demo_posix Little PingMsg 4 ''bus'' (\<lambda>x. m1 (x - 20480))
          \<lparr>d_fds = [], d_maps = [(5, 0)], d_names = [''/bus'']\<rparr>)
     \<and> fst (run (shared_call Little PingMsg 4 True True)
         \<lparr>pro_ring = producer, pro_mem = m1, con_ring = consumer, con_mem = (\<lambda>x. m1 (x - 20480))\<rparr>
         [Push [1, 2, 3, 4], Push [5, 6, 7, 8], Pop, Push [9, 9, 9, 9], Pop, Pop, Pop]) =
       [Pushed True, Pushed True, Popped (Some [1, 2, 3, 4]), Pushed True, Popped (Some [5, 6, 7, 8]),
        Popped (Some [9, 9, 9, 9]), Popped None]"
proof -
  let ?os = "\<lparr>d_fds = [], d_maps = [], d_names = []\<rparr>" and ?os3 = "\<lparr>d_fds = [], d_maps = [(5, 0)], d_names = [''/bus'']\<rparr>"
  let ?xs = "[Push [1, 2, 3, 4], Push [5, 6, 7, 8], Pop, Push [9, 9, 9, 9], Pop, Pop, Pop]"
  obtain os4 where shm': "region_open demo_posix ''bus'' 320 ?os3 =
      (\<lparr>rg_name = ''bus'', rg_data = 24576, rg_size = 320, rg_creator = False, rg_fd = 1\<rparr>, os4)"
    by (rule demo_attach)
  obtain producer m1 os2 where c: "ipc_create demo_posix Little PingMsg 4 ''bus'' dirty ?os = (producer, m1, os2)"
    by (meson prod_cases3)
  let ?m3 = "\<lambda>x. m1 (x - 20480)"
  obtain outs s' where r: "run (shared_call Little PingMsg 4 True True)
      \<lparr>pro_ring = producer, pro_mem = m1,
       con_ring = fst (ipc_open demo_posix Little PingMsg 4 ''bus'' ?m3 ?os3), con_mem = ?m3\<rparr> ?xs = (outs, s')"
    by (meson surj_pair)
  have "same_segment 320 m1 4096 ?m3 24576"
    by (auto simp: same_segment_def intro: read_bytes_cong)
  with shared_refines_queue [where cap = 4 and T = PingMsg, OF _ _ _ _ _ _ _ _ c _ _ _ _ _ r]
  have "run (queue_step 4) [] ?xs = (outs, shared_contents Little PingMsg 4 s')"
    by (simp add: capacity_4_64 demo_sizes demo_create shm' region_is_valid_def nullptr_def)
  then have "outs = [Pushed True, Pushed True, Popped (Some [1, 2, 3, 4]), Pushed True, Popped (Some [5, 6, 7, 8]),
        Popped (Some [9, 9, 9, 9]), Popped None]"
    by simp
  with c r show ?thesis by auto
qed

end
