(* ===== verification/Ring_Buffer.thy ===== *)
theory Ring_Buffer
  imports Wire Ring_Interface
begin

text \<open>
  Model of \<open>include/sinew/ring_buffer.hpp\<close>: the single-producer single-consumer ring
  \<open>SpscRingBuffer<T, Capacity>\<close>. The cursors have the width of \<open>size_t\<close> on the target, the type
  parameter \<open>'w\<close>: 64 bits on a server, 32 bits on a microcontroller. The object is a record of
  its cursors and the address of its slots, and the slots live in the memory. Operations here
  are the calls of one thread; their interleaving by two threads is the subject of
  \<open>Spsc_Protocol\<close>.
\<close>

section \<open>The ring\<close>

record 'c spsc =
  rb_head :: 'c
  rb_tail :: 'c
  rb_slots :: ptr

definition kSlotSize :: "msgtype \<Rightarrow> nat" where
  "kSlotSize T = sizeof_Header + mt_sizeof T"

definition kSlotAlign :: "msgtype \<Rightarrow> nat" where
  "kSlotAlign T = (if mt_alignof T > 1 then mt_alignof T else 1)"

text \<open>\<open>sizeof(Slot)\<close>: the buffer, padded to the alignment of the struct.\<close>

definition sizeof_Slot :: "msgtype \<Rightarrow> nat" where
  "sizeof_Slot T = ((kSlotSize T + kSlotAlign T - 1) div kSlotAlign T) * kSlotAlign T"

definition spsc_new :: "ptr \<Rightarrow> 'w::len word spsc" where
  "spsc_new slots = \<lparr>rb_head = 0, rb_tail = 0, rb_slots = slots\<rparr>"

definition spsc_capacity :: "'w::len word \<Rightarrow> 'w word" where
  "spsc_capacity cap = cap"

definition spsc_size :: "'w::len word \<Rightarrow> 'w word spsc \<Rightarrow> 'w word" where
  "spsc_size cap rb =
     (let head = rb_head rb; tail = rb_tail rb
      in if tail \<le> head then head - tail else cap + head - tail)"

definition spsc_empty :: "'w::len word spsc \<Rightarrow> bool" where
  "spsc_empty rb \<longleftrightarrow> rb_head rb = rb_tail rb"

definition spsc_full :: "'w::len word \<Rightarrow> 'w word spsc \<Rightarrow> bool" where
  "spsc_full cap rb \<longleftrightarrow> cap \<le> rb_head rb - rb_tail rb"

definition spsc_slot :: "msgtype \<Rightarrow> 'w::len word \<Rightarrow> 'w word spsc \<Rightarrow> 'w word \<Rightarrow> ptr" where
  "spsc_slot T cap rb i = ring_slot (rb_slots rb) (sizeof_Slot T) cap i"

subsection \<open>Producer\<close>

definition spsc_prepare_write ::
  "endian \<Rightarrow> msgtype \<Rightarrow> 'w::len word \<Rightarrow> 'w word spsc \<times> mem \<Rightarrow> ptr \<times> 'w word spsc \<times> mem" where
  "spsc_prepare_write e T cap = (\<lambda>(rb, m).
     let head = rb_head rb; tail = rb_tail rb in
     if cap \<le> head - tail then (nullptr, rb, m)
     else let (slot, m) = prepare e T m (spsc_slot T cap rb head) (kSlotSize T) in (slot, rb, m))"

definition spsc_commit_write ::
  "endian \<Rightarrow> msgtype \<Rightarrow> 'w::len word \<Rightarrow> bool \<Rightarrow> 'w word spsc \<times> mem \<Rightarrow> 'w word spsc \<times> mem" where
  "spsc_commit_write e T cap compute_crc = (\<lambda>(rb, m).
     let head = rb_head rb;
         payload = spsc_slot T cap rb head + sizeof_Header;
         m = snd (finalize e T m payload compute_crc)
     in (rb\<lparr>rb_head := head + 1\<rparr>, m))"

definition spsc_push ::
  "endian \<Rightarrow> msgtype \<Rightarrow> 'w::len word \<Rightarrow> bytes \<Rightarrow> bool \<Rightarrow> 'w word spsc \<times> mem \<Rightarrow> bool \<times> 'w word spsc \<times> mem"
where
  "spsc_push e T cap val compute_crc s =
     (let (slot, rb, m) = spsc_prepare_write e T cap s in
      if slot = nullptr then (False, rb, m)
      else (True, spsc_commit_write e T cap compute_crc (rb, assign_object m slot val)))"

subsection \<open>Consumer\<close>

definition spsc_peek_read ::
  "endian \<Rightarrow> msgtype \<Rightarrow> 'w::len word \<Rightarrow> bool \<Rightarrow> 'w word spsc \<times> mem \<Rightarrow> ptr" where
  "spsc_peek_read e T cap verify_crc = (\<lambda>(rb, m).
     let tail = rb_tail rb; head = rb_head rb in
     if tail = head then nullptr
     else view e T m (spsc_slot T cap rb tail) (kSlotSize T) verify_crc)"

definition spsc_commit_read :: "'w::len word spsc \<times> mem \<Rightarrow> 'w word spsc \<times> mem" where
  "spsc_commit_read = (\<lambda>(rb, m). let tail = rb_tail rb in (rb\<lparr>rb_tail := tail + 1\<rparr>, m))"

text \<open>\<open>pop(out_value)\<close> and \<open>consume(func)\<close>: the out-parameter, and the state of the callback.\<close>

definition spsc_pop ::
  "endian \<Rightarrow> msgtype \<Rightarrow> 'w::len word \<Rightarrow> bytes \<Rightarrow> bool \<Rightarrow> 'w word spsc \<times> mem
     \<Rightarrow> bool \<times> bytes \<times> 'w word spsc \<times> mem" where
  "spsc_pop e T cap out_value verify_crc s =
     (let item = spsc_peek_read e T cap verify_crc s in
      if item = nullptr then (False, out_value, s)
      else (True, read_bytes (snd s) item (mt_sizeof T), spsc_commit_read s))"

definition spsc_consume ::
  "endian \<Rightarrow> msgtype \<Rightarrow> 'w::len word \<Rightarrow> (bytes \<Rightarrow> 'a \<Rightarrow> 'a) \<Rightarrow> 'a \<Rightarrow> bool \<Rightarrow> 'w word spsc \<times> mem
     \<Rightarrow> bool \<times> 'a \<times> 'w word spsc \<times> mem" where
  "spsc_consume e T cap func a verify_crc s =
     (let item = spsc_peek_read e T cap verify_crc s in
      if item = nullptr then (False, a, s)
      else (True, func (read_bytes (snd s) item (mt_sizeof T)) a, spsc_commit_read s))"

section \<open>Geometry of the slots\<close>

lemma round_up_ge: "0 < a \<Longrightarrow> n \<le> ((n + a - 1) div a) * a" for n a :: nat
proof -
  assume "0 < a"
  have "(n + a - 1) div a * a + (n + a - 1) mod a = n + a - 1" by simp
  moreover have "(n + a - 1) mod a < a" using \<open>0 < a\<close> by simp
  ultimately show ?thesis using \<open>0 < a\<close> by linarith
qed

lemma message_fits_slot: "message_size T \<le> sizeof_Slot T"
  using round_up_ge [of "kSlotAlign T" "kSlotSize T"]
  by (simp add: sizeof_Slot_def kSlotSize_def kSlotAlign_def message_size_def)

lemma message_fits_buffer [simp]: "message_size T \<le> kSlotSize T"
  by (simp add: kSlotSize_def message_size_def)

text \<open>
  A slot array as the compiler places it (at the alignment of \<open>Slot\<close>) whose payloads can be
  aligned: the payload lies 16 bytes into the slot, so \<open>alignof(T)\<close> must divide 16.
\<close>

definition slots_ok :: "msgtype \<Rightarrow> ptr \<Rightarrow> bool" where
  "slots_ok T base \<longleftrightarrow> is_valid_message T \<and> base \<noteq> nullptr \<and> mt_alignof T dvd base
     \<and> mt_alignof T dvd 16"

lemma align_dvd_Slot: "is_valid_message T \<Longrightarrow> mt_alignof T dvd sizeof_Slot T"
  by (auto simp: sizeof_Slot_def kSlotAlign_def is_valid_message_def)

lemma fits_slot: "slots_ok T base \<Longrightarrow> fits T (ring_slot base (sizeof_Slot T) cap i)"
  by (auto simp: slots_ok_def fits_def ring_slot_def nullptr_def align_dvd_Slot)

section \<open>Invariant and contents\<close>

definition spsc_view :: "endian \<Rightarrow> msgtype \<Rightarrow> 'w::len word \<Rightarrow> 'w word spsc \<times> mem \<Rightarrow> bytes option list" where
  "spsc_view e T cap = (\<lambda>(rb, m).
     ring_view (slot_look e T True) (spsc_slot T cap rb) (rb_head rb) (rb_tail rb) m)"

definition spsc_inv :: "endian \<Rightarrow> msgtype \<Rightarrow> 'w::len word \<Rightarrow> 'w word spsc \<times> mem \<Rightarrow> bool" where
  "spsc_inv e T cap s \<longleftrightarrow> capacity_ok cap \<and> slots_ok T (rb_slots (fst s))
     \<and> unat (rb_head (fst s) - rb_tail (fst s)) \<le> unat cap \<and> None \<notin> set (spsc_view e T cap s)"

definition spsc_contents :: "endian \<Rightarrow> msgtype \<Rightarrow> 'w::len word \<Rightarrow> 'w word spsc \<times> mem \<Rightarrow> bytes list" where
  "spsc_contents e T cap s = map the (spsc_view e T cap s)"

lemma length_spsc_view [simp]: "length (spsc_view e T cap (rb, m)) = unat (rb_head rb - rb_tail rb)"
  by (simp add: spsc_view_def)

lemma length_spsc_contents: "length (spsc_contents e T cap (rb, m)) = unat (rb_head rb - rb_tail rb)"
  by (simp add: spsc_contents_def)

lemma spsc_invD:
  assumes "spsc_inv e T cap (rb, m)"
  shows "capacity_ok cap" "slots_ok T (rb_slots rb)" "unat (rb_head rb - rb_tail rb) \<le> unat cap"
    "is_valid_message T" "fits T (spsc_slot T cap rb i)"
  using assms by (auto simp: spsc_inv_def fits_slot spsc_slot_def slots_ok_def)

lemma spsc_view_empty: "spsc_view e T cap (rb, m) = [] \<longleftrightarrow> rb_head rb = rb_tail rb"
  by (simp add: spsc_view_def ring_view_empty)

lemma spsc_view_pop:
  "rb_head rb \<noteq> rb_tail rb \<Longrightarrow>
     spsc_view e T cap (rb, m) = slot_look e T True m (spsc_slot T cap rb (rb_tail rb))
       # spsc_view e T cap (rb\<lparr>rb_tail := rb_tail rb + 1\<rparr>, m)"
  unfolding spsc_view_def spsc_slot_def by (simp add: ring_view_pop)

lemma spsc_inv_new: 
  "capacity_ok cap \<Longrightarrow> slots_ok T base \<Longrightarrow>
     spsc_inv e T cap (spsc_new base, m) \<and> spsc_contents e T cap (spsc_new base, m) = []"
  by (simp add: spsc_inv_def spsc_contents_def spsc_view_def spsc_new_def)

text \<open>Guards of the code, in terms of the number of messages.\<close>

lemma spsc_full_guard: "cap \<le> rb_head rb - rb_tail rb \<longleftrightarrow> unat cap \<le> length (spsc_contents e T cap (rb, m))"
  by (simp add: length_spsc_contents word_le_nat_alt)

lemma spsc_front:
  assumes inv: "spsc_inv e T cap (rb, m)" and ne: "spsc_contents e T cap (rb, m) = v # q"
  shows "rb_head rb \<noteq> rb_tail rb" "slot_look e T c m (spsc_slot T cap rb (rb_tail rb)) = Some v"
    "spsc_inv e T cap (rb\<lparr>rb_tail := rb_tail rb + 1\<rparr>, m)"
    "spsc_contents e T cap (rb\<lparr>rb_tail := rb_tail rb + 1\<rparr>, m) = q"
proof -
  show neq: "rb_head rb \<noteq> rb_tail rb"
    using ne by (auto simp: spsc_contents_def spsc_view_empty [THEN iffD2])
  note pop = spsc_view_pop [OF neq, of e T cap m]
  have "None \<notin> set (spsc_view e T cap (rb, m))" using inv unfolding spsc_inv_def by blast
  then have look: "slot_look e T True m (spsc_slot T cap rb (rb_tail rb)) \<noteq> None"
    and rest: "None \<notin> set (spsc_view e T cap (rb\<lparr>rb_tail := rb_tail rb + 1\<rparr>, m))"
    unfolding pop by (simp_all add: eq_commute)
  from look obtain v' where v': "slot_look e T True m (spsc_slot T cap rb (rb_tail rb)) = Some v'"
    by blast
  have "spsc_contents e T cap (rb, m) =
      v' # spsc_contents e T cap (rb\<lparr>rb_tail := rb_tail rb + 1\<rparr>, m)"
    by (simp only: spsc_contents_def pop v' list.map option.sel)
  with ne have "v' = v" and q: "spsc_contents e T cap (rb\<lparr>rb_tail := rb_tail rb + 1\<rparr>, m) = q"
    by simp_all
  from v' show "slot_look e T c m (spsc_slot T cap rb (rb_tail rb)) = Some v"
    unfolding \<open>v' = v\<close> by (rule slot_look_weaken)
  show "spsc_contents e T cap (rb\<lparr>rb_tail := rb_tail rb + 1\<rparr>, m) = q" by (rule q)
  show "spsc_inv e T cap (rb\<lparr>rb_tail := rb_tail rb + 1\<rparr>, m)"
    using inv rest unat_advance_tail [OF neq] unfolding spsc_inv_def by simp
qed

section \<open>The writer's side\<close>

lemma spsc_slot_fun: "spsc_slot T cap rb = ring_slot (rb_slots rb) (sizeof_Slot T) cap"
  by (rule ext) (simp add: spsc_slot_def)

lemma spsc_slot_head [simp]: "spsc_slot T cap (rb\<lparr>rb_head := h\<rparr>) = spsc_slot T cap rb"
  by (simp add: spsc_slot_fun)

lemma spsc_prepare_room:
  assumes inv: "spsc_inv e T cap (rb, m)" and room: "unat (rb_head rb - rb_tail rb) < unat cap"
  shows "spsc_prepare_write e T cap (rb, m) =
    (spsc_slot T cap rb (rb_head rb) + 16, rb, prepared e T m (spsc_slot T cap rb (rb_head rb)))"
  using spsc_invD(5) [OF inv, of "rb_head rb"] room
  by (simp add: spsc_prepare_write_def Let_def word_le_nat_alt)

lemma spsc_prepare_keeps:
  assumes inv: "spsc_inv e T cap (rb, m)" and room: "unat (rb_head rb - rb_tail rb) < unat cap"
    and frame: "same_outside (spsc_slot T cap rb (rb_head rb)) (message_size T) m m'"
  shows "spsc_view e T cap (rb, m') = spsc_view e T cap (rb, m)"
  using wire.ring_view_frame [OF spsc_invD(1) [OF inv] message_fits_slot room, where base = "rb_slots rb"]
    frame
  by (simp add: spsc_view_def spsc_slot_fun)

lemma spsc_commit_filled:
  assumes inv: "spsc_inv e T cap (rb, m)" and room: "unat (rb_head rb - rb_tail rb) < unat cap"
    and frame: "same_outside (spsc_slot T cap rb (rb_head rb)) (message_size T) m m1"
    and ready: "stamped e T m1 (spsc_slot T cap rb (rb_head rb))"
  defines "v \<equiv> read_bytes m1 (spsc_slot T cap rb (rb_head rb) + 16) (mt_sizeof T)"
  shows "spsc_inv e T cap (spsc_commit_write e T cap c (rb, m1))"
    and "spsc_contents e T cap (spsc_commit_write e T cap c (rb, m1)) =
      spsc_contents e T cap (rb, m) @ [v]"
proof -
  let ?p = "spsc_slot T cap rb (rb_head rb)" and ?rb = "rb\<lparr>rb_head := rb_head rb + 1\<rparr>"
  let ?m = "slot_seal e T c m1 ?p"
  have commit: "spsc_commit_write e T cap c (rb, m1) = (?rb, ?m)"
    by (simp add: spsc_commit_write_def slot_seal_def sizeof_Header_def Let_def)
  have usable: "fits T ?p" using inv by (rule spsc_invD)
  have "same_outside ?p (message_size T) m ?m"
    using frame wire.seal_frame [OF usable] by (rule same_outside_trans)
  then have "spsc_view e T cap (?rb, ?m) =
      spsc_view e T cap (rb, m) @ [slot_look e T True ?m ?p]"
    using wire.ring_view_push [OF spsc_invD(1) [OF inv] message_fits_slot room, where base = "rb_slots rb"]
    by (simp add: spsc_view_def spsc_slot_fun)
  then have view: "spsc_view e T cap (?rb, ?m) = spsc_view e T cap (rb, m) @ [Some v]"
    by (simp add: wire.look_seal [OF usable ready] v_def)
  then show "spsc_contents e T cap (spsc_commit_write e T cap c (rb, m1)) =
      spsc_contents e T cap (rb, m) @ [v]"
    by (simp add: commit spsc_contents_def)
  have "unat (rb_head rb + 1 - rb_tail rb) \<le> unat cap"
    using unat_advance_head [OF room] room by simp
  with inv view show "spsc_inv e T cap (spsc_commit_write e T cap c (rb, m1))"
    unfolding commit spsc_inv_def by simp
qed

section \<open>The ring implements the interface\<close>

text \<open>Writing and reading through the pointer of a slot.\<close>

definition spsc_store :: "'w::len word spsc \<times> mem \<Rightarrow> ptr \<Rightarrow> bytes \<Rightarrow> 'w word spsc \<times> mem" where
  "spsc_store = (\<lambda>(rb, m) slot v. (rb, assign_object m slot v))"

definition spsc_fetch :: "msgtype \<Rightarrow> 'w::len word spsc \<times> mem \<Rightarrow> ptr \<Rightarrow> bytes" where
  "spsc_fetch T s slot = read_bytes (snd s) slot (mt_sizeof T)"

text \<open>What a producer gets in a ring with room, and what its commit leaves.\<close>

lemma spsc_room:
  assumes "spsc_inv e T cap (rb, m)" "length (spsc_contents e T cap (rb, m)) < unat cap"
    and "spsc_prepare_write e T cap (rb, m) = (slot, s1)"
  defines "p \<equiv> spsc_slot T cap rb (rb_head rb)"
  shows "unat (rb_head rb - rb_tail rb) < unat cap" "slot = p + 16" "s1 = (rb, prepared e T m p)" "fits T p"
proof -
  show room: "unat (rb_head rb - rb_tail rb) < unat cap" using assms(1,2) by (simp add: length_spsc_contents)
  show "slot = p + 16" "s1 = (rb, prepared e T m p)"
    using assms(3) spsc_prepare_room [OF assms(1) room] by (simp_all add: p_def)
  show "fits T p" unfolding p_def using assms(1) by (rule spsc_invD)
qed

lemma spsc_commit_stored:
  fixes c :: bool
  assumes "spsc_inv e T cap (rb, m)" "length (spsc_contents e T cap (rb, m)) < unat cap"
    and "spsc_prepare_write e T cap (rb, m) = (slot, s1)" "length v = mt_sizeof T"
  defines "s2 \<equiv> spsc_commit_write e T cap c (spsc_store s1 slot v)"
  shows "spsc_inv e T cap s2 \<and> spsc_contents e T cap s2 = spsc_contents e T cap (rb, m) @ [v]"
proof -
  let ?p = "spsc_slot T cap rb (rb_head rb)"
  let ?m1 = "assign_object (prepared e T m ?p) (?p + 16) v"
  note room = spsc_room [OF assms(1-3)]
  have st: "stamped e T ?m1 ?p"
    using wire.ready_prep [OF room(4)] by (rule stamped_assign)
  have "same_outside ?p (message_size T) m ?m1"
    using wire.prep_frame [OF room(4)] assms(4)
    by (auto simp: assign_object_def message_size_eq intro!: same_outside_writeI)
  from spsc_commit_filled [OF assms(1) room(1) this st, of c] show ?thesis
    using assms(4) by (simp add: s2_def room(2,3) spsc_store_def assign_object_def)
qed

interpretation spsc: message_ring "spsc_inv e T cap" "spsc_contents e T cap"
  "spsc_peek_read e T cap" "spsc_fetch T" spsc_commit_read
  "unat cap" "mt_sizeof T" "mt_construct T (replicate (mt_sizeof T) 0)"
  "spsc_prepare_write e T cap" "spsc_fetch T" spsc_store "spsc_commit_write e T cap" for e T cap
proof (unfold_locales, goal_cases)
  case (1 s c)
  then show ?case
    by (cases s) (simp add: spsc_peek_read_def spsc_contents_def spsc_view_empty)
next
  case (2 s v q c)
  obtain rb m where s: "s = (rb, m)" by force
  have look: "slot_look e T c m (spsc_slot T cap rb (rb_tail rb)) = Some v"
    using 2 [unfolded s] by (rule spsc_front)
  then have "v = read_bytes m (spsc_slot T cap rb (rb_tail rb) + 16) (mt_sizeof T)"
    by (simp add: slot_look_Some)
  with look spsc_front(1) [OF 2 [unfolded s]] show ?case
    by (simp add: s spsc_peek_read_def view_slot_look spsc_fetch_def Let_def)
next
  case (3 s v q)
  obtain rb m where s: "s = (rb, m)" by force
  from spsc_front [OF 3 [unfolded s]] show ?case
    by (simp add: s spsc_commit_read_def)
next
  case (4 s)
  then show ?case by (cases s) (simp add: length_spsc_contents spsc_invD)
next
  case (5 s)
  then show ?case
    by (cases s) (simp add: spsc_prepare_write_def length_spsc_contents word_le_nat_alt)
next
  case (6 s slot s1)
  obtain rb m where s: "s = (rb, m)" by force
  note room = spsc_room [OF 6 [unfolded s]] and inv = 6(1) [unfolded s]
  have "spsc_view e T cap (rb, prepared e T m (spsc_slot T cap rb (rb_head rb))) = spsc_view e T cap (rb, m)"
    using inv room(1) wire.prep_frame [OF room(4)] by (rule spsc_prepare_keeps)
  with inv show ?case
    using spsc_invD(4) [OF inv]
    by (simp add: s room(2,3) spsc_inv_def spsc_contents_def spsc_fetch_def read_prepared_payload)
next
  case (7 s slot s1 v c)
  then show ?case by (cases s) (simp add: spsc_commit_stored)
qed

text \<open>The code's \<open>push\<close> and \<open>pop\<close> are the generic clients of the interface.\<close>

lemma spsc_push_client:
  "spsc_push e T cap v c s = ring_push (spsc_prepare_write e T cap) spsc_store
     (spsc_commit_write e T cap) v c s"
  by (simp add: spsc_push_def ring_push_def spsc_store_def split_def Let_def)

lemma spsc_pop_client:
  "spsc_pop e T cap out c s =
     (case ring_pop (spsc_peek_read e T cap) (spsc_fetch T) spsc_commit_read c s of
        (None, s') \<Rightarrow> (False, out, s') | (Some v, s') \<Rightarrow> (True, v, s'))"
  by (simp add: spsc_pop_def ring_pop_def spsc_fetch_def Let_def)

section \<open>Properties of the ring\<close>

definition spsc_call ::
  "endian \<Rightarrow> msgtype \<Rightarrow> 'w::len word \<Rightarrow> bool \<Rightarrow> bool \<Rightarrow> 'w word spsc \<times> mem \<Rightarrow> ring_op
     \<Rightarrow> ring_out \<times> 'w word spsc \<times> mem" where
  "spsc_call e T cap compute_crc verify_crc =
     ring_step (\<lambda>v. spsc_push e T cap v compute_crc)
       (\<lambda>s. case spsc_pop e T cap [] verify_crc s of
              (ok, v, s') \<Rightarrow> (if ok then Some v else None, s'))"

lemma spsc_call_client:
  "spsc_call e T cap cc vc =
     ring_step (\<lambda>v. ring_push (spsc_prepare_write e T cap) spsc_store (spsc_commit_write e T cap) v cc)
       (ring_pop (spsc_peek_read e T cap) (spsc_fetch T) spsc_commit_read vc)"
  unfolding spsc_call_def spsc_push_client [abs_def] spsc_pop_client
  by (intro ext) (auto simp: ring_step_def split: ring_op.split option.split prod.split)

lemma spsc_inv_drained:
  "capacity_ok cap \<Longrightarrow> slots_ok T base \<Longrightarrow>
     spsc_inv e T cap (\<lparr>rb_head = i, rb_tail = i, rb_slots = base\<rparr>, m)
     \<and> spsc_contents e T cap (\<lparr>rb_head = i, rb_tail = i, rb_slots = base\<rparr>, m) = []"
  by (simp add: spsc_inv_def spsc_contents_def spsc_view_def)

text \<open>A 32-bit ring of four \<open>PingMsg\<close> slots, its cursors about to wrap around.\<close>

definition wrapping_ring :: "32 word spsc \<times> mem" where
  "wrapping_ring = (\<lparr>rb_head = 0xFFFFFFFF, rb_tail = 0xFFFFFFFF, rb_slots = 64\<rparr>, \<lambda>_. 0xAA)"

lemma capacity_4 [simp]: "capacity_ok (4 :: 32 word)"
  by (simp add: capacity_ok_def)

lemma slots_ok_64 [simp]: "slots_ok PingMsg 64"
  by (simp add: slots_ok_def nullptr_def)

lemma wrapping_ring_inv:
  "spsc_inv e PingMsg 4 wrapping_ring" "spsc_contents e PingMsg 4 wrapping_ring = []"
  unfolding wrapping_ring_def using spsc_inv_drained [OF capacity_4 slots_ok_64] by blast+

text \<open>
  C1. Any sequence of \<open>push\<close> and \<open>pop\<close> calls on a ring gives exactly the results of a bounded
  first-in first-out queue of \<open>Capacity\<close> payloads, and keeps the ring's invariant: messages come
  out byte for byte, in order, none lost, duplicated or torn, and a push fails exactly when the
  queue is full. The cursors may wrap around the width of \<open>size_t\<close> on the way.
\<close>

theorem spsc_refines_queue:
  assumes "spsc_inv e T cap s" "list_all (op_ok (mt_sizeof T)) xs"
    and "run (spsc_call e T cap compute_crc verify_crc) s xs = (outs, s')"
  shows "spsc_inv e T cap s' \<and>
    run (queue_step (unat cap)) (spsc_contents e T cap s) xs = (outs, spsc_contents e T cap s')"
  using assms unfolding spsc_call_client by (rule spsc.sim.run_simulates)

theorem spsc_refines_queue_witness:
  "fst (run (spsc_call Little PingMsg 4 True True) wrapping_ring
      [Pop, Push [1, 2, 3, 4], Push [5, 6, 7, 8], Pop, Push [9, 9, 9, 9], Pop, Pop, Pop]) =
    [Popped None, Pushed True, Pushed True, Popped (Some [1, 2, 3, 4]), Pushed True,
     Popped (Some [5, 6, 7, 8]), Popped (Some [9, 9, 9, 9]), Popped None]"
proof -
  let ?xs = "[Pop, Push [1, 2, 3, 4], Push [5, 6, 7, 8], Pop, Push [9, 9, 9, 9], Pop, Pop, Pop]"
  obtain outs s' where r: "run (spsc_call Little PingMsg 4 True True) wrapping_ring ?xs = (outs, s')"
    by (meson surj_pair)
  have "list_all (op_ok (mt_sizeof PingMsg)) ?xs" by simp
  from spsc_refines_queue [OF wrapping_ring_inv(1) this r] r show ?thesis
    by (simp add: wrapping_ring_inv)
qed

text \<open>
  The status queries are exact on one thread: \<open>empty\<close> and \<open>full\<close> hold exactly when there are
  no messages and when there are \<open>Capacity\<close> of them, and \<open>size\<close> is the number of messages as
  long as \<open>head\<close> has not wrapped around since \<open>tail\<close> did.
\<close>

theorem spsc_status_exact:
  assumes "spsc_inv e T cap (rb, m)"
  shows "(spsc_empty rb \<longleftrightarrow> spsc_contents e T cap (rb, m) = [])
    \<and> (spsc_full cap rb \<longleftrightarrow> length (spsc_contents e T cap (rb, m)) = unat cap)
    \<and> (rb_tail rb \<le> rb_head rb \<longrightarrow>
         unat (spsc_size cap rb) = length (spsc_contents e T cap (rb, m)))"
proof -
  have "spsc_contents e T cap (rb, m) = [] \<longleftrightarrow> rb_head rb = rb_tail rb"
    by (simp add: spsc_contents_def spsc_view_empty)
  moreover have "cap \<le> rb_head rb - rb_tail rb \<longleftrightarrow> unat (rb_head rb - rb_tail rb) = unat cap"
    using spsc_invD(3) [OF assms] by (auto simp: word_le_nat_alt)
  ultimately show ?thesis
    by (simp add: spsc_empty_def spsc_full_def spsc_size_def length_spsc_contents Let_def)
qed

theorem spsc_status_exact_witness:
  "spsc_empty (fst wrapping_ring) \<and> \<not> spsc_full 4 (fst wrapping_ring) \<and>
     unat (spsc_size 4 (fst wrapping_ring)) = 0"
  using spsc_status_exact [of Little PingMsg 4 "fst wrapping_ring" "snd wrapping_ring"]
    wrapping_ring_inv [of Little]
  by (simp add: wrapping_ring_def)

text \<open>
  C37. When \<open>head\<close> has wrapped around and \<open>tail\<close> has not, \<open>size\<close> adds \<open>Capacity\<close> to the number of
  messages: the branch \<open>Capacity + head - tail\<close> belongs to cursors reduced modulo the capacity,
  which these are not.
\<close>

theorem spsc_size_after_wrap:
  assumes "rb_head rb < rb_tail rb"
  shows "spsc_size cap rb = cap + of_nat (length (spsc_contents e T cap (rb, m)))"
proof -
  have "\<not> rb_tail rb \<le> rb_head rb" using assms by (simp add: not_le)
  then show ?thesis by (simp add: spsc_size_def length_spsc_contents Let_def add_diff_eq)
qed

theorem spsc_size_after_wrap_witness:
  "spsc_size 4 (\<lparr>rb_head = 0, rb_tail = 0xFFFFFFFF, rb_slots = 64\<rparr> :: 32 word spsc) = 5"
  using spsc_size_after_wrap [of "\<lparr>rb_head = 0, rb_tail = 0xFFFFFFFF, rb_slots = 64\<rparr> :: 32 word spsc"
      4 Little PingMsg "\<lambda>_. 0"]
  by (simp add: length_spsc_contents)

text \<open>
  C34. A ring of a type aligned to more than 16 bytes is unusable: slots are placed at the alignment of
  the type and the payload 16 bytes further on, so in every state \<open>prepare_write\<close> returns
  \<open>nullptr\<close>, as for a full ring, and \<open>push\<close> returns false; neither changes anything. A new ring,
  in which the first push already fails, is not \<open>full\<close>.
\<close>

theorem spsc_overaligned_never_writable:
  assumes "capacity_ok cap" "is_valid_message T" "mt_alignof T dvd rb_slots rb" "\<not> mt_alignof T dvd 16"
  shows "spsc_prepare_write e T cap (rb, m) = (nullptr, rb, m)
    \<and> spsc_push e T cap v compute_crc (rb, m) = (False, rb, m)
    \<and> \<not> spsc_full cap (spsc_new (rb_slots rb))"
proof -
  have "mt_alignof T dvd spsc_slot T cap rb i" for i
    using assms(2,3) align_dvd_Slot [OF assms(2)] by (simp add: spsc_slot_def ring_slot_def)
  then have "\<not> mt_alignof T dvd spsc_slot T cap rb (rb_head rb) + 16"
    using assms(4) dvd_add_right_iff by blast
  then have "spsc_prepare_write e T cap (rb, m) = (nullptr, rb, m)"
    by (simp add: spsc_prepare_write_def prepare_cases Let_def)
  then show ?thesis using assms(1)
    by (auto simp: spsc_push_def spsc_full_def spsc_new_def capacity_ok_def word_le_nat_alt)
qed

theorem spsc_overaligned_never_writable_witness:
  "spsc_push Little (register_message ''Vec8f'' 9 1 32 32 id) (4 :: 32 word) (replicate 32 0) False
     (spsc_new 64, \<lambda>_. 0) = (False, spsc_new 64, \<lambda>_. 0) \<and> \<not> spsc_full (4 :: 32 word) (spsc_new 64)"
  using spsc_overaligned_never_writable [OF capacity_4, of "register_message ''Vec8f'' 9 1 32 32 id" "spsc_new 64"
      Little "\<lambda>_. 0" "replicate 32 0" False]
  by (simp add: register_message_def is_valid_message_def spsc_new_def)

text \<open>
  \<open>consume\<close> calls the callback once, on the oldest message, and removes it; on an empty ring it
  returns false without calling it.
\<close>

theorem spsc_consume_oldest:
  assumes "spsc_inv e T cap s"
  shows "case spsc_consume e T cap func a verify_crc s of (ok, a', s') \<Rightarrow>
    spsc_inv e T cap s' \<and>
    (case spsc_contents e T cap s of
       [] \<Rightarrow> \<not> ok \<and> a' = a \<and> s' = s
     | v # q \<Rightarrow> ok \<and> a' = func v a \<and> spsc_contents e T cap s' = q)"
proof -
  have "spsc_consume e T cap func a verify_crc s =
    (case ring_pop (spsc_peek_read e T cap) (spsc_fetch T) spsc_commit_read verify_crc s of
       (None, s') \<Rightarrow> (False, a, s') | (Some v, s') \<Rightarrow> (True, func v a, s'))"
    by (simp add: spsc_consume_def ring_pop_def spsc_fetch_def Let_def)
  then show ?thesis
    using spsc.pop_spec [OF assms, of verify_crc] by (auto split: list.splits prod.splits)
qed

theorem spsc_consume_oldest_witness:
  "fst (spsc_consume Little PingMsg 4 (\<lambda>v n. n + length v) (0 :: nat) True
      (snd (spsc_push Little PingMsg 4 [1, 2, 3, 4] False wrapping_ring)))"
proof -
  let ?s = "snd (spsc_push Little PingMsg 4 [1, 2, 3, 4] False wrapping_ring)"
  have "spsc_inv Little PingMsg 4 ?s \<and> spsc_contents Little PingMsg 4 ?s = [[1, 2, 3, 4]]"
    using spsc.push_spec [OF wrapping_ring_inv(1), of "[1, 2, 3, 4]" Little False]
    by (auto simp: spsc_push_client wrapping_ring_inv split: prod.splits)
  with spsc_consume_oldest [where e = Little and T = PingMsg and cap = 4 and s = ?s
      and func = "\<lambda>v n. n + length v" and a = "0 :: nat" and verify_crc = True]
  show ?thesis by (auto split: prod.splits)
qed

section \<open>A ring with an invalid slot\<close>

text \<open>What \<open>push\<close> does to the memory of a ring with room, whatever its slots hold.\<close>

definition pushed_mem :: "endian \<Rightarrow> msgtype \<Rightarrow> bool \<Rightarrow> mem \<Rightarrow> ptr \<Rightarrow> bytes \<Rightarrow> mem" where
  "pushed_mem e T cc m p v = slot_seal e T cc (assign_object (prepared e T m p) (p + 16) v) p"

lemma push_result:
  assumes "fits T p" "p = spsc_slot T cap rb (rb_head rb)"
  shows "spsc_push e T cap v cc (rb, m) =
    (if cap \<le> rb_head rb - rb_tail rb then (False, rb, m)
     else (True, rb\<lparr>rb_head := rb_head rb + 1\<rparr>, pushed_mem e T cc m p v))"
  using assms(1)
  by (simp add: spsc_push_def spsc_prepare_write_def spsc_commit_write_def assms(2) pushed_mem_def slot_seal_def
      sizeof_Header_def Let_def)

lemma pushed_mem_frame:
  "fits T p \<Longrightarrow> length v = mt_sizeof T \<Longrightarrow> same_outside p (message_size T) m (pushed_mem e T c m p v)"
  using wire.packet_frame [of T p v m e c] by (simp add: pushed_mem_def assign_object_def)

text \<open>Calls that each bring their own choice of computing or verifying checksums.\<close>

definition spsc_request ::
  "endian \<Rightarrow> msgtype \<Rightarrow> 'w::len word \<Rightarrow> 'w word spsc \<times> mem \<Rightarrow> ring_op \<times> bool \<Rightarrow> ring_out \<times> 'w word spsc \<times> mem" where
  "spsc_request e T cap = (\<lambda>s (x, check). spsc_call e T cap check check s x)"

text \<open>The abstract ring that is stuck: pushes are taken while there is room, pops give nothing.\<close>

fun blocked_step :: "nat \<Rightarrow> ring_op \<times> bool \<Rightarrow> ring_out \<times> nat" where
  "blocked_step room (Push v, check) = (if 0 < room then (Pushed True, room - 1) else (Pushed False, room))"
| "blocked_step room (Pop, check) = (Popped None, room)"

definition free_slots :: "'w::len word \<Rightarrow> 'w word spsc \<times> mem \<Rightarrow> nat" where
  "free_slots cap s = unat cap - unat (rb_head (fst s) - rb_tail (fst s))"

definition tail_blocked :: "endian \<Rightarrow> msgtype \<Rightarrow> 'w::len word \<Rightarrow> 'w word \<Rightarrow> 'w word spsc \<times> mem \<Rightarrow> bool" where
  "tail_blocked e T cap t = (\<lambda>(rb, m). capacity_ok cap \<and> slots_ok T (rb_slots rb) \<and> rb_tail rb = t \<and> rb_head rb \<noteq> t
     \<and> unat (rb_head rb - t) \<le> unat cap \<and> slot_look e T False m (spsc_slot T cap rb t) = None)"

lemma tail_blocked_peek:
  assumes "tail_blocked e T cap t s"
  shows "spsc_peek_read e T cap c s = nullptr"
proof -
  obtain rb m where s: "s = (rb, m)" by force
  have "slot_look e T c m (spsc_slot T cap rb (rb_tail rb)) = None"
    using assms by (auto simp: s tail_blocked_def slot_look_def validate_Ok_iff split: if_splits)
  then show ?thesis using assms by (auto simp: s tail_blocked_def spsc_peek_read_def view_slot_look Let_def)
qed

lemma tail_blocked_push:
  fixes c :: bool
  assumes inv: "tail_blocked e T cap t (rb, m)" and len: "length v = mt_sizeof T"
    and room: "\<not> cap \<le> rb_head rb - rb_tail rb"
  defines "s' \<equiv> (rb\<lparr>rb_head := rb_head rb + 1\<rparr>, pushed_mem e T c m (spsc_slot T cap rb (rb_head rb)) v)"
  shows "tail_blocked e T cap t s'" "free_slots cap s' = free_slots cap (rb, m) - 1"
proof -
  let ?p = "spsc_slot T cap rb (rb_head rb)" and ?q = "spsc_slot T cap rb t"
  have cap: "capacity_ok cap" and t: "rb_tail rb = t" "rb_head rb \<noteq> t" and fits: "fits T ?p"
    and look: "slot_look e T False m ?q = None" "slots_ok T (rb_slots rb)"
    using inv by (auto simp: tail_blocked_def spsc_slot_def intro: fits_slot)
  have less: "unat (rb_head rb - t) < unat cap" and pos: "0 < unat (rb_head rb - t)"
    using room t by (auto simp: word_le_nat_alt unat_gt_0)
  have "?q + message_size T \<le> ?p \<or> ?p + message_size T \<le> ?q"
    using slots_disjoint [OF cap pos _ message_fits_slot, of "rb_slots rb" T t] less
    by (simp add: spsc_slot_def cursor_top)
  then have "slot_look e T False (pushed_mem e T c m ?p v) ?q = None"
    using wire.look_outside [OF pushed_mem_frame [OF fits len]] look(1) by metis
  moreover have step: "unat (rb_head rb + 1 - t) = unat (rb_head rb - t) + 1"
    using less by (simp add: unat_advance_head)
  moreover from step have "rb_head rb + 1 \<noteq> t" by auto
  ultimately show "tail_blocked e T cap t s'"
    using cap look(2) t less by (auto simp: s'_def tail_blocked_def spsc_slot_def)
  show "free_slots cap s' = free_slots cap (rb, m) - 1" using step t by (simp add: s'_def free_slots_def)
qed

interpretation blocked: simulation "tail_blocked e T cap t" "free_slots cap" "\<lambda>(x, _). op_ok (mt_sizeof T) x"
  "spsc_request e T cap" blocked_step for e T cap t
proof (unfold_locales, goal_cases)
  case (1 s y out s')
  obtain rb m where s: "s = (rb, m)" by force
  obtain x check where y: "y = (x, check)" by force
  show ?case
  proof (cases x)
    case Pop
    have "spsc_pop e T cap [] check (rb, m) = (False, [], rb, m)"
      using tail_blocked_peek [OF 1(1), of check] by (simp add: s spsc_pop_def)
    with 1 show ?thesis by (auto simp: s y Pop spsc_request_def spsc_call_def ring_step_def)
  next
    case (Push v)
    have fits: "fits T (spsc_slot T cap rb (rb_head rb))" and len: "length v = mt_sizeof T"
      using 1(1,2) by (auto simp: s y Push tail_blocked_def spsc_slot_def intro: fits_slot)
    note push = push_result [OF fits refl, of e v check]
    show ?thesis
    proof (cases "cap \<le> rb_head rb - rb_tail rb")
      case True
      then have "free_slots cap s = 0" by (simp add: s free_slots_def word_le_nat_alt)
      with 1 True show ?thesis by (auto simp: s y Push spsc_request_def spsc_call_def ring_step_def push)
    next
      case False
      then have "0 < free_slots cap s" by (simp add: s free_slots_def word_le_nat_alt)
      with 1 False tail_blocked_push [OF 1(1) [unfolded s] len False, of check] show ?thesis
        by (auto simp: s y Push spsc_request_def spsc_call_def ring_step_def push)
    qed
  qed
qed

text \<open>
  C36. A slot that fails validation is never skipped. When the oldest slot of a non-empty ring does not
  hold a valid packet, checksum aside, then in every later sequence of pushes and pops, each with
  its own choice about checksums, every \<open>pop\<close> returns false; pushes are taken while slots are free,
  and once they are used up every \<open>push\<close> returns false as well. The tail never moves again, and
  \<open>peek_read\<close> keeps returning \<open>nullptr\<close>.
\<close>

theorem spsc_corrupt_slot_blocks:
  assumes "capacity_ok cap" "slots_ok T (rb_slots rb)" "rb_head rb \<noteq> rb_tail rb"
    and "unat (rb_head rb - rb_tail rb) \<le> unat cap"
    and "slot_look e T False m (spsc_slot T cap rb (rb_tail rb)) = None"
    and "list_all (\<lambda>(x, _). op_ok (mt_sizeof T) x) xs"
    and "run (spsc_request e T cap) (rb, m) xs = (outs, rb', m')"
  shows "run blocked_step (unat cap - unat (rb_head rb - rb_tail rb)) xs =
      (outs, unat cap - unat (rb_head rb' - rb_tail rb'))
    \<and> rb_tail rb' = rb_tail rb \<and> rb_head rb' \<noteq> rb_tail rb'
    \<and> (\<forall>verify_crc. spsc_peek_read e T cap verify_crc (rb', m') = nullptr)"
proof -
  have "tail_blocked e T cap (rb_tail rb) (rb, m)" using assms(1-5) by (simp add: tail_blocked_def)
  from blocked.run_simulates [OF this assms(6,7)] show ?thesis
    using tail_blocked_peek [of e T cap "rb_tail rb" "(rb', m')"] by (auto simp: free_slots_def tail_blocked_def)
qed

theorem spsc_corrupt_slot_blocks_witness:
  "fst (run (spsc_request Little PingMsg (4 :: 32 word)) (\<lparr>rb_head = 2, rb_tail = 0, rb_slots = 64\<rparr>, \<lambda>_. 0xAA)
     [(Pop, False), (Push [1, 2, 3, 4], True), (Pop, True), (Push [5, 6, 7, 8], False), (Push [9, 9, 9, 9], True), (Pop, False)]) =
   [Popped None, Pushed True, Popped None, Pushed True, Pushed False, Popped None]"
proof -
  let ?rb = "\<lparr>rb_head = 2, rb_tail = 0, rb_slots = 64\<rparr> :: 32 word spsc" and ?m = "(\<lambda>_. 0xAA) :: mem"
  let ?xs = "[(Pop, False), (Push [1, 2, 3, 4], True), (Pop, True), (Push [5, 6, 7, 8], False),
    (Push [9, 9, 9, 9 :: u8], True), (Pop, False)]"
  have "[0..<4] = [0, 1, 2, 3 :: nat]" by code_simp
  then have "read_bytes ?m p 4 = [0xAA, 0xAA, 0xAA, 0xAA]" for p
    by (simp add: read_bytes_def)
  then have "load_u32 Little ?m p \<noteq> SINEW_MAGIC" for p
    by (simp add: load_u32_def word_of_obj_def SINEW_MAGIC_def)
  then have look: "slot_look Little PingMsg False ?m (spsc_slot PingMsg 4 ?rb (rb_tail ?rb)) = None"
    by (simp add: slot_look_def validate_Ok_iff)
  obtain outs rb' m' where r: "run (spsc_request Little PingMsg 4) (?rb, ?m) ?xs = (outs, rb', m')"
    by (meson prod_cases3)
  from spsc_corrupt_slot_blocks [OF capacity_4 _ _ _ look _ r] slots_ok_64 show ?thesis
    unfolding r by simp
qed

text \<open>
  \<open>commit_read\<close> has no guard: called on an empty ring it moves \<open>tail\<close> past \<open>head\<close>, and the ring
  then refuses every write as if it were full.
\<close>

theorem spsc_commit_read_on_empty:
  assumes "capacity_ok cap" "spsc_empty rb"
  shows "spsc_prepare_write e T cap (spsc_commit_read (rb, m)) = (nullptr, spsc_commit_read (rb, m))
    \<and> spsc_full cap (fst (spsc_commit_read (rb, m)))"
proof -
  have "rb_head rb - (rb_tail rb + 1) = - 1"
    using assms(2) by (simp add: spsc_empty_def)
  then show ?thesis
    by (simp add: spsc_commit_read_def spsc_prepare_write_def spsc_full_def Let_def)
qed

theorem spsc_commit_read_on_empty_witness:
  "spsc_full (4 :: 32 word) (fst (spsc_commit_read (spsc_new 64, \<lambda>_. 0)))"
  using spsc_commit_read_on_empty [OF capacity_4, of "spsc_new 64" Little PingMsg "\<lambda>_. 0"]
  by (simp add: spsc_empty_def spsc_new_def)

end
