(* ===== verification/Spsc_Protocol.thy ===== *)
theory Spsc_Protocol
  imports Slots
begin

text \<open>
  The ring of \<open>include/sinew/ring_buffer.hpp\<close> (and of the two shared-memory rings, which follow the
  same protocol) under two threads. A step is one atomic access of a cursor, or one access of a
  slot, by the producer or the consumer; the threads interleave freely. A load of the other
  thread's cursor may return any value that cursor had since the last load of the same thread, as
  the memory model allows; the release store and acquire load of a cursor make the slots written
  before it visible, so a slot is read as last written. A slot that is being written holds
  \<open>None\<close>: reading it would be a data race.

  The ghost lists \<open>sent\<close> and \<open>taken\<close> record what was committed and what the consumer got; no step
  depends on their contents.
\<close>

section \<open>The two threads\<close>

datatype ('c, 'v) producer =
    P_Idle
  | P_Loaded 'c    \<comment> \<open>\<open>prepare_write\<close> has loaded \<open>tail\<close>\<close>
  | P_Writing 'v          \<comment> \<open>the slot is being prepared and assigned\<close>
  | P_Ready 'v            \<comment> \<open>\<open>commit_write\<close> has finalised the packet\<close>

datatype ('c, 'v) consumer =
    C_Idle
  | C_Loaded 'c    \<comment> \<open>\<open>peek_read\<close> has loaded \<open>head\<close>\<close>
  | C_Reading             \<comment> \<open>\<open>peek_read\<close> has returned the slot\<close>
  | C_Took "'v option"    \<comment> \<open>the payload has been copied out\<close>

record ('c, 'v) channel =
  ch_head :: 'c
  ch_tail :: 'c
  ch_slots :: "nat \<Rightarrow> 'v option"
  ch_producer :: "('c, 'v) producer"
  ch_consumer :: "('c, 'v) consumer"
  sent :: "'v list"
  taken :: "'v option list"
  seen_tail :: nat
  seen_head :: nat

definition index_of :: "'w::len word \<Rightarrow> 'w word \<Rightarrow> nat" where
  "index_of cap cursor = unat (cursor AND kIndexMask cap)"

definition channel_new :: "('w::len word, 'v) channel" where
  "channel_new = \<lparr>ch_head = 0, ch_tail = 0, ch_slots = (\<lambda>_. None), ch_producer = P_Idle,
     ch_consumer = C_Idle, sent = [], taken = [], seen_tail = 0, seen_head = 0\<rparr>"

inductive spsc_step :: "'w::len word \<Rightarrow> ('w word, 'v) channel \<Rightarrow> ('w word, 'v) channel \<Rightarrow> bool" for cap where
  load_tail: "ch_producer s = P_Idle \<Longrightarrow> seen_tail s \<le> t \<Longrightarrow> t \<le> length (taken s) \<Longrightarrow>
    spsc_step cap s (s\<lparr>ch_producer := P_Loaded (of_nat t), seen_tail := t\<rparr>)"
| full: "ch_producer s = P_Loaded t \<Longrightarrow> cap \<le> ch_head s - t \<Longrightarrow>
    spsc_step cap s (s\<lparr>ch_producer := P_Idle\<rparr>)"
| assign: "ch_producer s = P_Loaded t \<Longrightarrow> \<not> cap \<le> ch_head s - t \<Longrightarrow>
    spsc_step cap s (s\<lparr>ch_producer := P_Writing v, ch_slots := (ch_slots s)(index_of cap (ch_head s) := None)\<rparr>)"
| finish: "ch_producer s = P_Writing v \<Longrightarrow>
    spsc_step cap s (s\<lparr>ch_producer := P_Ready v, ch_slots := (ch_slots s)(index_of cap (ch_head s) := Some v)\<rparr>)"
| publish: "ch_producer s = P_Ready v \<Longrightarrow>
    spsc_step cap s (s\<lparr>ch_producer := P_Idle, ch_head := ch_head s + 1, sent := sent s @ [v]\<rparr>)"
| load_head: "ch_consumer s = C_Idle \<Longrightarrow> seen_head s \<le> h \<Longrightarrow> h \<le> length (sent s) \<Longrightarrow>
    spsc_step cap s (s\<lparr>ch_consumer := C_Loaded (of_nat h), seen_head := h\<rparr>)"
| empty: "ch_consumer s = C_Loaded h \<Longrightarrow> ch_tail s = h \<Longrightarrow>
    spsc_step cap s (s\<lparr>ch_consumer := C_Idle\<rparr>)"
| peek: "ch_consumer s = C_Loaded h \<Longrightarrow> ch_tail s \<noteq> h \<Longrightarrow>
    spsc_step cap s (s\<lparr>ch_consumer := C_Reading\<rparr>)"
| copy: "ch_consumer s = C_Reading \<Longrightarrow>
    spsc_step cap s (s\<lparr>ch_consumer := C_Took (ch_slots s (index_of cap (ch_tail s)))\<rparr>)"
| release: "ch_consumer s = C_Took x \<Longrightarrow>
    spsc_step cap s (s\<lparr>ch_consumer := C_Idle, ch_tail := ch_tail s + 1, taken := taken s @ [x]\<rparr>)"

inductive reachable :: "'w::len word \<Rightarrow> ('w word, 'v) channel \<Rightarrow> bool" for cap where
  start: "reachable cap channel_new"
| step: "reachable cap s \<Longrightarrow> spsc_step cap s s' \<Longrightarrow> reachable cap s'"

section \<open>The invariant\<close>

text \<open>
  With \<open>n\<close> messages sent and \<open>k\<close> taken: the cursors are \<open>n\<close> and \<open>k\<close> reduced to their width, at most
  \<open>Capacity\<close> messages are in flight even as the threads see it, the slots of those hold what was
  sent, and each thread's local state agrees with them.
\<close>

definition producer_ok :: "'w::len word \<Rightarrow> ('w word, 'v) channel \<Rightarrow> bool" where
  "producer_ok cap s \<longleftrightarrow> (case ch_producer s of
     P_Idle \<Rightarrow> True
   | P_Loaded t \<Rightarrow> t = of_nat (seen_tail s)
   | P_Writing v \<Rightarrow> length (sent s) < seen_tail s + unat cap
   | P_Ready v \<Rightarrow> length (sent s) < seen_tail s + unat cap
       \<and> ch_slots s (length (sent s) mod unat cap) = Some v)"

definition consumer_ok :: "'w::len word \<Rightarrow> ('w word, 'v) channel \<Rightarrow> bool" where
  "consumer_ok cap s \<longleftrightarrow> (case ch_consumer s of
     C_Idle \<Rightarrow> True
   | C_Loaded h \<Rightarrow> h = of_nat (seen_head s)
   | C_Reading \<Rightarrow> length (taken s) < seen_head s
   | C_Took x \<Rightarrow> length (taken s) < seen_head s \<and> x = Some (sent s ! length (taken s)))"

definition counts_ok :: "'w::len word \<Rightarrow> ('w word, 'v) channel \<Rightarrow> bool" where
  "counts_ok cap s \<longleftrightarrow> ch_head s = of_nat (length (sent s)) \<and> ch_tail s = of_nat (length (taken s))
     \<and> seen_tail s \<le> length (taken s) \<and> length (taken s) \<le> seen_head s
     \<and> seen_head s \<le> length (sent s) \<and> length (sent s) \<le> seen_tail s + unat cap"

definition in_flight_ok :: "'w::len word \<Rightarrow> ('w word, 'v) channel \<Rightarrow> bool" where
  "in_flight_ok cap s \<longleftrightarrow> taken s = map Some (take (length (taken s)) (sent s))
     \<and> (\<forall>i. length (taken s) \<le> i \<and> i < length (sent s) \<longrightarrow> ch_slots s (i mod unat cap) = Some (sent s ! i))"

definition channel_ok :: "'w::len word \<Rightarrow> ('w word, 'v) channel \<Rightarrow> bool" where
  "channel_ok cap s \<longleftrightarrow> counts_ok cap s \<and> in_flight_ok cap s \<and> producer_ok cap s \<and> consumer_ok cap s"

lemmas channel_defs = channel_ok_def counts_ok_def in_flight_ok_def producer_ok_def consumer_ok_def

lemma index_of_count: "capacity_ok cap \<Longrightarrow> index_of cap (of_nat n) = n mod unat cap"
  using cursor_mod [of cap 0 n] by (simp add: index_of_def unat_masked)

text \<open>A cursor difference of at most the capacity is exact, whatever wrapped around.\<close>

lemma count_difference:
  fixes cap :: "'w::len word"
  assumes "k \<le> n" "n \<le> k + unat cap"
  shows "unat (of_nat n - of_nat k :: 'w word) = n - k"
proof -
  have "(of_nat n - of_nat k :: 'w word) = of_nat (n - k)" using assms(1) by simp
  moreover have "unat cap < 2 ^ LENGTH('w)" by (rule unsigned_less)
  then have "n - k < 2 ^ LENGTH('w)" using assms(2) by linarith
  ultimately show ?thesis by (simp add: unat_of_nat take_bit_nat_eq_self_iff)
qed

lemma count_equal:
  fixes cap :: "'w::len word"
  assumes "k \<le> n" "n \<le> k + unat cap"
  shows "(of_nat k :: 'w word) = of_nat n \<longleftrightarrow> k = n"
  using count_difference [OF assms] by (metis assms(1) diff_is_0_eq le_antisym right_minus_eq unat_0)

lemma mod_apart:
  fixes i j :: nat
  assumes "i < j" "j < i + n"
  shows "i mod n \<noteq> j mod n"
proof
  assume "i mod n = j mod n"
  then have "n dvd j - i" using assms(1) by (metis less_imp_le mod_eq_dvd_iff_nat)
  then have "n \<le> j - i" using assms(1) by (intro dvd_imp_le) simp_all
  with assms show False by simp
qed

text \<open>The slot the producer writes is none of those in flight.\<close>

lemma write_slot_free:
  assumes "channel_ok cap s" "length (sent s) < seen_tail s + unat cap"
    and "length (taken s) \<le> i" "i < length (sent s)"
  shows "i mod unat cap \<noteq> length (sent s) mod unat cap"
  using assms by (intro mod_apart) (auto simp: channel_defs)

lemma channel_ok_new: "channel_ok cap channel_new"
  by (simp add: channel_defs channel_new_def)

lemma room_check:
  assumes "channel_ok cap s" "ch_producer s = P_Loaded t"
  shows "cap \<le> ch_head s - t \<longleftrightarrow> \<not> length (sent s) < seen_tail s + unat cap"
proof -
  have "unat (ch_head s - t) = length (sent s) - seen_tail s"
    using assms by (auto simp: channel_defs intro!: count_difference [where cap = cap])
  then show ?thesis
    using assms by (auto simp: word_le_nat_alt channel_defs)
qed

lemma empty_check:
  assumes "channel_ok cap s" "ch_consumer s = C_Loaded h"
  shows "ch_tail s = h \<longleftrightarrow> length (taken s) = seen_head s"
  using assms by (auto simp: channel_defs intro!: count_equal [where cap = cap])

lemma channel_ok_step:
  assumes "spsc_step cap s s'" "capacity_ok cap" "channel_ok cap s"
  shows "channel_ok cap s'"
  using assms(1)
proof cases
  case (load_tail t)
  with assms(3) show ?thesis by (auto simp: channel_defs split: consumer.splits)
next
  case (full t)
  with assms(3) show ?thesis by (auto simp: channel_defs split: consumer.splits)
next
  case (assign t v)
  then have room: "length (sent s) < seen_tail s + unat cap" using room_check [OF assms(3)] by simp
  show ?thesis
    using assms(3) room assign write_slot_free [OF assms(3) room]
    by (auto simp: channel_defs index_of_count [OF assms(2)] split: consumer.splits)
next
  case (finish v)
  then have room: "length (sent s) < seen_tail s + unat cap" using assms(3) by (simp add: channel_defs)
  show ?thesis
    using assms(3) room finish write_slot_free [OF assms(3) room]
    by (auto simp: channel_defs index_of_count [OF assms(2)] split: consumer.splits)
next
  case (publish v)
  with assms(3) show ?thesis
    by (auto simp: channel_defs nth_append less_Suc_eq split: consumer.splits)
next
  case (load_head h)
  with assms(3) show ?thesis by (auto simp: channel_defs split: producer.splits)
next
  case (empty h)
  with assms(3) show ?thesis by (auto simp: channel_defs split: producer.splits)
next
  case (peek h)
  then have "length (taken s) \<noteq> seen_head s" using empty_check [OF assms(3)] by simp
  with assms(3) peek show ?thesis by (auto simp: channel_defs split: producer.splits)
next
  case copy
  have "index_of cap (ch_tail s) = length (taken s) mod unat cap"
    using assms(2,3) by (simp add: channel_defs index_of_count)
  with assms(3) copy show ?thesis by (auto simp: channel_defs split: producer.splits)
next
  case (release x)
  with assms(3) show ?thesis
    by (auto simp: channel_defs take_Suc_conv_app_nth split: producer.splits)
qed

lemma reachable_ok: "reachable cap s \<Longrightarrow> capacity_ok cap \<Longrightarrow> channel_ok cap s"
  by (induction rule: reachable.induct) (auto intro: channel_ok_new channel_ok_step)


section \<open>Running a schedule\<close>

text \<open>
  An executable form of the step relation: an action names the thread that moves and the value a
  load returns. A schedule is a list of actions.
\<close>

datatype 'v action = Load_Tail nat | Check_Room 'v | Finalize_Slot | Publish
  | Load_Head nat | Check_Empty | Copy_Out | Release

definition perform :: "'w::len word \<Rightarrow> 'v action \<Rightarrow> ('w word, 'v) channel \<Rightarrow> ('w word, 'v) channel option" where
  "perform cap a s = (case (a, ch_producer s, ch_consumer s) of
     (Load_Tail t, P_Idle, _) \<Rightarrow> if seen_tail s \<le> t \<and> t \<le> length (taken s)
       then Some (s\<lparr>ch_producer := P_Loaded (of_nat t), seen_tail := t\<rparr>) else None
   | (Check_Room v, P_Loaded t, _) \<Rightarrow> Some (if cap \<le> ch_head s - t then s\<lparr>ch_producer := P_Idle\<rparr>
       else s\<lparr>ch_producer := P_Writing v, ch_slots := (ch_slots s)(index_of cap (ch_head s) := None)\<rparr>)
   | (Finalize_Slot, P_Writing v, _) \<Rightarrow>
       Some (s\<lparr>ch_producer := P_Ready v, ch_slots := (ch_slots s)(index_of cap (ch_head s) := Some v)\<rparr>)
   | (Publish, P_Ready v, _) \<Rightarrow>
       Some (s\<lparr>ch_producer := P_Idle, ch_head := ch_head s + 1, sent := sent s @ [v]\<rparr>)
   | (Load_Head h, _, C_Idle) \<Rightarrow> if seen_head s \<le> h \<and> h \<le> length (sent s)
       then Some (s\<lparr>ch_consumer := C_Loaded (of_nat h), seen_head := h\<rparr>) else None
   | (Check_Empty, _, C_Loaded h) \<Rightarrow>
       Some (s\<lparr>ch_consumer := (if ch_tail s = h then C_Idle else C_Reading)\<rparr>)
   | (Copy_Out, _, C_Reading) \<Rightarrow> Some (s\<lparr>ch_consumer := C_Took (ch_slots s (index_of cap (ch_tail s)))\<rparr>)
   | (Release, _, C_Took x) \<Rightarrow>
       Some (s\<lparr>ch_consumer := C_Idle, ch_tail := ch_tail s + 1, taken := taken s @ [x]\<rparr>)
   | _ \<Rightarrow> None)"

fun schedule :: "'w::len word \<Rightarrow> 'v action list \<Rightarrow> ('w word, 'v) channel \<Rightarrow> ('w word, 'v) channel option" where
  "schedule cap [] s = Some s"
| "schedule cap (a # as) s = Option.bind (perform cap a s) (schedule cap as)"

lemma perform_step: "perform cap a s = Some s' \<Longrightarrow> spsc_step cap s s'"
  by (auto simp: perform_def intro: spsc_step.intros
      split: action.splits producer.splits consumer.splits if_splits)

lemma step_performed: "spsc_step cap s s' \<Longrightarrow> \<exists>a. perform cap a s = Some s'"
proof (induction rule: spsc_step.induct)
  case (load_tail s t) then show ?case by (intro exI [of _ "Load_Tail t"]) (simp add: perform_def)
next
  case (full s t) then show ?case by (intro exI [of _ "Check_Room undefined"]) (simp add: perform_def)
next
  case (assign s t v) then show ?case by (intro exI [of _ "Check_Room v"]) (simp add: perform_def)
next
  case (finish s v) then show ?case by (intro exI [of _ Finalize_Slot]) (simp add: perform_def)
next
  case (publish s v) then show ?case by (intro exI [of _ Publish]) (simp add: perform_def)
next
  case (load_head s h)
  then show ?case by (intro exI [of _ "Load_Head h"]) (simp add: perform_def split: producer.split)
next
  case (empty s h) then show ?case by (intro exI [of _ Check_Empty]) (simp add: perform_def split: producer.split)
next
  case (peek s h) then show ?case by (intro exI [of _ Check_Empty]) (simp add: perform_def split: producer.split)
next
  case (copy s) then show ?case by (intro exI [of _ Copy_Out]) (simp add: perform_def split: producer.split)
next
  case (release s x) then show ?case by (intro exI [of _ Release]) (simp add: perform_def split: producer.split)
qed

text \<open>The schedules give exactly the steps of the relation.\<close>

lemma spsc_step_iff: "spsc_step cap s s' \<longleftrightarrow> (\<exists>a. perform cap a s = Some s')"
  using perform_step step_performed by blast

lemma schedule_reachable:
  "schedule cap as s = Some s' \<Longrightarrow> reachable cap s \<Longrightarrow> reachable cap s'"
  by (induction as arbitrary: s) (auto simp: Option.bind_eq_Some_conv dest: perform_step reachable.step)

lemma schedule_new: "schedule cap as channel_new = Some s \<Longrightarrow> reachable cap s"
  using schedule_reachable reachable.start by blast

section \<open>What the protocol guarantees\<close>

text \<open>
  C2. However the two threads interleave and however stale the cursors they load are, the consumer
  gets exactly the messages that were sent, in the order they were sent and without loss or
  duplication, and at most \<open>Capacity\<close> messages are in flight.
\<close>

theorem spsc_interleaving_fifo:
  assumes "capacity_ok cap" "reachable cap s"
  shows "taken s = map Some (take (length (taken s)) (sent s)) \<and> length (taken s) \<le> length (sent s)
    \<and> length (sent s) \<le> length (taken s) + unat cap"
  using reachable_ok [OF assms(2,1)] by (auto simp: channel_defs)

text \<open>
  A run in which the consumer works from a stale head: it sees one message although two were sent,
  and the producer finds the ring full because the tail it loads is stale too.
\<close>

definition demo_schedule :: "nat action list" where
  "demo_schedule = [Load_Tail 0, Check_Room 7, Finalize_Slot, Publish, Load_Head 1,
     Load_Tail 0, Check_Room 8, Finalize_Slot, Publish, Check_Empty, Copy_Out, Release,
     Load_Tail 0, Check_Room 9, Load_Head 2, Check_Empty, Load_Tail 1, Check_Room 9]"

definition demo_channel :: "(64 word, nat) channel" where
  "demo_channel = \<lparr>ch_head = 2, ch_tail = 1, ch_slots = (\<lambda>i. if i = 1 then Some 8 else None),
     ch_producer = P_Writing 9, ch_consumer = C_Reading, sent = [7, 8], taken = [Some 7],
     seen_tail = 1, seen_head = 2\<rparr>"

lemma demo_capacity: "capacity_ok (2 :: 64 word)"
  by (simp add: capacity_ok_def)

lemma demo_reachable: "reachable 2 demo_channel"
  by (rule schedule_new [where as = demo_schedule])
    (simp add: demo_schedule_def perform_def channel_new_def demo_channel_def index_of_def
      kIndexMask_def fun_eq_iff word_le_nat_alt)

theorem spsc_interleaving_fifo_witness:
  "taken demo_channel = map Some (take 1 (sent demo_channel)) \<and> length (sent demo_channel) \<le> 3"
  using spsc_interleaving_fifo [OF demo_capacity demo_reachable] by (simp add: demo_channel_def)

text \<open>
  C15. While the producer writes a slot and the consumer reads one, they are different slots: there is
  no data race on the payload. A consumer that has been given a slot finds it completely written.
\<close>

theorem spsc_no_slot_race:
  assumes "capacity_ok cap" "reachable cap s" "ch_consumer s = C_Reading"
  shows "(ch_producer s = P_Writing v \<longrightarrow> index_of cap (ch_head s) \<noteq> index_of cap (ch_tail s))
    \<and> ch_slots s (index_of cap (ch_tail s)) = Some (sent s ! length (taken s))"
proof -
  have ok: "channel_ok cap s" using assms reachable_ok by blast
  then have tail: "index_of cap (ch_tail s) = length (taken s) mod unat cap"
    and head: "index_of cap (ch_head s) = length (sent s) mod unat cap"
    using assms(1) by (simp_all add: channel_defs index_of_count)
  have less: "length (taken s) < length (sent s)" using ok assms(3) by (auto simp: channel_defs)
  have "length (sent s) < seen_tail s + unat cap" if "ch_producer s = P_Writing v"
    using ok that by (simp add: channel_defs)
  then show ?thesis
    using write_slot_free [OF ok _ order.refl less] head tail ok less by (auto simp: channel_defs)
qed

theorem spsc_no_slot_race_witness:
  "index_of 2 (ch_head demo_channel) \<noteq> index_of 2 (ch_tail demo_channel)
     \<and> ch_slots demo_channel (index_of 2 (ch_tail demo_channel)) = Some 8"
  using spsc_no_slot_race [OF demo_capacity demo_reachable, where v = 9] by (simp add: demo_channel_def)

text \<open>
  C19. Neither thread can be blocked by the other. From every reachable state an idle producer that
  has room sends a message by its own steps alone, and an idle consumer with a message in flight
  takes it by its own steps alone, whatever the other thread is in the middle of.
\<close>

theorem spsc_wait_free:
  assumes "capacity_ok cap" "reachable cap s"
  shows "(ch_producer s = P_Idle \<longrightarrow> length (sent s) < length (taken s) + unat cap \<longrightarrow>
      (\<exists>s'. schedule cap [Load_Tail (length (taken s)), Check_Room v, Finalize_Slot, Publish] s = Some s'
        \<and> sent s' = sent s @ [v] \<and> taken s' = taken s \<and> ch_consumer s' = ch_consumer s))
    \<and> (ch_consumer s = C_Idle \<longrightarrow> length (taken s) < length (sent s) \<longrightarrow>
      (\<exists>s'. schedule cap [Load_Head (length (sent s)), Check_Empty, Copy_Out, Release] s = Some s'
        \<and> taken s' = taken s @ [Some (sent s ! length (taken s))] \<and> sent s' = sent s
        \<and> ch_producer s' = ch_producer s))"
proof -
  have ok: "channel_ok cap s" using assms reachable_ok by blast
  then have tail: "index_of cap (ch_tail s) = length (taken s) mod unat cap"
    using assms(1) by (simp add: channel_defs index_of_count)
  have head: "ch_head s = of_nat (length (sent s))" "ch_tail s = of_nat (length (taken s))"
    and bounds: "seen_tail s \<le> length (taken s)" "length (taken s) \<le> length (sent s)"
      "seen_head s \<le> length (sent s)" "length (sent s) \<le> length (taken s) + unat cap"
    using ok by (auto simp: channel_defs)
  have room: "\<not> cap \<le> ch_head s - of_nat (length (taken s))"
    if "length (sent s) < length (taken s) + unat cap"
    using that bounds count_difference [of "length (taken s)" "length (sent s)" cap]
    by (simp add: head word_le_nat_alt)
  have some: "ch_tail s \<noteq> of_nat (length (sent s))" if "length (taken s) < length (sent s)"
    using that bounds count_equal [of "length (taken s)" "length (sent s)" cap] by (simp add: head)
  have slot: "ch_slots s (index_of cap (ch_tail s)) = Some (sent s ! length (taken s))"
    if "length (taken s) < length (sent s)"
    using that ok tail by (simp add: channel_defs)
  show ?thesis
    using room some slot bounds by (auto simp: perform_def split: producer.split)
qed

theorem spsc_wait_free_witness:
  "\<exists>s'. schedule 2 [Load_Tail 0, Check_Room 7, Finalize_Slot, Publish] (channel_new :: (64 word, nat) channel) = Some s'
    \<and> sent s' = [7]"
  using spsc_wait_free [OF demo_capacity reachable.start, where v = "7 :: nat"]
  by (auto simp: channel_new_def)

end
