(* ===== verification/Spsc_Threads.thy ===== *)
theory Spsc_Threads
  imports Ring_Buffer Spsc_Protocol
begin

text \<open>
  \<open>push\<close> and \<open>pop\<close> of \<open>include/sinew/ring_buffer.hpp\<close> by two threads on the bytes of the ring. Where
  \<open>Spsc_Protocol\<close> has a cell per slot, here each step is what the code does between two accesses of
  a cursor: it stamps the header, runs the constructor, copies the payload, computes the checksum,
  validates. Every run of these steps is a run of the protocol, so what is proved there holds of
  the memory. Loads of the other thread's cursor may be stale, as in \<open>Spsc_Protocol\<close>.
\<close>

section \<open>The two threads\<close>

datatype 'c writer =
    W_Idle
  | W_Loaded bytes 'c       \<comment> \<open>\<open>push(val)\<close> has loaded \<open>tail\<close>\<close>
  | W_Prepared bytes ptr    \<comment> \<open>\<open>prepare_write\<close> has returned\<close>
  | W_Assigned bytes        \<comment> \<open>\<open>*slot = val\<close>\<close>
  | W_Finalized bytes       \<comment> \<open>\<open>commit_write\<close> has finalised the packet\<close>

datatype 'c reader =
    R_Idle
  | R_Loaded 'c             \<comment> \<open>\<open>pop\<close> has loaded \<open>head\<close>\<close>
  | R_Viewed ptr            \<comment> \<open>\<open>peek_read\<close> has validated the slot\<close>
  | R_Copied bytes          \<comment> \<open>\<open>out_value = *item\<close>\<close>

text \<open>
  The ring and its memory, where each thread is, and for the statement of the properties what has
  been sent and received and the largest counts behind the cursors a thread has loaded.
\<close>

record 'c threads =
  th_ring :: "'c spsc"
  th_mem :: mem
  th_writer :: "'c writer"
  th_reader :: "'c reader"
  th_sent :: "bytes list"
  th_received :: "bytes list"
  th_seen_tail :: nat
  th_seen_head :: nat

definition threads_new :: "ptr \<Rightarrow> mem \<Rightarrow> 'w::len word threads" where
  "threads_new slots m = \<lparr>th_ring = spsc_new slots, th_mem = m, th_writer = W_Idle, th_reader = R_Idle,
     th_sent = [], th_received = [], th_seen_tail = 0, th_seen_head = 0\<rparr>"

text \<open>The steps of \<open>push\<close>: in each state of the writer there is one, up to the value of a load.\<close>

inductive write_step :: "endian \<Rightarrow> msgtype \<Rightarrow> 'w::len word \<Rightarrow> bool \<Rightarrow> 'w word threads \<Rightarrow> 'w word threads \<Rightarrow> bool"
  for e T cap compute_crc where
  w_load: "th_writer s = W_Idle \<Longrightarrow> length val = mt_sizeof T \<Longrightarrow>
    th_seen_tail s \<le> t \<Longrightarrow> t \<le> length (th_received s) \<Longrightarrow>
    write_step e T cap compute_crc s (s\<lparr>th_writer := W_Loaded val (of_nat t), th_seen_tail := t\<rparr>)"
| w_full: "th_writer s = W_Loaded val tail \<Longrightarrow> cap \<le> rb_head (th_ring s) - tail \<Longrightarrow>
    write_step e T cap compute_crc s (s\<lparr>th_writer := W_Idle\<rparr>)"
| w_prepare: "th_writer s = W_Loaded val tail \<Longrightarrow> \<not> cap \<le> rb_head (th_ring s) - tail \<Longrightarrow>
    prepare e T (th_mem s) (spsc_slot T cap (th_ring s) (rb_head (th_ring s))) (kSlotSize T) = (slot, m) \<Longrightarrow>
    write_step e T cap compute_crc s
      (s\<lparr>th_mem := m, th_writer := (if slot = nullptr then W_Idle else W_Prepared val slot)\<rparr>)"
| w_assign: "th_writer s = W_Prepared val slot \<Longrightarrow>
    write_step e T cap compute_crc s (s\<lparr>th_mem := assign_object (th_mem s) slot val, th_writer := W_Assigned val\<rparr>)"
| w_finalize: "th_writer s = W_Assigned val \<Longrightarrow>
    payload = spsc_slot T cap (th_ring s) (rb_head (th_ring s)) + sizeof_Header \<Longrightarrow>
    write_step e T cap compute_crc s
      (s\<lparr>th_mem := snd (finalize e T (th_mem s) payload compute_crc), th_writer := W_Finalized val\<rparr>)"
| w_publish: "th_writer s = W_Finalized val \<Longrightarrow>
    write_step e T cap compute_crc s
      (s\<lparr>th_ring := (th_ring s)\<lparr>rb_head := rb_head (th_ring s) + 1\<rparr>, th_writer := W_Idle, th_sent := th_sent s @ [val]\<rparr>)"

text \<open>The steps of \<open>pop\<close>.\<close>

inductive read_step :: "endian \<Rightarrow> msgtype \<Rightarrow> 'w::len word \<Rightarrow> bool \<Rightarrow> 'w word threads \<Rightarrow> 'w word threads \<Rightarrow> bool"
  for e T cap verify_crc where
  r_load: "th_reader s = R_Idle \<Longrightarrow> th_seen_head s \<le> h \<Longrightarrow> h \<le> length (th_sent s) \<Longrightarrow>
    read_step e T cap verify_crc s (s\<lparr>th_reader := R_Loaded (of_nat h), th_seen_head := h\<rparr>)"
| r_empty: "th_reader s = R_Loaded head \<Longrightarrow> rb_tail (th_ring s) = head \<Longrightarrow>
    read_step e T cap verify_crc s (s\<lparr>th_reader := R_Idle\<rparr>)"
| r_view: "th_reader s = R_Loaded head \<Longrightarrow> rb_tail (th_ring s) \<noteq> head \<Longrightarrow>
    item = view e T (th_mem s) (spsc_slot T cap (th_ring s) (rb_tail (th_ring s))) (kSlotSize T) verify_crc \<Longrightarrow>
    read_step e T cap verify_crc s (s\<lparr>th_reader := (if item = nullptr then R_Idle else R_Viewed item)\<rparr>)"
| r_copy: "th_reader s = R_Viewed item \<Longrightarrow>
    read_step e T cap verify_crc s (s\<lparr>th_reader := R_Copied (read_bytes (th_mem s) item (mt_sizeof T))\<rparr>)"
| r_release: "th_reader s = R_Copied val \<Longrightarrow>
    read_step e T cap verify_crc s
      (s\<lparr>th_ring := (th_ring s)\<lparr>rb_tail := rb_tail (th_ring s) + 1\<rparr>, th_reader := R_Idle, th_received := th_received s @ [val]\<rparr>)"

definition thread_step :: "endian \<Rightarrow> msgtype \<Rightarrow> 'w::len word \<Rightarrow> bool \<Rightarrow> bool \<Rightarrow> 'w word threads \<Rightarrow> 'w word threads \<Rightarrow> bool" where
  "thread_step e T cap cc vc s s' \<longleftrightarrow> write_step e T cap cc s s' \<or> read_step e T cap vc s s'"

section \<open>The protocol behind the memory\<close>

text \<open>
  A state of the threads matches a state of the protocol when the cursors, the counts and the
  histories agree, the memory has in each slot the packet that the cell of the protocol holds, and
  each thread is at the corresponding point. While the producer fills a slot its cell is empty and
  the memory is stamped there.
\<close>

abbreviation slots_hold :: "endian \<Rightarrow> msgtype \<Rightarrow> ptr \<Rightarrow> mem \<Rightarrow> (nat \<Rightarrow> bytes option) \<Rightarrow> bool" where
  "slots_hold e T base \<equiv> cells_hold (slot_look e T True) base (sizeof_Slot T)"

definition writer_match :: "endian \<Rightarrow> msgtype \<Rightarrow> mem \<Rightarrow> ptr \<Rightarrow> 'c writer \<Rightarrow> bytes option \<Rightarrow> ('c, bytes) producer \<Rightarrow> bool" where
  "writer_match e T m p w cell pr \<longleftrightarrow> (case w of
     W_Idle \<Rightarrow> pr = P_Idle
   | W_Loaded v t \<Rightarrow> pr = P_Loaded t \<and> length v = mt_sizeof T
   | W_Prepared v slot \<Rightarrow> pr = P_Writing v \<and> cell = None \<and> slot = p + 16 \<and> length v = mt_sizeof T \<and> stamped e T m p
   | W_Assigned v \<Rightarrow> pr = P_Writing v \<and> cell = None \<and> stamped e T m p \<and> read_bytes m (p + 16) (mt_sizeof T) = v
   | W_Finalized v \<Rightarrow> pr = P_Ready v)"

definition reader_match :: "ptr \<Rightarrow> 'c reader \<Rightarrow> ('c, bytes) consumer \<Rightarrow> bool" where
  "reader_match p r co \<longleftrightarrow> (case r of
     R_Idle \<Rightarrow> co = C_Idle
   | R_Loaded h \<Rightarrow> co = C_Loaded h
   | R_Viewed item \<Rightarrow> co = C_Reading \<and> item = p + 16
   | R_Copied v \<Rightarrow> co = C_Took (Some v))"

definition same_history :: "'c threads \<Rightarrow> ('c, bytes) channel \<Rightarrow> bool" where
  "same_history s c \<longleftrightarrow> rb_head (th_ring s) = ch_head c \<and> rb_tail (th_ring s) = ch_tail c
     \<and> th_sent s = sent c \<and> map Some (th_received s) = taken c
     \<and> th_seen_tail s = seen_tail c \<and> th_seen_head s = seen_head c"

definition threads_match :: "endian \<Rightarrow> msgtype \<Rightarrow> 'w::len word \<Rightarrow> ptr \<Rightarrow> mem \<Rightarrow> 'w word threads \<Rightarrow> ('w word, bytes) channel \<Rightarrow> bool" where
  "threads_match e T cap base m0 s c \<longleftrightarrow> slots_ok T base \<and> same_history s c \<and> rb_slots (th_ring s) = base
     \<and> same_outside base (unat cap * sizeof_Slot T) m0 (th_mem s)
     \<and> slots_hold e T base (th_mem s) (ch_slots c)
     \<and> writer_match e T (th_mem s) (base + index_of cap (ch_head c) * sizeof_Slot T) (th_writer s)
         (ch_slots c (index_of cap (ch_head c))) (ch_producer c)
     \<and> reader_match (base + index_of cap (ch_tail c) * sizeof_Slot T) (th_reader s) (ch_consumer c)"

lemmas match_defs = threads_match_def same_history_def writer_match_def reader_match_def

lemma slot_of_index: "spsc_slot T cap rb i = rb_slots rb + index_of cap i * sizeof_Slot T"
  by (simp add: spsc_slot_def ring_slot_def index_of_def)

lemma index_below: "capacity_ok cap \<Longrightarrow> index_of cap i < unat cap"
  by (simp add: index_of_def unat_masked capacity_pos)

text \<open>Writing inside one slot: the other slots and the rest of the memory stay.\<close>

lemma slot_write_inside:
  assumes "same_outside (base + i * sizeof_Slot T) (message_size T) m m'" "i < unat (cap :: 'w::len word)"
    and "same_outside base (unat cap * sizeof_Slot T) m0 m"
  shows "same_outside base (unat cap * sizeof_Slot T) m0 m'"
proof -
  have "i * sizeof_Slot T + message_size T \<le> unat cap * sizeof_Slot T"
    using assms(2) message_fits_slot by (rule stride_inside)
  then have "same_outside base (unat cap * sizeof_Slot T) m m'"
    by (intro same_outside_mono [OF assms(1)]) auto
  with assms(3) show ?thesis by (rule same_outside_trans)
qed

text \<open>The slot at the head, which the producer fills.\<close>

lemma head_slot:
  fixes c :: "('w::len word, bytes) channel"
  assumes "capacity_ok cap" "threads_match e T cap base m0 s c"
  defines "p \<equiv> base + index_of cap (ch_head c) * sizeof_Slot T"
  shows "spsc_slot T cap (th_ring s) (rb_head (th_ring s)) = p" "fits T p"
    "same_outside p (message_size T) (th_mem s) m' \<Longrightarrow> same_outside base (unat cap * sizeof_Slot T) m0 m'"
    "same_outside p (message_size T) (th_mem s) m' \<Longrightarrow>
       slots_hold e T base m' ((ch_slots c)(index_of cap (ch_head c) := None))"
proof -
  have match: "slots_ok T base" "rb_slots (th_ring s) = base" "rb_head (th_ring s) = ch_head c"
    "slots_hold e T base (th_mem s) (ch_slots c)" "same_outside base (unat cap * sizeof_Slot T) m0 (th_mem s)"
    using assms(2) by (simp_all add: threads_match_def same_history_def)
  show "spsc_slot T cap (th_ring s) (rb_head (th_ring s)) = p" by (simp add: slot_of_index p_def match)
  show "fits T p"
    using fits_slot [OF match(1), of cap "ch_head c"] by (simp add: p_def ring_slot_def index_of_def)
  show "same_outside p (message_size T) (th_mem s) m' \<Longrightarrow> same_outside base (unat cap * sizeof_Slot T) m0 m'"
    unfolding p_def using slot_write_inside index_below [OF assms(1)] match(5) by blast
  show "same_outside p (message_size T) (th_mem s) m' \<Longrightarrow>
      slots_hold e T base m' ((ch_slots c)(index_of cap (ch_head c) := None))"
    unfolding p_def using wire.cells_write [OF match(4) _ message_fits_slot] by blast
qed

text \<open>The three steps that write to it.\<close>

lemma prepare_matched:
  assumes ok: "capacity_ok cap" and match: "threads_match e T cap base m0 s c" and at: "th_writer s = W_Loaded v t"
    and prep: "prepare e T (th_mem s) (spsc_slot T cap (th_ring s) (rb_head (th_ring s))) (kSlotSize T) = (slot, m)"
  shows "threads_match e T cap base m0 (s\<lparr>th_mem := m, th_writer := (if slot = nullptr then W_Idle else W_Prepared v slot)\<rparr>)
    (c\<lparr>ch_producer := P_Writing v, ch_slots := (ch_slots c)(index_of cap (ch_head c) := None)\<rparr>)"
proof -
  let ?p = "base + index_of cap (ch_head c) * sizeof_Slot T"
  note slot = head_slot [OF ok match]
  have m: "slot = ?p + 16" "m = prepared e T (th_mem s) ?p"
    using prep slot(2) unfolding slot(1) by simp_all
  have "same_outside ?p (message_size T) (th_mem s) m" unfolding m by (rule wire.prep_frame [OF slot(2)])
  note slot(3) [OF this] slot(4) [OF this]
  moreover have "stamped e T m ?p" unfolding m by (rule wire.ready_prep [OF slot(2)])
  ultimately show ?thesis using at match m(1) by (auto simp: match_defs)
qed

lemma assign_matched:
  assumes ok: "capacity_ok cap" and match: "threads_match e T cap base m0 s c" and "th_writer s = W_Prepared v slot"
  shows "threads_match e T cap base m0 (s\<lparr>th_mem := assign_object (th_mem s) slot v, th_writer := W_Assigned v\<rparr>) c"
proof -
  let ?i = "index_of cap (ch_head c)" and ?m = "assign_object (th_mem s) slot v"
  let ?p = "base + ?i * sizeof_Slot T"
  have at: "slot = ?p + 16" "length v = mt_sizeof T" "stamped e T (th_mem s) ?p" "ch_slots c ?i = None"
    using assms(3) match by (auto simp: match_defs)
  have "same_outside ?p (message_size T) (th_mem s) ?m"
    using at(2) by (auto simp: at(1) assign_object_def message_size_eq intro!: same_outside_writeI)
  note head_slot(3) [OF ok match this] head_slot(4) [OF ok match this]
  moreover have "stamped e T ?m ?p" "read_bytes ?m (?p + 16) (mt_sizeof T) = v"
    using stamped_assign [OF at(3)] at(2) by (auto simp: at(1) assign_object_def)
  moreover have "(ch_slots c)(?i := None) = ch_slots c" using at(4) by auto
  ultimately show ?thesis using assms(3) match by (auto simp: match_defs)
qed

lemma finalize_matched:
  assumes ok: "capacity_ok cap" and match: "threads_match e T cap base m0 s c" and "th_writer s = W_Assigned v"
  defines "payload \<equiv> spsc_slot T cap (th_ring s) (rb_head (th_ring s)) + sizeof_Header"
  shows "threads_match e T cap base m0
    (s\<lparr>th_mem := snd (finalize e T (th_mem s) payload cc), th_writer := W_Finalized v\<rparr>)
    (c\<lparr>ch_producer := P_Ready v, ch_slots := (ch_slots c)(index_of cap (ch_head c) := Some v)\<rparr>)"
proof -
  let ?i = "index_of cap (ch_head c)"
  let ?p = "base + ?i * sizeof_Slot T" and ?m = "snd (finalize e T (th_mem s) payload cc)"
  note slot = head_slot [OF ok match]
  have m: "?m = slot_seal e T cc (th_mem s) ?p"
    unfolding payload_def slot(1) by (simp add: slot_seal_def sizeof_Header_def)
  have at: "stamped e T (th_mem s) ?p" "read_bytes (th_mem s) (?p + 16) (mt_sizeof T) = v"
    using assms(3) match by (auto simp: match_defs)
  have "same_outside ?p (message_size T) (th_mem s) ?m" unfolding m by (rule wire.seal_frame [OF slot(2)])
  note slot(3) [OF this]
  moreover have "slots_hold e T base (th_mem s) (ch_slots c)" using match by (simp add: threads_match_def)
  then have "slots_hold e T base ?m ((ch_slots c)(?i := Some v))"
    using wire.cells_seal [OF _ message_fits_slot slot(2) at(1), where c = True and c' = cc] at(2) by (simp add: m)
  ultimately show ?thesis using assms(3) match by (auto simp: match_defs)
qed

text \<open>Each step of a thread is a step of the protocol, or changes only the bytes of the slot being filled.\<close>

lemma write_matched:
  assumes ok: "capacity_ok cap" and step: "write_step e T cap cc s s'" and match: "threads_match e T cap base m0 s c"
  shows "threads_match e T cap base m0 s' c \<or> (\<exists>c'. spsc_step cap c c' \<and> threads_match e T cap base m0 s' c')"
  using step
proof cases
  case (w_load v t)
  have "spsc_step cap c (c\<lparr>ch_producer := P_Loaded (of_nat t), seen_tail := t\<rparr>)"
    using w_load match by (intro spsc_step.load_tail) (auto simp: match_defs dest: arg_cong [where f = length])
  moreover have "threads_match e T cap base m0 s' (c\<lparr>ch_producer := P_Loaded (of_nat t), seen_tail := t\<rparr>)"
    using w_load match by (auto simp: match_defs)
  ultimately show ?thesis by blast
next
  case (w_full v t)
  have "spsc_step cap c (c\<lparr>ch_producer := P_Idle\<rparr>)"
    using w_full match by (intro spsc_step.full) (auto simp: match_defs)
  moreover have "threads_match e T cap base m0 s' (c\<lparr>ch_producer := P_Idle\<rparr>)"
    using w_full match by (auto simp: match_defs)
  ultimately show ?thesis by blast
next
  case (w_prepare v t slot m)
  have "spsc_step cap c (c\<lparr>ch_producer := P_Writing v, ch_slots := (ch_slots c)(index_of cap (ch_head c) := None)\<rparr>)"
    using w_prepare match by (intro spsc_step.assign) (auto simp: match_defs)
  with prepare_matched [OF ok match w_prepare(2,4)] w_prepare(1) show ?thesis by blast
next
  case (w_assign v slot)
  then show ?thesis using assign_matched [OF ok match] by blast
next
  case (w_finalize v payload)
  have "spsc_step cap c (c\<lparr>ch_producer := P_Ready v, ch_slots := (ch_slots c)(index_of cap (ch_head c) := Some v)\<rparr>)"
    using w_finalize match by (intro spsc_step.finish) (auto simp: match_defs)
  with finalize_matched [OF ok match w_finalize(2)] w_finalize(1,3) show ?thesis by blast
next
  case (w_publish v)
  let ?c = "c\<lparr>ch_producer := P_Idle, ch_head := ch_head c + 1, sent := sent c @ [v]\<rparr>"
  have "spsc_step cap c ?c" using w_publish match by (intro spsc_step.publish) (auto simp: match_defs)
  moreover have "threads_match e T cap base m0 s' ?c" using w_publish match by (auto simp: match_defs)
  ultimately show ?thesis by blast
qed

text \<open>
  A published slot validates: in every state in which the protocol has a cell at the tail in flight,
  \<open>view\<close> returns the payload of the slot, whatever the other thread is doing.
\<close>

lemma tail_in_flight:
  assumes "capacity_ok cap" "channel_ok cap c"
    and "ch_consumer c = C_Reading \<or> (ch_consumer c = C_Loaded h \<and> ch_tail c \<noteq> h)"
  obtains v where "ch_slots c (index_of cap (ch_tail c)) = Some v"
proof -
  have "length (taken c) < length (sent c)"
    using assms(3) empty_check [OF assms(2), of h] assms(2) by (auto simp: channel_defs)
  moreover have "index_of cap (ch_tail c) = length (taken c) mod unat cap"
    using assms(1,2) by (simp add: channel_defs index_of_count)
  ultimately show thesis using assms(2) that by (simp add: channel_defs)
qed

lemma tail_slot:
  assumes "capacity_ok cap" "channel_ok cap c" "threads_match e T cap base m0 s c"
    and "ch_consumer c = C_Reading \<or> (ch_consumer c = C_Loaded h \<and> ch_tail c \<noteq> h)"
  defines "p \<equiv> base + index_of cap (ch_tail c) * sizeof_Slot T"
  shows "ch_slots c (index_of cap (ch_tail c)) = Some (read_bytes (th_mem s) (p + 16) (mt_sizeof T))"
    and "view e T (th_mem s) p (kSlotSize T) vc = p + 16"
proof -
  obtain v where v: "ch_slots c (index_of cap (ch_tail c)) = Some v"
    using tail_in_flight [OF assms(1,2,4)] .
  then have look: "slot_look e T True (th_mem s) p = Some v"
    using assms(3) by (simp add: threads_match_def cells_hold_def p_def)
  then show "ch_slots c (index_of cap (ch_tail c)) = Some (read_bytes (th_mem s) (p + 16) (mt_sizeof T))"
    using v by (simp add: slot_look_Some)
  from slot_look_weaken [OF look, of vc] show "view e T (th_mem s) p (kSlotSize T) vc = p + 16"
    by (simp add: view_slot_look)
qed

lemma read_matched:
  assumes ok: "capacity_ok cap" "channel_ok cap c" and step: "read_step e T cap vc s s'"
    and match: "threads_match e T cap base m0 s c"
  shows "threads_match e T cap base m0 s' c \<or> (\<exists>c'. spsc_step cap c c' \<and> threads_match e T cap base m0 s' c')"
proof -
  let ?p = "base + index_of cap (ch_tail c) * sizeof_Slot T"
  have slot: "spsc_slot T cap (th_ring s) (rb_tail (th_ring s)) = ?p" "rb_tail (th_ring s) = ch_tail c"
    using match by (simp_all add: threads_match_def same_history_def slot_of_index)
  note tail = tail_slot [OF ok match]
  from step show ?thesis
  proof cases
    case (r_load h)
    let ?c = "c\<lparr>ch_consumer := C_Loaded (of_nat h), seen_head := h\<rparr>"
    have "spsc_step cap c ?c" using r_load match by (intro spsc_step.load_head) (auto simp: match_defs)
    moreover have "threads_match e T cap base m0 s' ?c" using r_load match by (auto simp: match_defs)
    ultimately show ?thesis by blast
  next
    case (r_empty h)
    let ?c = "c\<lparr>ch_consumer := C_Idle\<rparr>"
    have "spsc_step cap c ?c" using r_empty match by (intro spsc_step.empty) (auto simp: match_defs)
    moreover have "threads_match e T cap base m0 s' ?c" using r_empty match by (auto simp: match_defs)
    ultimately show ?thesis by blast
  next
    case (r_view h item)
    let ?c = "c\<lparr>ch_consumer := C_Reading\<rparr>"
    have at: "ch_consumer c = C_Loaded h" "ch_tail c \<noteq> h" using r_view match by (auto simp: match_defs)
    then have "item = ?p + 16" using tail(2) r_view(4) unfolding slot(1) by blast
    then have "threads_match e T cap base m0 s' ?c" using r_view match by (auto simp: match_defs)
    moreover have "spsc_step cap c ?c" using at by (rule spsc_step.peek)
    ultimately show ?thesis by blast
  next
    case (r_copy item)
    let ?c = "c\<lparr>ch_consumer := C_Took (ch_slots c (index_of cap (ch_tail c)))\<rparr>"
    have at: "ch_consumer c = C_Reading" "item = ?p + 16" using r_copy match by (auto simp: match_defs)
    have "threads_match e T cap base m0 s' ?c"
      using tail(1) r_copy match at by (auto simp: match_defs)
    moreover have "spsc_step cap c ?c" using at(1) by (rule spsc_step.copy)
    ultimately show ?thesis by blast
  next
    case (r_release v)
    let ?c = "c\<lparr>ch_consumer := C_Idle, ch_tail := ch_tail c + 1, taken := taken c @ [Some v]\<rparr>"
    have "spsc_step cap c ?c" using r_release match by (intro spsc_step.release) (auto simp: match_defs)
    moreover have "threads_match e T cap base m0 s' ?c" using r_release match by (auto simp: match_defs)
    ultimately show ?thesis by blast
  qed
qed

interpretation threads: step_simulation "spsc_step cap" "\<lambda>c. capacity_ok cap \<and> channel_ok cap c"
  "thread_step e T cap cc vc" "threads_match e T cap base m0"
  for e T cc vc base m0 and cap :: "'w::len word"
proof (unfold_locales, goal_cases)
  case (1 c c')
  then show ?case using channel_ok_step by blast
next
  case (2 s c s')
  then show ?case using write_matched read_matched unfolding thread_step_def by blast
qed

lemma threads_match_new:
  "slots_ok T base \<Longrightarrow> threads_match e T cap base m (threads_new base m) channel_new"
  by (simp add: match_defs cells_hold_def threads_new_def channel_new_def spsc_new_def)

text \<open>Every state the threads can reach has a state of the protocol behind it.\<close>

lemma threads_protocol:
  assumes "capacity_ok cap" "slots_ok T base" "(thread_step e T cap cc vc)\<^sup>*\<^sup>* (threads_new base m) s"
  obtains c where "reachable cap c" "channel_ok cap c" "threads_match e T cap base m s c"
proof -
  have "channel_ok cap (channel_new :: (_, bytes) channel)" by (rule channel_ok_new)
  then obtain c where c: "(spsc_step cap)\<^sup>*\<^sup>* channel_new c" "channel_ok cap c" "threads_match e T cap base m s c"
    using threads.steps_match [OF assms(3) threads_match_new [OF assms(2)]] assms(1) by blast
  from c(1) have "reachable cap c"
    by (induction rule: rtranclp_induct) (auto intro: reachable.start reachable.step)
  with c(2,3) that show thesis by blast
qed

section \<open>What the two threads do\<close>

text \<open>
  C3. Two threads that call \<open>push\<close> and \<open>pop\<close> on one ring, in any interleaving of their accesses and
  with stale loads of each other's cursors, whatever the memory held before: the consumer receives a
  prefix of the payloads that were sent, unchanged and in order; at most \<open>Capacity\<close> are in
  flight; nothing outside the array of slots is written.
\<close>

theorem threads_fifo:
  assumes "capacity_ok cap" "slots_ok T base" "(thread_step e T cap cc vc)\<^sup>*\<^sup>* (threads_new base m) s"
  shows "th_received s = take (length (th_received s)) (th_sent s)
    \<and> length (th_received s) \<le> length (th_sent s) \<and> length (th_sent s) \<le> length (th_received s) + unat cap
    \<and> same_outside base (unat cap * sizeof_Slot T) m (th_mem s)"
proof -
  obtain c where c: "channel_ok cap c" "threads_match e T cap base m s c"
    using threads_protocol [OF assms] by blast
  from c(2) have hist: "th_sent s = sent c" "map Some (th_received s) = taken c"
    and frame: "same_outside base (unat cap * sizeof_Slot T) m (th_mem s)"
    by (simp_all add: threads_match_def same_history_def)
  from hist(2) have len: "length (th_received s) = length (taken c)" by (metis length_map)
  have "map Some (th_received s) = map Some (take (length (taken c)) (sent c))"
    using c(1) hist(2) by (simp add: channel_defs)
  then have "th_received s = take (length (th_received s)) (th_sent s)"
    using hist(1) len by (metis inj_Some inj_map_eq_map)
  moreover have "length (taken c) \<le> length (sent c)" "length (sent c) \<le> length (taken c) + unat cap"
    using c(1) by (auto simp: channel_defs)
  ultimately show ?thesis using frame hist(1) len by simp
qed

text \<open>The writer runs \<open>push\<close> to its end while the reader stands still.\<close>

lemma push_steps:
  fixes s :: "'w::len word threads"
  assumes "th_writer s = W_Idle" "length v = mt_sizeof T" "th_seen_tail s \<le> length (th_received s)"
    and "\<not> cap \<le> rb_head (th_ring s) - of_nat (length (th_received s))"
  defines "p \<equiv> spsc_slot T cap (th_ring s) (rb_head (th_ring s))"
  assumes "fits T p"
  shows "(thread_step e T cap cc vc)\<^sup>*\<^sup>* s (s\<lparr>th_ring := (th_ring s)\<lparr>rb_head := rb_head (th_ring s) + 1\<rparr>,
    th_mem := pushed_mem e T cc (th_mem s) p v, th_sent := th_sent s @ [v], th_seen_tail := length (th_received s)\<rparr>)"
proof -
  let ?k = "length (th_received s)" and ?m = "prepared e T (th_mem s) p"
  let ?s1 = "s\<lparr>th_writer := W_Loaded v (of_nat ?k), th_seen_tail := ?k\<rparr>"
  let ?s2 = "?s1\<lparr>th_mem := ?m, th_writer := W_Prepared v (p + 16)\<rparr>"
  let ?s3 = "?s2\<lparr>th_mem := assign_object ?m (p + 16) v, th_writer := W_Assigned v\<rparr>"
  let ?s4 = "?s3\<lparr>th_mem := pushed_mem e T cc (th_mem s) p v, th_writer := W_Finalized v\<rparr>"
  let ?s5 = "?s4\<lparr>th_ring := (th_ring s)\<lparr>rb_head := rb_head (th_ring s) + 1\<rparr>, th_writer := W_Idle, th_sent := th_sent s @ [v]\<rparr>"
  note step = thread_step_def [of e T cap cc vc]
  have "thread_step e T cap cc vc s ?s1" unfolding step using assms(1-3) by (auto intro: w_load)
  moreover have "thread_step e T cap cc vc ?s1 ?s2"
    unfolding step using w_prepare [of ?s1 v "of_nat ?k" cap e T "p + 16" ?m cc] assms(4,6) by (simp add: p_def)
  moreover have "thread_step e T cap cc vc ?s2 ?s3"
    unfolding step using w_assign [of ?s2 v "p + 16" e T cap cc] by simp
  moreover have "thread_step e T cap cc vc ?s3 ?s4"
    unfolding step using w_finalize [of ?s3 v "p + 16" T cap e cc]
    by (simp add: p_def pushed_mem_def slot_seal_def sizeof_Header_def)
  moreover have "thread_step e T cap cc vc ?s4 ?s5"
    unfolding step using w_publish [of ?s4 v e T cap cc] by simp
  ultimately have "(thread_step e T cap cc vc)\<^sup>*\<^sup>* s ?s5"
    by (meson rtranclp.rtrancl_refl rtranclp.rtrancl_into_rtrancl)
  moreover have "?s5 = s\<lparr>th_ring := (th_ring s)\<lparr>rb_head := rb_head (th_ring s) + 1\<rparr>,
      th_mem := pushed_mem e T cc (th_mem s) p v, th_sent := th_sent s @ [v], th_seen_tail := ?k\<rparr>"
    using assms(1) by (cases s) simp
  ultimately show ?thesis by simp
qed

text \<open>A ring of four slots over a dirty memory, after one push of the producer alone.\<close>

definition demo_threads :: "32 word threads" where
  "demo_threads = (threads_new 64 dirty)\<lparr>th_ring := (spsc_new 64)\<lparr>rb_head := 1\<rparr>,
     th_mem := pushed_mem Little PingMsg True dirty 64 [1, 2, 3, 4], th_sent := [[1, 2, 3, 4]]\<rparr>"

lemma demo_threads: "(thread_step Little PingMsg 4 True True)\<^sup>*\<^sup>* (threads_new 64 dirty) demo_threads"
proof -
  have "spsc_slot PingMsg 4 (spsc_new 64 :: 32 word spsc) 0 = 64" by (simp add: slot_of_index index_of_def spsc_new_def)
  with push_steps [of "threads_new 64 dirty :: 32 word threads" "[1, 2, 3, 4]" PingMsg 4 Little True True] show ?thesis
    by (simp add: threads_new_def demo_threads_def spsc_new_def word_le_nat_alt)
qed

theorem threads_fifo_witness:
  "th_sent demo_threads = [[1, 2, 3, 4]] \<and> length (th_sent demo_threads) \<le> length (th_received demo_threads) + 4
    \<and> same_outside 64 80 dirty (th_mem demo_threads)"
  using threads_fifo [OF capacity_4 slots_ok_64 demo_threads]
  by (simp add: demo_threads_def sizeof_Slot_def kSlotSize_def kSlotAlign_def sizeof_Header_def)







text \<open>
  C16. While two threads use a ring, validation never fails: when the consumer has seen that the ring
  is not empty, the oldest slot holds a complete packet with its checksum in place, and \<open>view\<close> gives a
  pointer to the payload that was sent at that position, even while the producer is in the middle of
  another slot. So a \<open>nullptr\<close> from \<open>peek_read\<close> means an empty ring and nothing else.
\<close>

theorem threads_never_invalid:
  assumes "capacity_ok cap" "slots_ok T base" "(thread_step e T cap cc vc)\<^sup>*\<^sup>* (threads_new base m) s"
    and "th_reader s = R_Loaded head" "rb_tail (th_ring s) \<noteq> head"
  defines "p \<equiv> spsc_slot T cap (th_ring s) (rb_tail (th_ring s))"
  shows "view e T (th_mem s) p (kSlotSize T) verify_crc = p + 16
    \<and> read_bytes (th_mem s) (p + 16) (mt_sizeof T) = th_sent s ! length (th_received s)
    \<and> length (th_received s) < length (th_sent s)"
proof -
  obtain c where c: "channel_ok cap c" "threads_match e T cap base m s c"
    using threads_protocol [OF assms(1-3)] by blast
  have at: "ch_consumer c = C_Loaded head" "ch_tail c \<noteq> head"
    and p: "p = base + index_of cap (ch_tail c) * sizeof_Slot T"
    and hist: "th_sent s = sent c" "map Some (th_received s) = taken c"
    using c(2) assms(4,5) by (simp_all add: match_defs p_def slot_of_index)
  from hist(2) have len: "length (th_received s) = length (taken c)" by (metis length_map)
  have less: "length (taken c) < length (sent c)"
    using at empty_check [OF c(1) at(1)] c(1) by (auto simp: channel_defs)
  then have "ch_slots c (index_of cap (ch_tail c)) = Some (sent c ! length (taken c))"
    using assms(1) c(1) by (simp add: channel_defs index_of_count)
  with tail_slot [OF assms(1) c(1,2), where h = head] at less show ?thesis
    by (simp add: p hist(1) len)
qed

theorem threads_never_invalid_witness:
  "view Little PingMsg (th_mem demo_threads) 64 20 True = 80
     \<and> read_bytes (th_mem demo_threads) 80 4 = [1, 2, 3, 4]"
proof -
  let ?s = "demo_threads\<lparr>th_reader := R_Loaded 1, th_seen_head := 1\<rparr>"
  have "thread_step Little PingMsg 4 True True demo_threads ?s"
    using r_load [of demo_threads 1 Little PingMsg 4 True]
    by (simp add: thread_step_def demo_threads_def threads_new_def)
  with demo_threads have "(thread_step Little PingMsg 4 True True)\<^sup>*\<^sup>* (threads_new 64 dirty) ?s" by simp
  from threads_never_invalid [OF capacity_4 slots_ok_64 this, where verify_crc = True] show ?thesis
    by (simp add: demo_threads_def threads_new_def spsc_new_def slot_of_index index_of_def kSlotSize_def sizeof_Header_def)
qed

end
