(* ===== verification/Ipc_Processes.thy ===== *)
theory Ipc_Processes
  imports Ipc_Shared Spsc_Threads
begin

text \<open>
  \<open>push\<close> and \<open>pop\<close> of \<open>include/sinew/ipc_ring_buffer.hpp\<close> by two processes at the same time. As in
  \<open>Spsc_Threads\<close> each step is what the code does between two accesses of a cursor; as in \<open>Ipc_Shared\<close>
  each process has its own memory and mapping, and what one writes to the segment appears in the
  mapping of the other. The cursors are bytes of the segment; a load of the other process's cursor
  may be stale. Every run of these steps is a run of \<open>Spsc_Protocol\<close>.
\<close>

section \<open>The two processes\<close>

record ipc_run =
  ip_procs :: processes
  ip_writer :: "u64 writer"
  ip_reader :: "u64 reader"
  ip_sent :: "bytes list"
  ip_received :: "bytes list"
  ip_seen_tail :: nat
  ip_seen_head :: nat

definition ipc_run_new :: "processes \<Rightarrow> ipc_run" where
  "ipc_run_new p = \<lparr>ip_procs = p, ip_writer = W_Idle, ip_reader = R_Idle, ip_sent = [], ip_received = [],
     ip_seen_tail = 0, ip_seen_head = 0\<rparr>"

text \<open>A write by one of the processes, and each process's load of the cursor that only it stores.\<close>

definition produced :: "nat \<Rightarrow> mem \<Rightarrow> ipc_run \<Rightarrow> ipc_run" where
  "produced n m s = s\<lparr>ip_procs := to_consumer n ((ip_procs s)\<lparr>pro_mem := m\<rparr>)\<rparr>"

definition consumed :: "nat \<Rightarrow> mem \<Rightarrow> ipc_run \<Rightarrow> ipc_run" where
  "consumed n m s = s\<lparr>ip_procs := to_producer n ((ip_procs s)\<lparr>con_mem := m\<rparr>)\<rparr>"

definition pro_head :: "endian \<Rightarrow> processes \<Rightarrow> u64" where
  "pro_head e p = load_head e (pro_mem p) (ir_hdr (pro_ring p))"

definition con_tail :: "endian \<Rightarrow> processes \<Rightarrow> u64" where
  "con_tail e p = load_tail e (con_mem p) (ir_hdr (con_ring p))"

inductive ipc_write_step :: "endian \<Rightarrow> msgtype \<Rightarrow> u64 \<Rightarrow> bool \<Rightarrow> ipc_run \<Rightarrow> ipc_run \<Rightarrow> bool"
  for e T cap compute_crc where
  pw_load: "ip_writer s = W_Idle \<Longrightarrow> ipc_is_valid (pro_ring (ip_procs s)) \<Longrightarrow> length val = mt_sizeof T \<Longrightarrow>
    ip_seen_tail s \<le> t \<Longrightarrow> t \<le> length (ip_received s) \<Longrightarrow>
    ipc_write_step e T cap compute_crc s (s\<lparr>ip_writer := W_Loaded val (of_nat t), ip_seen_tail := t\<rparr>)"
| pw_full: "ip_writer s = W_Loaded val tail \<Longrightarrow> cap \<le> pro_head e (ip_procs s) - tail \<Longrightarrow>
    ipc_write_step e T cap compute_crc s (s\<lparr>ip_writer := W_Idle\<rparr>)"
| pw_prepare: "ip_writer s = W_Loaded val tail \<Longrightarrow> \<not> cap \<le> pro_head e (ip_procs s) - tail \<Longrightarrow>
    prepare e T (pro_mem (ip_procs s)) (ipc_slot T cap (pro_ring (ip_procs s)) (pro_head e (ip_procs s)))
      (ipc_kSlotSize T) = (slot, m) \<Longrightarrow>
    ipc_write_step e T cap compute_crc s
      ((produced (ipc_kTotalShmSize T cap) m s)\<lparr>ip_writer := (if slot = nullptr then W_Idle else W_Prepared val slot)\<rparr>)"
| pw_assign: "ip_writer s = W_Prepared val slot \<Longrightarrow>
    ipc_write_step e T cap compute_crc s
      ((produced (ipc_kTotalShmSize T cap) (assign_object (pro_mem (ip_procs s)) slot val) s)\<lparr>ip_writer := W_Assigned val\<rparr>)"
| pw_finalize: "ip_writer s = W_Assigned val \<Longrightarrow>
    payload = ipc_slot T cap (pro_ring (ip_procs s)) (pro_head e (ip_procs s)) + sizeof_Header \<Longrightarrow>
    ipc_write_step e T cap compute_crc s
      ((produced (ipc_kTotalShmSize T cap) (snd (finalize e T (pro_mem (ip_procs s)) payload compute_crc)) s)
        \<lparr>ip_writer := W_Finalized val\<rparr>)"
| pw_publish: "ip_writer s = W_Finalized val \<Longrightarrow>
    ipc_write_step e T cap compute_crc s
      ((produced (ipc_kTotalShmSize T cap)
         (store_head e (pro_mem (ip_procs s)) (ir_hdr (pro_ring (ip_procs s))) (pro_head e (ip_procs s) + 1)) s)
        \<lparr>ip_writer := W_Idle, ip_sent := ip_sent s @ [val]\<rparr>)"

inductive ipc_read_step :: "endian \<Rightarrow> msgtype \<Rightarrow> u64 \<Rightarrow> bool \<Rightarrow> ipc_run \<Rightarrow> ipc_run \<Rightarrow> bool"
  for e T cap verify_crc where
  pr_load: "ip_reader s = R_Idle \<Longrightarrow> ipc_is_valid (con_ring (ip_procs s)) \<Longrightarrow>
    ip_seen_head s \<le> h \<Longrightarrow> h \<le> length (ip_sent s) \<Longrightarrow>
    ipc_read_step e T cap verify_crc s (s\<lparr>ip_reader := R_Loaded (of_nat h), ip_seen_head := h\<rparr>)"
| pr_empty: "ip_reader s = R_Loaded head \<Longrightarrow> con_tail e (ip_procs s) = head \<Longrightarrow>
    ipc_read_step e T cap verify_crc s (s\<lparr>ip_reader := R_Idle\<rparr>)"
| pr_view: "ip_reader s = R_Loaded head \<Longrightarrow> con_tail e (ip_procs s) \<noteq> head \<Longrightarrow>
    item = view e T (con_mem (ip_procs s)) (ipc_slot T cap (con_ring (ip_procs s)) (con_tail e (ip_procs s)))
      (ipc_kSlotSize T) verify_crc \<Longrightarrow>
    ipc_read_step e T cap verify_crc s (s\<lparr>ip_reader := (if item = nullptr then R_Idle else R_Viewed item)\<rparr>)"
| pr_copy: "ip_reader s = R_Viewed item \<Longrightarrow>
    ipc_read_step e T cap verify_crc s
      (s\<lparr>ip_reader := R_Copied (read_bytes (con_mem (ip_procs s)) item (mt_sizeof T))\<rparr>)"
| pr_release: "ip_reader s = R_Copied val \<Longrightarrow>
    ipc_read_step e T cap verify_crc s
      ((consumed (ipc_kTotalShmSize T cap)
         (store_tail e (con_mem (ip_procs s)) (ir_hdr (con_ring (ip_procs s))) (con_tail e (ip_procs s) + 1)) s)
        \<lparr>ip_reader := R_Idle, ip_received := ip_received s @ [val]\<rparr>)"

definition ipc_process_step :: "endian \<Rightarrow> msgtype \<Rightarrow> u64 \<Rightarrow> bool \<Rightarrow> bool \<Rightarrow> ipc_run \<Rightarrow> ipc_run \<Rightarrow> bool" where
  "ipc_process_step e T cap cc vc s s' \<longleftrightarrow> ipc_write_step e T cap cc s s' \<or> ipc_read_step e T cap vc s s'"

section \<open>The protocol behind the segment\<close>

text \<open>
  The two mappings agree, and through the producer's the segment has the cursors of the protocol and
  in each slot what its cell holds. Outside the segment neither process has written.
\<close>

definition segment_match ::
  "endian \<Rightarrow> msgtype \<Rightarrow> u64 \<Rightarrow> processes \<Rightarrow> processes \<Rightarrow> u64 \<Rightarrow> u64 \<Rightarrow> (nat \<Rightarrow> bytes option) \<Rightarrow> bool" where
  "segment_match e T cap p0 p h t cells \<longleftrightarrow> pro_ring p = pro_ring p0 \<and> con_ring p = con_ring p0
     \<and> ipc_ok T cap (pro_ring p0) \<and> ipc_ok T cap (con_ring p0)
     \<and> same_segment (ipc_kTotalShmSize T cap) (pro_mem p) (ir_hdr (pro_ring p0)) (con_mem p) (ir_hdr (con_ring p0))
     \<and> load_head e (pro_mem p) (ir_hdr (pro_ring p0)) = h \<and> load_tail e (pro_mem p) (ir_hdr (pro_ring p0)) = t
     \<and> cells_hold (slot_look e T True) (ir_slots (pro_ring p0)) (ipc_kSlotSize T) (pro_mem p) cells
     \<and> same_outside (ir_hdr (pro_ring p0)) (ipc_kTotalShmSize T cap) (pro_mem p0) (pro_mem p)
     \<and> same_outside (ir_hdr (con_ring p0)) (ipc_kTotalShmSize T cap) (con_mem p0) (con_mem p)"

definition processes_match ::
  "endian \<Rightarrow> msgtype \<Rightarrow> u64 \<Rightarrow> processes \<Rightarrow> ipc_run \<Rightarrow> (u64, bytes) channel \<Rightarrow> bool" where
  "processes_match e T cap p0 s c \<longleftrightarrow> segment_match e T cap p0 (ip_procs s) (ch_head c) (ch_tail c) (ch_slots c)
     \<and> ip_sent s = sent c \<and> map Some (ip_received s) = taken c
     \<and> ip_seen_tail s = seen_tail c \<and> ip_seen_head s = seen_head c
     \<and> writer_match e T (pro_mem (ip_procs s)) (ipc_slot T cap (pro_ring p0) (ch_head c)) (ip_writer s)
         (ch_slots c (index_of cap (ch_head c))) (ch_producer c)
     \<and> reader_match (ipc_slot T cap (con_ring p0) (ch_tail c)) (ip_reader s) (ch_consumer c)"

lemma ipc_slot_index: "ipc_slot T cap rb i = ir_slots rb + index_of cap i * ipc_kSlotSize T"
  by (simp add: ipc_slot_def ring_slot_def index_of_def)

lemma ipc_slot_inside:
  assumes "ipc_ok T cap rb"
  shows "ipc_slot T cap rb i + message_size T \<le> ir_hdr rb + ipc_kTotalShmSize T cap"
  using stride_inside [OF index_below [OF ipc_okD(1) [OF assms]] ipc_kSlotSize_props(1), of i T] assms
  by (simp add: ipc_slot_index ipc_kTotalShmSize_def sizeof_IpcRingHeader_def ipc_ok_def)

lemma segment_matchD:
  assumes "segment_match e T cap p0 p h t cells"
  shows "pro_head e p = h" "con_tail e p = t" "pro_ring p = pro_ring p0" "con_ring p = con_ring p0"
    "ipc_ok T cap (pro_ring p0)" "ipc_ok T cap (con_ring p0)"
    "slot_look e T c (con_mem p) (ipc_slot T cap (con_ring p0) i) = slot_look e T c (pro_mem p) (ipc_slot T cap (pro_ring p0) i)"
proof -
  show "pro_head e p = h" "pro_ring p = pro_ring p0" "con_ring p = con_ring p0"
      "ipc_ok T cap (pro_ring p0)" "ipc_ok T cap (con_ring p0)"
    using assms by (simp_all add: segment_match_def pro_head_def)
  have seg: "same_segment (ipc_kTotalShmSize T cap) (pro_mem p) (ir_hdr (pro_ring p0)) (con_mem p) (ir_hdr (con_ring p0))"
    using assms by (simp add: segment_match_def)
  from same_segment_header [OF this, of e] show "con_tail e p = t"
    using assms by (simp add: segment_match_def con_tail_def header_cursors)
  show "slot_look e T c (con_mem p) (ipc_slot T cap (con_ring p0) i) = slot_look e T c (pro_mem p) (ipc_slot T cap (pro_ring p0) i)"
    using look_relocate [OF seg, of e c i] assms by (simp add: segment_match_def)
qed

text \<open>A write of the producer inside the segment.\<close>

lemma segment_produced:
  assumes match: "segment_match e T cap p0 p h t cells"
    and frame: "same_outside (ir_hdr (pro_ring p0)) (ipc_kTotalShmSize T cap) (pro_mem p) m"
    and "load_head e m (ir_hdr (pro_ring p0)) = h'" "load_tail e m (ir_hdr (pro_ring p0)) = t"
    and "cells_hold (slot_look e T True) (ir_slots (pro_ring p0)) (ipc_kSlotSize T) m cells'"
  shows "segment_match e T cap p0 (to_consumer (ipc_kTotalShmSize T cap) (p\<lparr>pro_mem := m\<rparr>)) h' t cells'"
proof -
  let ?n = "ipc_kTotalShmSize T cap" and ?p = "p\<lparr>pro_mem := m\<rparr>"
  have "same_outside (ir_hdr (con_ring p0)) ?n (con_mem p0) (con_mem (to_consumer ?n ?p))"
    using match by (auto simp: segment_match_def to_consumer_def intro!: same_outside_writeI)
  moreover have "same_outside (ir_hdr (pro_ring p0)) ?n (pro_mem p0) m"
    using match frame by (auto simp: segment_match_def intro: same_outside_trans)
  moreover have "same_segment ?n m (ir_hdr (pro_ring p0)) (con_mem (to_consumer ?n ?p)) (ir_hdr (con_ring p0))"
    using to_consumer_sel(4) [of ?n ?p "ir_hdr (pro_ring p0)"] match by (simp add: segment_match_def)
  ultimately show ?thesis using match assms(3-5) by (simp add: segment_match_def)
qed

text \<open>The producer fills the slot at the head: the cursors stay.\<close>

lemma segment_filled:
  assumes match: "segment_match e T cap p0 p h t cells"
    and frame: "same_outside (ipc_slot T cap (pro_ring p0) h) (message_size T) (pro_mem p) m"
    and cells: "cells_hold (slot_look e T True) (ir_slots (pro_ring p0)) (ipc_kSlotSize T) m cells'"
  shows "segment_match e T cap p0 (to_consumer (ipc_kTotalShmSize T cap) (p\<lparr>pro_mem := m\<rparr>)) h t cells'"
proof -
  have ok: "ipc_ok T cap (pro_ring p0)" using match by (rule segment_matchD)
  have above: "ir_hdr (pro_ring p0) + 192 \<le> ipc_slot T cap (pro_ring p0) h" by (rule ipc_okD(5) [OF ok])
  with frame ipc_slot_inside [OF ok, of h]
  have "same_outside (ir_hdr (pro_ring p0)) (ipc_kTotalShmSize T cap) (pro_mem p) m"
    by (intro same_outside_mono [OF frame]) auto
  then show ?thesis
    using segment_produced [OF match _ _ _ cells] cursor_frame [OF frame above, of e] match
    by (simp add: segment_match_def)
qed

lemma cursor_inside: "same_outside p 192 m m' \<Longrightarrow> same_outside p (ipc_kTotalShmSize T cap) m m'"
  by (erule same_outside_mono) (simp_all add: ipc_kTotalShmSize_def sizeof_IpcRingHeader_def)

lemma segment_published:
  assumes match: "segment_match e T cap p0 p h t cells"
  shows "segment_match e T cap p0 (to_consumer (ipc_kTotalShmSize T cap)
    (p\<lparr>pro_mem := store_head e (pro_mem p) (ir_hdr (pro_ring p0)) h'\<rparr>)) h' t cells"
proof -
  have below: "ir_hdr (pro_ring p0) + 192 \<le> ir_slots (pro_ring p0)"
    using match by (simp add: segment_match_def ipc_ok_def)
  have cells: "cells_hold (slot_look e T True) (ir_slots (pro_ring p0)) (ipc_kSlotSize T) (pro_mem p) cells"
    using match by (simp add: segment_match_def)
  from wire.cells_frame [OF this cursor_store_frame(1) below]
  show ?thesis
    using match by (intro segment_produced [OF match]) (auto simp: segment_match_def intro: cursor_inside cursor_store_frame)
qed

text \<open>The consumer moves \<open>tail\<close>; seen from the producer, \<open>tail\<close> and nothing else has changed.\<close>

lemma write_through:
  assumes "read_bytes m p n = read_bytes m' p' n" "k + length bs \<le> n"
  shows "write_bytes m p (read_bytes (write_bytes m' (p' + k) bs) p' n) = write_bytes m (p + k) bs"
proof
  fix x
  show "write_bytes m p (read_bytes (write_bytes m' (p' + k) bs) p' n) x = write_bytes m (p + k) bs x"
  proof (cases "p \<le> x \<and> x < p + n")
    case True
    then obtain i where x: "x = p + i" "i < n" by (metis add_less_cancel_left le_Suc_ex)
    then have "m (p + i) = m' (p' + i)" using arg_cong [OF assms(1), of "\<lambda>bs. bs ! i"] by simp
    with x show ?thesis by (simp add: write_bytes_def)
  next
    case False
    with assms(2) show ?thesis by (auto simp: write_bytes_def)
  qed
qed

lemma to_producer_store_tail:
  assumes "same_segment n (pro_mem p) (ir_hdr (pro_ring p)) (con_mem p) (ir_hdr (con_ring p))" "136 \<le> n"
  shows "pro_mem (to_producer n (p\<lparr>con_mem := store_tail e (con_mem p) (ir_hdr (con_ring p)) t\<rparr>)) =
    store_tail e (pro_mem p) (ir_hdr (pro_ring p)) t"
  using write_through [of "pro_mem p" "ir_hdr (pro_ring p)" n "con_mem p" "ir_hdr (con_ring p)" 128 "obj_of_word e 8 t"] assms
  by (simp add: to_producer_def store_tail_def store_u64_def same_segment_def)

lemma segment_released:
  fixes t' :: u64
  assumes match: "segment_match e T cap p0 p h t cells"
  defines "p' \<equiv> to_producer (ipc_kTotalShmSize T cap) (p\<lparr>con_mem := store_tail e (con_mem p) (ir_hdr (con_ring p0)) t'\<rparr>)"
  shows "segment_match e T cap p0 p' h t' cells" "same_outside (ir_hdr (pro_ring p0)) 192 (pro_mem p) (pro_mem p')"
proof -
  let ?n = "ipc_kTotalShmSize T cap" and ?m = "store_tail e (con_mem p) (ir_hdr (con_ring p0)) t'"
  have rings: "pro_ring p = pro_ring p0" "con_ring p = con_ring p0"
    and seg: "same_segment ?n (pro_mem p) (ir_hdr (pro_ring p0)) (con_mem p) (ir_hdr (con_ring p0))"
    and cells: "cells_hold (slot_look e T True) (ir_slots (pro_ring p0)) (ipc_kSlotSize T) (pro_mem p) cells"
    using match by (simp_all add: segment_match_def)
  have n: "136 \<le> ?n" and below: "ir_hdr (pro_ring p0) + 192 \<le> ir_slots (pro_ring p0)"
    using match by (simp_all add: segment_match_def ipc_kTotalShmSize_def sizeof_IpcRingHeader_def ipc_ok_def)
  have mem: "pro_mem p' = store_tail e (pro_mem p) (ir_hdr (pro_ring p0)) t'"
    using to_producer_store_tail [of ?n p e t'] seg n by (simp add: p'_def rings)
  then show "same_outside (ir_hdr (pro_ring p0)) 192 (pro_mem p) (pro_mem p')" by (simp add: cursor_store_frame)
  have "same_segment ?n (pro_mem p') (ir_hdr (pro_ring p0)) ?m (ir_hdr (con_ring p0))"
    using to_producer_sel(4) [of ?n "p\<lparr>con_mem := ?m\<rparr>" "ir_hdr (con_ring p0)"] by (simp add: p'_def rings)
  moreover have "same_outside (ir_hdr (con_ring p0)) ?n (con_mem p0) ?m"
    "same_outside (ir_hdr (pro_ring p0)) ?n (pro_mem p0) (pro_mem p')"
    using match by (auto simp: segment_match_def mem intro: same_outside_trans cursor_inside cursor_store_frame)
  moreover have "cells_hold (slot_look e T True) (ir_slots (pro_ring p0)) (ipc_kSlotSize T) (pro_mem p') cells"
    unfolding mem by (rule wire.cells_frame [OF cells cursor_store_frame(2) below])
  ultimately show "segment_match e T cap p0 p' h t' cells"
    using match by (simp add: segment_match_def mem) (simp add: p'_def)
qed

text \<open>A writer in the middle of a call does not depend on what lies below its slot.\<close>

lemma writer_match_frame:
  assumes "same_outside q n m m'" "q + n \<le> p"
  shows "writer_match e T m' p w cell pr = writer_match e T m p w cell pr"
proof -
  note same = same_outside_read [OF assms(1)]
  have "stamped e T m' p = stamped e T m p" using assms(2) by (simp add: stamped_def load_defs same)
  moreover have "read_bytes m' (p + 16) (mt_sizeof T) = read_bytes m (p + 16) (mt_sizeof T)"
    using assms(2) by (intro same) simp
  ultimately show ?thesis by (cases w) (simp_all add: writer_match_def)
qed

section \<open>Every step is matched\<close>

lemmas process_match_defs = processes_match_def writer_match_def reader_match_def produced_def consumed_def

text \<open>The three steps that fill the slot at the head.\<close>

lemma ipc_prepare_matched:
  assumes match: "processes_match e T cap p0 s c" and at: "ip_writer s = W_Loaded v t"
    and prep: "prepare e T (pro_mem (ip_procs s)) (ipc_slot T cap (pro_ring (ip_procs s)) (pro_head e (ip_procs s)))
      (ipc_kSlotSize T) = (slot, m)"
  shows "processes_match e T cap p0
    ((produced (ipc_kTotalShmSize T cap) m s)\<lparr>ip_writer := (if slot = nullptr then W_Idle else W_Prepared v slot)\<rparr>)
    (c\<lparr>ch_producer := P_Writing v, ch_slots := (ch_slots c)(index_of cap (ch_head c) := None)\<rparr>)"
proof -
  let ?p = "ipc_slot T cap (pro_ring p0) (ch_head c)"
  have seg: "segment_match e T cap p0 (ip_procs s) (ch_head c) (ch_tail c) (ch_slots c)"
    using match by (simp add: processes_match_def)
  have fits: "fits T ?p" using segment_matchD(5) [OF seg] by (rule ipc_okD)
  have m: "slot = ?p + 16" "m = prepared e T (pro_mem (ip_procs s)) ?p"
    using prep fits ipc_kSlotSize_props(1) [of T] by (simp_all add: segment_matchD [OF seg])
  have frame: "same_outside ?p (message_size T) (pro_mem (ip_procs s)) m" unfolding m by (rule wire.prep_frame [OF fits])
  have "cells_hold (slot_look e T True) (ir_slots (pro_ring p0)) (ipc_kSlotSize T) (pro_mem (ip_procs s)) (ch_slots c)"
    using seg by (simp add: segment_match_def)
  note segment_filled [OF seg frame wire.cells_write [OF this frame [unfolded ipc_slot_index] ipc_kSlotSize_props(1)]]
  moreover have "stamped e T m ?p" unfolding m by (rule wire.ready_prep [OF fits])
  ultimately show ?thesis using at match m(1) by (auto simp: process_match_defs)
qed

lemma ipc_assign_matched:
  assumes match: "processes_match e T cap p0 s c" and "ip_writer s = W_Prepared v slot"
  shows "processes_match e T cap p0
    ((produced (ipc_kTotalShmSize T cap) (assign_object (pro_mem (ip_procs s)) slot v) s)\<lparr>ip_writer := W_Assigned v\<rparr>) c"
proof -
  let ?p = "ipc_slot T cap (pro_ring p0) (ch_head c)" and ?m = "assign_object (pro_mem (ip_procs s)) slot v"
  let ?i = "index_of cap (ch_head c)"
  have seg: "segment_match e T cap p0 (ip_procs s) (ch_head c) (ch_tail c) (ch_slots c)"
    using match by (simp add: processes_match_def)
  have at: "slot = ?p + 16" "length v = mt_sizeof T" "stamped e T (pro_mem (ip_procs s)) ?p" "ch_slots c ?i = None"
    using assms(2) match by (auto simp: process_match_defs)
  have frame: "same_outside ?p (message_size T) (pro_mem (ip_procs s)) ?m"
    using at(2) by (auto simp: at(1) assign_object_def message_size_eq intro!: same_outside_writeI)
  have "cells_hold (slot_look e T True) (ir_slots (pro_ring p0)) (ipc_kSlotSize T) (pro_mem (ip_procs s)) (ch_slots c)"
    using seg by (simp add: segment_match_def)
  note segment_filled [OF seg frame wire.cells_write [OF this frame [unfolded ipc_slot_index] ipc_kSlotSize_props(1)]]
  moreover have "stamped e T ?m ?p" "read_bytes ?m (?p + 16) (mt_sizeof T) = v"
    using stamped_assign [OF at(3)] at(2) by (auto simp: at(1) assign_object_def)
  moreover have "(ch_slots c)(?i := None) = ch_slots c" using at(4) by auto
  ultimately show ?thesis using assms(2) match by (auto simp: process_match_defs)
qed

lemma ipc_finalize_matched:
  assumes match: "processes_match e T cap p0 s c" and "ip_writer s = W_Assigned v"
  defines "payload \<equiv> ipc_slot T cap (pro_ring (ip_procs s)) (pro_head e (ip_procs s)) + sizeof_Header"
  shows "processes_match e T cap p0
    ((produced (ipc_kTotalShmSize T cap) (snd (finalize e T (pro_mem (ip_procs s)) payload cc)) s)\<lparr>ip_writer := W_Finalized v\<rparr>)
    (c\<lparr>ch_producer := P_Ready v, ch_slots := (ch_slots c)(index_of cap (ch_head c) := Some v)\<rparr>)"
proof -
  let ?i = "index_of cap (ch_head c)" and ?m = "snd (finalize e T (pro_mem (ip_procs s)) payload cc)"
  let ?p = "ipc_slot T cap (pro_ring p0) (ch_head c)"
  have seg: "segment_match e T cap p0 (ip_procs s) (ch_head c) (ch_tail c) (ch_slots c)"
    using match by (simp add: processes_match_def)
  have fits: "fits T ?p" using segment_matchD(5) [OF seg] by (rule ipc_okD)
  have at: "stamped e T (pro_mem (ip_procs s)) ?p" "read_bytes (pro_mem (ip_procs s)) (?p + 16) (mt_sizeof T) = v"
    using assms(2) match by (auto simp: process_match_defs)
  have m: "?m = slot_seal e T cc (pro_mem (ip_procs s)) ?p"
    by (simp add: payload_def segment_matchD [OF seg] slot_seal_def sizeof_Header_def)
  have frame: "same_outside ?p (message_size T) (pro_mem (ip_procs s)) ?m" unfolding m by (rule wire.seal_frame [OF fits])
  have "cells_hold (slot_look e T True) (ir_slots (pro_ring p0)) (ipc_kSlotSize T) (pro_mem (ip_procs s)) (ch_slots c)"
    using seg by (simp add: segment_match_def)
  then have "cells_hold (slot_look e T True) (ir_slots (pro_ring p0)) (ipc_kSlotSize T) ?m ((ch_slots c)(?i := Some v))"
    using wire.cells_seal [OF _ ipc_kSlotSize_props(1) fits [unfolded ipc_slot_index] at(1) [unfolded ipc_slot_index],
        where c = True and c' = cc] at(2) by (simp add: m ipc_slot_index)
  from segment_filled [OF seg frame this] show ?thesis using assms(2) match by (auto simp: process_match_defs)
qed

lemma ipc_write_matched:
  assumes step: "ipc_write_step e T cap cc s s'" and match: "processes_match e T cap p0 s c"
  shows "processes_match e T cap p0 s' c \<or> (\<exists>c'. spsc_step cap c c' \<and> processes_match e T cap p0 s' c')"
proof -
  have seg: "segment_match e T cap p0 (ip_procs s) (ch_head c) (ch_tail c) (ch_slots c)"
    using match by (simp add: processes_match_def)
  note head = segment_matchD(1) [OF seg]
  from step show ?thesis
  proof cases
    case (pw_load v t)
    let ?c = "c\<lparr>ch_producer := P_Loaded (of_nat t), seen_tail := t\<rparr>"
    have "spsc_step cap c ?c"
      using pw_load match by (intro spsc_step.load_tail) (auto simp: process_match_defs dest: arg_cong [where f = length])
    moreover have "processes_match e T cap p0 s' ?c" using pw_load match by (auto simp: process_match_defs)
    ultimately show ?thesis by blast
  next
    case (pw_full v t)
    have "spsc_step cap c (c\<lparr>ch_producer := P_Idle\<rparr>)"
      using pw_full match by (intro spsc_step.full) (auto simp: process_match_defs head)
    moreover have "processes_match e T cap p0 s' (c\<lparr>ch_producer := P_Idle\<rparr>)"
      using pw_full match by (auto simp: process_match_defs)
    ultimately show ?thesis by blast
  next
    case (pw_prepare v t slot m)
    have "spsc_step cap c (c\<lparr>ch_producer := P_Writing v, ch_slots := (ch_slots c)(index_of cap (ch_head c) := None)\<rparr>)"
      using pw_prepare match by (intro spsc_step.assign) (auto simp: process_match_defs head)
    with ipc_prepare_matched [OF match pw_prepare(2,4)] pw_prepare(1) show ?thesis by blast
  next
    case (pw_assign v slot)
    then show ?thesis using ipc_assign_matched [OF match] by blast
  next
    case (pw_finalize v payload)
    have "spsc_step cap c (c\<lparr>ch_producer := P_Ready v, ch_slots := (ch_slots c)(index_of cap (ch_head c) := Some v)\<rparr>)"
      using pw_finalize match by (intro spsc_step.finish) (auto simp: process_match_defs)
    with ipc_finalize_matched [OF match pw_finalize(2)] pw_finalize(1,3) show ?thesis by blast
  next
    case (pw_publish v)
    let ?c = "c\<lparr>ch_producer := P_Idle, ch_head := ch_head c + 1, sent := sent c @ [v]\<rparr>"
    have "spsc_step cap c ?c" using pw_publish match by (intro spsc_step.publish) (auto simp: process_match_defs)
    moreover have "processes_match e T cap p0 s' ?c"
      using pw_publish match segment_published [OF seg, of "ch_head c + 1"] segment_matchD(3) [OF seg]
      by (auto simp: process_match_defs head)
    ultimately show ?thesis by blast
  qed
qed

text \<open>The slot at the tail, in the mapping of the consumer.\<close>

lemma ipc_tail_slot:
  assumes "capacity_ok cap" "channel_ok cap c" "segment_match e T cap p0 p (ch_head c) (ch_tail c) (ch_slots c)"
    and "ch_consumer c = C_Reading \<or> (ch_consumer c = C_Loaded h \<and> ch_tail c \<noteq> h)"
  defines "q \<equiv> ipc_slot T cap (con_ring p0) (ch_tail c)"
  shows "ch_slots c (index_of cap (ch_tail c)) = Some (read_bytes (con_mem p) (q + 16) (mt_sizeof T))"
    and "view e T (con_mem p) q (ipc_kSlotSize T) vc = q + 16"
proof -
  obtain v where v: "ch_slots c (index_of cap (ch_tail c)) = Some v" using tail_in_flight [OF assms(1,2,4)] .
  then have "slot_look e T True (pro_mem p) (ipc_slot T cap (pro_ring p0) (ch_tail c)) = Some v"
    using assms(3) by (simp add: segment_match_def cells_hold_def ipc_slot_index)
  then have look: "slot_look e T True (con_mem p) q = Some v"
    by (simp add: q_def segment_matchD(7) [OF assms(3)])
  then show "ch_slots c (index_of cap (ch_tail c)) = Some (read_bytes (con_mem p) (q + 16) (mt_sizeof T))"
    using v by (simp add: slot_look_Some)
  from slot_look_weaken [OF look, of vc] show "view e T (con_mem p) q (ipc_kSlotSize T) vc = q + 16"
    by (simp add: view_slot_look ipc_kSlotSize_props)
qed

lemma ipc_release_matched:
  assumes match: "processes_match e T cap p0 s c" and "ip_reader s = R_Copied v"
  shows "processes_match e T cap p0
    ((consumed (ipc_kTotalShmSize T cap)
       (store_tail e (con_mem (ip_procs s)) (ir_hdr (con_ring (ip_procs s))) (con_tail e (ip_procs s) + 1)) s)
      \<lparr>ip_reader := R_Idle, ip_received := ip_received s @ [v]\<rparr>)
    (c\<lparr>ch_consumer := C_Idle, ch_tail := ch_tail c + 1, taken := taken c @ [Some v]\<rparr>)"
proof -
  have seg: "segment_match e T cap p0 (ip_procs s) (ch_head c) (ch_tail c) (ch_slots c)"
    using match by (simp add: processes_match_def)
  note released = segment_released [OF seg, of "ch_tail c + 1"]
  have "ir_hdr (pro_ring p0) + 192 \<le> ipc_slot T cap (pro_ring p0) (ch_head c)"
    by (rule ipc_okD(5) [OF segment_matchD(5) [OF seg]])
  note same = writer_match_frame [OF released(2) this]
  show ?thesis
    using match assms(2) released(1) unfolding processes_match_def consumed_def
    by (simp add: segment_matchD(2,4) [OF seg] same reader_match_def)
qed

lemma ipc_read_matched:
  assumes ok: "capacity_ok cap" "channel_ok cap c" and step: "ipc_read_step e T cap vc s s'"
    and match: "processes_match e T cap p0 s c"
  shows "processes_match e T cap p0 s' c \<or> (\<exists>c'. spsc_step cap c c' \<and> processes_match e T cap p0 s' c')"
proof -
  have seg: "segment_match e T cap p0 (ip_procs s) (ch_head c) (ch_tail c) (ch_slots c)"
    using match by (simp add: processes_match_def)
  note tail = segment_matchD(2,4) [OF seg] and slot = ipc_tail_slot [OF ok seg]
  from step show ?thesis
  proof cases
    case (pr_load h)
    let ?c = "c\<lparr>ch_consumer := C_Loaded (of_nat h), seen_head := h\<rparr>"
    have "spsc_step cap c ?c" using pr_load match by (intro spsc_step.load_head) (auto simp: process_match_defs)
    moreover have "processes_match e T cap p0 s' ?c" using pr_load match by (auto simp: process_match_defs)
    ultimately show ?thesis by blast
  next
    case (pr_empty h)
    let ?c = "c\<lparr>ch_consumer := C_Idle\<rparr>"
    have "spsc_step cap c ?c" using pr_empty match by (intro spsc_step.empty) (auto simp: process_match_defs tail)
    moreover have "processes_match e T cap p0 s' ?c" using pr_empty match by (auto simp: process_match_defs)
    ultimately show ?thesis by blast
  next
    case (pr_view h item)
    let ?c = "c\<lparr>ch_consumer := C_Reading\<rparr>"
    have at: "ch_consumer c = C_Loaded h" "ch_tail c \<noteq> h" using pr_view match by (auto simp: process_match_defs tail)
    then have "item = ipc_slot T cap (con_ring p0) (ch_tail c) + 16" using slot(2) pr_view(4) unfolding tail by blast
    then have "processes_match e T cap p0 s' ?c" using pr_view match by (auto simp: process_match_defs)
    moreover have "spsc_step cap c ?c" using at by (rule spsc_step.peek)
    ultimately show ?thesis by blast
  next
    case (pr_copy item)
    let ?c = "c\<lparr>ch_consumer := C_Took (ch_slots c (index_of cap (ch_tail c)))\<rparr>"
    have at: "ch_consumer c = C_Reading" "item = ipc_slot T cap (con_ring p0) (ch_tail c) + 16"
      using pr_copy match by (auto simp: process_match_defs)
    have "processes_match e T cap p0 s' ?c" using slot(1) pr_copy match at by (auto simp: process_match_defs)
    moreover have "spsc_step cap c ?c" using at(1) by (rule spsc_step.copy)
    ultimately show ?thesis by blast
  next
    case (pr_release v)
    have "spsc_step cap c (c\<lparr>ch_consumer := C_Idle, ch_tail := ch_tail c + 1, taken := taken c @ [Some v]\<rparr>)"
      using pr_release match by (intro spsc_step.release) (auto simp: process_match_defs)
    with ipc_release_matched [OF match pr_release(2)] pr_release(1) show ?thesis by blast
  qed
qed

interpretation processes: step_simulation "spsc_step cap" "\<lambda>c. capacity_ok cap \<and> channel_ok cap c"
  "ipc_process_step e T cap cc vc" "processes_match e T cap p0"
  for e T cc vc p0 and cap :: u64
proof (unfold_locales, goal_cases)
  case (1 c c')
  then show ?case using channel_ok_step by blast
next
  case (2 s c s')
  then show ?case using ipc_write_matched ipc_read_matched unfolding ipc_process_step_def by blast
qed

text \<open>Two processes attached to an empty ring.\<close>

definition attached_empty :: "endian \<Rightarrow> msgtype \<Rightarrow> u64 \<Rightarrow> processes \<Rightarrow> bool" where
  "attached_empty e T cap p \<longleftrightarrow> shared_inv e T cap p \<and> pro_head e p = 0 \<and> load_tail e (pro_mem p) (ir_hdr (pro_ring p)) = 0"

lemma processes_protocol:
  assumes start: "attached_empty e T cap p0" and steps: "(ipc_process_step e T cap cc vc)\<^sup>*\<^sup>* (ipc_run_new p0) s"
  obtains c where "capacity_ok cap" "channel_ok cap c" "processes_match e T cap p0 s c"
proof -
  have ok: "ipc_ok T cap (pro_ring p0)" using start by (simp add: attached_empty_def shared_inv_def ipc_inv_def)
  have "processes_match e T cap p0 (ipc_run_new p0) channel_new"
    using start ok by (simp add: process_match_defs segment_match_def ipc_run_new_def channel_new_def
        attached_empty_def shared_inv_def pro_head_def)
  moreover have "channel_ok cap (channel_new :: (_, bytes) channel)" by (rule channel_ok_new)
  ultimately show thesis
    using processes.steps_match [OF steps] ipc_okD(1) [OF ok] that by blast
qed

section \<open>What the two processes do\<close>

lemma processes_start:
  assumes type: "capacity_ok cap" "is_valid_message T" "mt_alignof T dvd 16"
      "unat cap < 2 ^ 32" "ipc_kSlotSize T < 2 ^ 32"
    and mapped: "region_create sys name (of_nat (ipc_kTotalShmSize T cap)) os = (shm, os1)"
      "region_is_valid shm" "16 dvd rg_data shm"
    and create: "ipc_create sys e T cap name m os = (producer, m1, os2)"
    and peer: "region_open sys' name (of_nat (ipc_kTotalShmSize T cap)) os3 = (shm', os4)"
      "region_is_valid shm'" "16 dvd rg_data shm'"
    and seg: "same_segment (ipc_kTotalShmSize T cap) m1 (rg_data shm) m3 (rg_data shm')"
  shows "attached_empty e T cap \<lparr>pro_ring = producer, pro_mem = m1,
    con_ring = fst (ipc_open sys' e T cap name m3 os3), con_mem = m3\<rparr>"
  using shared_start [OF type mapped create peer seg] ipc_create_cursors [OF mapped(1,2) create]
  by (simp add: attached_empty_def pro_head_def)

lemma processes_facts:
  assumes "attached_empty e T cap p0" "(ipc_process_step e T cap cc vc)\<^sup>*\<^sup>* (ipc_run_new p0) s"
  shows "ip_received s = take (length (ip_received s)) (ip_sent s)" "length (ip_received s) \<le> length (ip_sent s)"
    "length (ip_sent s) \<le> length (ip_received s) + unat cap"
    "same_outside (ir_hdr (pro_ring p0)) (ipc_kTotalShmSize T cap) (pro_mem p0) (pro_mem (ip_procs s))"
    "same_outside (ir_hdr (con_ring p0)) (ipc_kTotalShmSize T cap) (con_mem p0) (con_mem (ip_procs s))"
proof -
  obtain c where ok: "channel_ok cap c" and match: "processes_match e T cap p0 s c"
    using processes_protocol [OF assms] by blast
  from match have hist: "ip_sent s = sent c" "map Some (ip_received s) = taken c" by (simp_all add: processes_match_def)
  from hist(2) have len: "length (ip_received s) = length (taken c)" by (metis length_map)
  have "map Some (ip_received s) = map Some (take (length (taken c)) (sent c))"
    using ok hist(2) by (simp add: channel_defs)
  then show "ip_received s = take (length (ip_received s)) (ip_sent s)"
    using hist(1) len by (metis inj_Some inj_map_eq_map)
  show "length (ip_received s) \<le> length (ip_sent s)" "length (ip_sent s) \<le> length (ip_received s) + unat cap"
    using ok hist(1) len by (auto simp: channel_defs)
  show "same_outside (ir_hdr (pro_ring p0)) (ipc_kTotalShmSize T cap) (pro_mem p0) (pro_mem (ip_procs s))"
    "same_outside (ir_hdr (con_ring p0)) (ipc_kTotalShmSize T cap) (con_mem p0) (con_mem (ip_procs s))"
    using match by (simp_all add: processes_match_def segment_match_def)
qed

lemma processes_view:
  assumes "attached_empty e T cap p0" "(ipc_process_step e T cap cc vc)\<^sup>*\<^sup>* (ipc_run_new p0) s"
    and "ip_reader s = R_Loaded head" "con_tail e (ip_procs s) \<noteq> head"
  defines "q \<equiv> ipc_slot T cap (con_ring (ip_procs s)) (con_tail e (ip_procs s))"
  shows "view e T (con_mem (ip_procs s)) q (ipc_kSlotSize T) c = q + 16"
    "read_bytes (con_mem (ip_procs s)) (q + 16) (mt_sizeof T) = ip_sent s ! length (ip_received s)"
    "length (ip_received s) < length (ip_sent s)"
proof -
  obtain d where cap: "capacity_ok cap" and ok: "channel_ok cap d" and match: "processes_match e T cap p0 s d"
    using processes_protocol [OF assms(1,2)] by blast
  then have seg: "segment_match e T cap p0 (ip_procs s) (ch_head d) (ch_tail d) (ch_slots d)"
    and hist: "ip_sent s = sent d" "map Some (ip_received s) = taken d"
    by (simp_all add: processes_match_def)
  have q: "q = ipc_slot T cap (con_ring p0) (ch_tail d)" by (simp add: q_def segment_matchD [OF seg])
  have at: "ch_consumer d = C_Loaded head" "ch_tail d \<noteq> head"
    using match assms(3,4) by (auto simp: process_match_defs segment_matchD [OF seg])
  from hist(2) have len: "length (ip_received s) = length (taken d)" by (metis length_map)
  have less: "length (taken d) < length (sent d)"
    using at empty_check [OF ok at(1)] ok by (auto simp: channel_defs)
  then show "length (ip_received s) < length (ip_sent s)" by (simp add: hist(1) len)
  have "ch_slots d (index_of cap (ch_tail d)) = Some (sent d ! length (taken d))"
    using cap ok less by (simp add: channel_defs index_of_count)
  with ipc_tail_slot [OF cap ok seg, where h = head] at
  show "view e T (con_mem (ip_procs s)) q (ipc_kSlotSize T) c = q + 16"
    "read_bytes (con_mem (ip_procs s)) (q + 16) (mt_sizeof T) = ip_sent s ! length (ip_received s)"
    by (simp_all add: q hist(1) len)
qed

subsection \<open>A whole call without interruption\<close>

lemma produced_sel [simp]:
  "pro_mem (ip_procs (produced n m s)) = m" "pro_ring (ip_procs (produced n m s)) = pro_ring (ip_procs s)"
  "con_ring (ip_procs (produced n m s)) = con_ring (ip_procs s)" "ip_writer (produced n m s) = ip_writer s"
  "ip_reader (produced n m s) = ip_reader s" "ip_sent (produced n m s) = ip_sent s"
  "ip_received (produced n m s) = ip_received s"
  by (simp_all add: produced_def)

lemma pro_head_produced [simp]:
  "pro_head e (ip_procs (produced n m s)) = load_head e m (ir_hdr (pro_ring (ip_procs s)))"
  by (simp add: pro_head_def)

text \<open>The steps of a \<open>push\<close> that finds room.\<close>

lemma ipc_push_steps:
  fixes cc :: bool
  assumes rb: "ipc_ok T cap (pro_ring (ip_procs s))" and idle: "ip_writer s = W_Idle" and len: "length v = mt_sizeof T"
    and seen: "ip_seen_tail s \<le> length (ip_received s)"
    and room: "\<not> cap \<le> pro_head e (ip_procs s) - of_nat (length (ip_received s))"
  defines "p \<equiv> ipc_slot T cap (pro_ring (ip_procs s)) (pro_head e (ip_procs s))"
  defines "m \<equiv> store_head e (pushed_mem e T cc (pro_mem (ip_procs s)) p v) (ir_hdr (pro_ring (ip_procs s)))
    (pro_head e (ip_procs s) + 1)"
  shows "\<exists>s'. (ipc_process_step e T cap cc vc)\<^sup>*\<^sup>* s s' \<and> pro_ring (ip_procs s') = pro_ring (ip_procs s)
    \<and> pro_mem (ip_procs s') = m \<and> ip_writer s' = W_Idle \<and> ip_sent s' = ip_sent s @ [v]
    \<and> ip_reader s' = ip_reader s \<and> ip_received s' = ip_received s"
proof -
  let ?rb = "pro_ring (ip_procs s)" and ?m = "pro_mem (ip_procs s)" and ?n = "ipc_kTotalShmSize T cap"
  let ?h = "pro_head e (ip_procs s)" and ?k = "length (ip_received s)"
  let ?m3 = "assign_object (prepared e T ?m p) (p + 16) v" and ?m4 = "pushed_mem e T cc ?m p v"
  have head: "?h = load_head e ?m (ir_hdr ?rb)" by (simp add: pro_head_def)
  note filled = ipc_committed(2) [OF rb len, where e = e and m = ?m, folded head p_def]
    and sealed = ipc_committed(3) [OF rb len, where e = e and m = ?m and c = cc, folded head p_def]
  have above: "ir_hdr ?rb + 192 \<le> p" unfolding p_def by (rule ipc_okD(5) [OF rb])
  have heads: "load_head e ?m3 (ir_hdr ?rb) = ?h" "load_head e ?m4 (ir_hdr ?rb) = ?h"
    using cursor_frame(1) [OF filled above] cursor_frame(1) [OF sealed above] by (simp_all add: head pushed_mem_def)
  have prep: "prepare e T ?m p (ipc_kSlotSize T) = (p + 16, prepared e T ?m p)"
    using ipc_okD(4) [OF rb, of ?h] ipc_kSlotSize_props(1) [of T] by (simp add: p_def)
  let ?s1 = "s\<lparr>ip_writer := W_Loaded v (of_nat ?k), ip_seen_tail := ?k\<rparr>"
  let ?s2 = "(produced ?n (prepared e T ?m p) ?s1)\<lparr>ip_writer := W_Prepared v (p + 16)\<rparr>"
  let ?s3 = "(produced ?n ?m3 ?s2)\<lparr>ip_writer := W_Assigned v\<rparr>"
  let ?s4 = "(produced ?n ?m4 ?s3)\<lparr>ip_writer := W_Finalized v\<rparr>"
  let ?s5 = "(produced ?n m ?s4)\<lparr>ip_writer := W_Idle, ip_sent := ip_sent s @ [v]\<rparr>"
  note step = ipc_process_step_def [of e T cap cc vc]
  have "ipc_process_step e T cap cc vc s ?s1"
    unfolding step using idle ipc_okD(2) [OF rb] len seen by (auto intro: pw_load)
  moreover have "ipc_process_step e T cap cc vc ?s1 ?s2"
    unfolding step using pw_prepare [of ?s1 v "of_nat ?k" cap e T "p + 16" "prepared e T ?m p" cc] room prep
    by (simp add: p_def)
  moreover have "ipc_process_step e T cap cc vc ?s2 ?s3"
    unfolding step using pw_assign [of ?s2 v "p + 16" e T cap cc] by simp
  moreover have "ipc_process_step e T cap cc vc ?s3 ?s4"
    unfolding step using pw_finalize [of ?s3 v _ T cap e cc]
    by (simp add: heads pushed_mem_def slot_seal_def sizeof_Header_def p_def [symmetric])
  moreover have "ipc_process_step e T cap cc vc ?s4 ?s5"
    unfolding step using pw_publish [of ?s4 v e T cap cc] by (simp add: heads m_def)
  ultimately have "(ipc_process_step e T cap cc vc)\<^sup>*\<^sup>* s ?s5"
    by (meson rtranclp.rtrancl_refl rtranclp.rtrancl_into_rtrancl)
  then show ?thesis by (intro exI [of _ ?s5]) simp
qed

lemma ipc_push_result:
  fixes e :: endian and m :: mem
  assumes rb: "ipc_ok T cap rb" and len: "length v = mt_sizeof T"
  defines "h \<equiv> load_head e m (ir_hdr rb)"
  shows "ipc_push e T cap v cc (rb, m) = (if cap \<le> h - load_tail e m (ir_hdr rb) then (False, rb, m)
    else (True, rb, store_head e (pushed_mem e T cc m (ipc_slot T cap rb h) v) (ir_hdr rb) (h + 1)))"
  using ipc_committed(1) [OF rb len, where e = e and m = m and c = cc] ipc_okD(2) [OF rb]
    ipc_okD(4) [OF rb, of h] ipc_kSlotSize_props(1) [of T]
  by (simp add: ipc_push_def ipc_prepare_write_def h_def Let_def pushed_mem_def)

lemma ipc_idle_facts:
  assumes start: "attached_empty e T cap p0" and steps: "(ipc_process_step e T cap cc vc)\<^sup>*\<^sup>* (ipc_run_new p0) s"
  shows "ipc_ok T cap (pro_ring (ip_procs s))" "ipc_ok T cap (con_ring (ip_procs s))"
    "ip_seen_tail s \<le> length (ip_received s)" "ip_seen_head s \<le> length (ip_sent s)"
    "load_tail e (pro_mem (ip_procs s)) (ir_hdr (pro_ring (ip_procs s))) = of_nat (length (ip_received s))"
    "load_head e (con_mem (ip_procs s)) (ir_hdr (con_ring (ip_procs s))) = of_nat (length (ip_sent s))"
proof -
  obtain c where c: "channel_ok cap c" and match: "processes_match e T cap p0 s c"
    using processes_protocol [OF start steps] by blast
  then have seg: "segment_match e T cap p0 (ip_procs s) (ch_head c) (ch_tail c) (ch_slots c)"
    by (simp add: processes_match_def)
  show "ipc_ok T cap (pro_ring (ip_procs s))" "ipc_ok T cap (con_ring (ip_procs s))"
    using segment_matchD [OF seg] by simp_all
  show "ip_seen_tail s \<le> length (ip_received s)" "ip_seen_head s \<le> length (ip_sent s)"
    "load_tail e (pro_mem (ip_procs s)) (ir_hdr (pro_ring (ip_procs s))) = of_nat (length (ip_received s))"
    using match c segment_matchD(3) [OF seg]
    by (auto simp: processes_match_def segment_match_def channel_defs dest: arg_cong [where f = length])
  have "load_head e (pro_mem (ip_procs s)) (ir_hdr (pro_ring p0)) = of_nat (length (ip_sent s))"
    using match c by (simp add: processes_match_def segment_match_def channel_defs)
  moreover have "same_segment (ipc_kTotalShmSize T cap) (pro_mem (ip_procs s)) (ir_hdr (pro_ring p0))
      (con_mem (ip_procs s)) (ir_hdr (con_ring p0))" using seg by (simp add: segment_match_def)
  ultimately show "load_head e (con_mem (ip_procs s)) (ir_hdr (con_ring (ip_procs s))) = of_nat (length (ip_sent s))"
    using same_segment_header [of T cap] segment_matchD(4) [OF seg] by (metis header_cursors(1))
qed

lemma ipc_push_run:
  assumes start: "attached_empty e T cap p0" and steps: "(ipc_process_step e T cap cc vc)\<^sup>*\<^sup>* (ipc_run_new p0) s"
    and idle: "ip_writer s = W_Idle" and len: "length v = mt_sizeof T"
    and push: "ipc_push e T cap v cc (pro_ring (ip_procs s), pro_mem (ip_procs s)) = (ok, rb, m')"
  shows "\<exists>s'. (ipc_process_step e T cap cc vc)\<^sup>*\<^sup>* s s' \<and> pro_ring (ip_procs s') = rb \<and> pro_mem (ip_procs s') = m'
    \<and> ip_writer s' = W_Idle \<and> ip_sent s' = ip_sent s @ (if ok then [v] else []) \<and> ip_reader s' = ip_reader s
    \<and> ip_received s' = ip_received s"
proof -
  note facts = ipc_idle_facts [OF start steps]
  show ?thesis
  proof (cases "cap \<le> pro_head e (ip_procs s) - of_nat (length (ip_received s))")
    case True
    then have "(ok, rb, m') = (False, pro_ring (ip_procs s), pro_mem (ip_procs s))"
      using push by (simp add: ipc_push_result [OF facts(1) len] facts(5) pro_head_def)
    with idle show ?thesis by (intro exI [of _ s]) simp
  next
    case False
    with ipc_push_steps [OF facts(1) idle len facts(3) False, of cc vc] push show ?thesis
      by (auto simp: ipc_push_result [OF facts(1) len] facts(5) pro_head_def)
  qed
qed

lemma consumed_sel [simp]:
  "con_mem (ip_procs (consumed n m s)) = m" "con_ring (ip_procs (consumed n m s)) = con_ring (ip_procs s)"
  "ip_writer (consumed n m s) = ip_writer s" "ip_sent (consumed n m s) = ip_sent s"
  "ip_received (consumed n m s) = ip_received s"
  by (simp_all add: consumed_def)

lemma ipc_pop_result:
  fixes e :: endian and m :: mem
  assumes rb: "ipc_ok T cap rb" and "t \<noteq> load_head e m (ir_hdr rb)"
    and t: "t = load_tail e m (ir_hdr rb)" and p: "p = ipc_slot T cap rb t"
    and "view e T m p (ipc_kSlotSize T) vc = p + 16"
  shows "ipc_pop e T cap out vc (rb, m) = (True, read_bytes m (p + 16) (mt_sizeof T), rb, store_tail e m (ir_hdr rb) (t + 1))"
  using assms ipc_okD(2) [OF rb] by (simp add: ipc_pop_def ipc_peek_read_def ipc_commit_read_def Let_def)

lemma ipc_pop_run:
  assumes start: "attached_empty e T cap p0" and steps: "(ipc_process_step e T cap cc vc)\<^sup>*\<^sup>* (ipc_run_new p0) s"
    and idle: "ip_reader s = R_Idle"
    and pop: "ipc_pop e T cap out vc (con_ring (ip_procs s), con_mem (ip_procs s)) = (ok, w, rb, m')"
  shows "\<exists>s'. (ipc_process_step e T cap cc vc)\<^sup>*\<^sup>* s s' \<and> con_ring (ip_procs s') = rb \<and> con_mem (ip_procs s') = m'
    \<and> ip_reader s' = R_Idle \<and> ip_received s' = ip_received s @ (if ok then [w] else []) \<and> ip_writer s' = ip_writer s
    \<and> ip_sent s' = ip_sent s"
proof -
  note facts = ipc_idle_facts [OF start steps] and step = ipc_process_step_def [of e T cap cc vc]
  let ?rb = "con_ring (ip_procs s)" and ?m = "con_mem (ip_procs s)" and ?n = "ipc_kTotalShmSize T cap"
  let ?t = "con_tail e (ip_procs s)" and ?k = "length (ip_sent s)"
  let ?q = "ipc_slot T cap ?rb ?t"
  have tail: "load_tail e ?m (ir_hdr ?rb) = ?t" by (simp add: con_tail_def)
  show ?thesis
  proof (cases "?t = of_nat ?k")
    case True
    then have "(ok, w, rb, m') = (False, out, ?rb, ?m)"
      using pop ipc_okD(2) [OF facts(2)] by (simp add: ipc_pop_def ipc_peek_read_def tail facts(6))
    with idle show ?thesis by (intro exI [of _ s]) simp
  next
    case False
    let ?v = "read_bytes ?m (?q + 16) (mt_sizeof T)" and ?m' = "store_tail e ?m (ir_hdr ?rb) (?t + 1)"
    let ?s1 = "s\<lparr>ip_reader := R_Loaded (of_nat ?k), ip_seen_head := ?k\<rparr>"
    let ?s2 = "?s1\<lparr>ip_reader := R_Viewed (?q + 16)\<rparr>"
    let ?s3 = "?s2\<lparr>ip_reader := R_Copied ?v\<rparr>"
    let ?s4 = "(consumed ?n ?m' ?s3)\<lparr>ip_reader := R_Idle, ip_received := ip_received s @ [?v]\<rparr>"
    have one: "ipc_process_step e T cap cc vc s ?s1"
      unfolding step using idle ipc_okD(2) [OF facts(2)] facts(4) by (auto intro: pr_load)
    with steps have "(ipc_process_step e T cap cc vc)\<^sup>*\<^sup>* (ipc_run_new p0) ?s1" by simp
    from processes_view(1) [OF start this, of "of_nat ?k"] False
    have view: "view e T ?m ?q (ipc_kSlotSize T) vc = ?q + 16" by simp
    note one
    moreover have "ipc_process_step e T cap cc vc ?s1 ?s2"
      unfolding step using pr_view [of ?s1 "of_nat ?k" e "?q + 16" T cap vc] False view by simp
    moreover have "ipc_process_step e T cap cc vc ?s2 ?s3"
      unfolding step using pr_copy [of ?s2 "?q + 16" e T cap vc] by simp
    moreover have "ipc_process_step e T cap cc vc ?s3 ?s4"
      unfolding step using pr_release [of ?s3 ?v e T cap vc] by simp
    ultimately have "(ipc_process_step e T cap cc vc)\<^sup>*\<^sup>* s ?s4"
      by (meson rtranclp.rtrancl_refl rtranclp.rtrancl_into_rtrancl)
    moreover have "?t \<noteq> load_head e ?m (ir_hdr ?rb)" using False by (simp add: facts(6))
    from ipc_pop_result [OF facts(2) this tail [symmetric] refl view, of out]
    have "(ok, w, rb, m') = (True, ?v, ?rb, ?m')" using pop by (simp only:)
    ultimately show ?thesis by (intro exI [of _ ?s4]) simp
  qed
qed

text \<open>
  C5. Two processes that call \<open>push\<close> and \<open>pop\<close> at the same time on a ring that the one has created and
  the other has opened, each through its own mapping, in any interleaving of their accesses and with
  stale loads of each other's cursors: the consumer receives a prefix of the payloads that were
  sent, unchanged and in order; at most \<open>Capacity\<close> are in flight; neither process writes outside the
  segment; and a slot that the consumer finds occupied validates and holds the next payload.
\<close>

theorem processes_fifo:
  assumes type: "capacity_ok cap" "is_valid_message T" "mt_alignof T dvd 16"
      "unat cap < 2 ^ 32" "ipc_kSlotSize T < 2 ^ 32"
    and mapped: "region_create sys name (of_nat (ipc_kTotalShmSize T cap)) os = (shm, os1)"
      "region_is_valid shm" "16 dvd rg_data shm"
    and create: "ipc_create sys e T cap name m os = (producer, m1, os2)"
    and peer: "region_open sys' name (of_nat (ipc_kTotalShmSize T cap)) os3 = (shm', os4)"
      "region_is_valid shm'" "16 dvd rg_data shm'"
    and seg: "same_segment (ipc_kTotalShmSize T cap) m1 (rg_data shm) m3 (rg_data shm')"
  defines "p0 \<equiv> \<lparr>pro_ring = producer, pro_mem = m1,
      con_ring = fst (ipc_open sys' e T cap name m3 os3), con_mem = m3\<rparr>"
  assumes steps: "(ipc_process_step e T cap compute_crc verify_crc)\<^sup>*\<^sup>* (ipc_run_new p0) s"
  shows "ip_received s = take (length (ip_received s)) (ip_sent s)
    \<and> length (ip_received s) \<le> length (ip_sent s) \<and> length (ip_sent s) \<le> length (ip_received s) + unat cap
    \<and> same_outside (ir_hdr producer) (ipc_kTotalShmSize T cap) m1 (pro_mem (ip_procs s))
    \<and> same_outside (ir_hdr (con_ring p0)) (ipc_kTotalShmSize T cap) m3 (con_mem (ip_procs s))
    \<and> (\<forall>head. ip_reader s = R_Loaded head \<and> con_tail e (ip_procs s) \<noteq> head \<longrightarrow>
        (let slot = ipc_slot T cap (con_ring (ip_procs s)) (con_tail e (ip_procs s)) in
          view e T (con_mem (ip_procs s)) slot (ipc_kSlotSize T) verify_crc = slot + 16
          \<and> read_bytes (con_mem (ip_procs s)) (slot + 16) (mt_sizeof T) = ip_sent s ! length (ip_received s)))"
proof -
  have start: "attached_empty e T cap p0"
    unfolding p0_def by (rule processes_start [OF type mapped create peer seg])
  have at: "pro_ring p0 = producer" "pro_mem p0 = m1" "con_mem p0 = m3" by (simp_all add: p0_def)
  from processes_facts [OF start steps] processes_view [OF start steps] show ?thesis
    by (simp add: at Let_def)
qed

text \<open>A producer that creates a ring of four slots, a consumer that opens it, and one message.\<close>

definition demo_processes :: processes where
  "demo_processes =
     (let (producer, m1, os) = ipc_create demo_posix Little PingMsg 4 ''bus'' dirty \<lparr>d_fds = [], d_maps = [], d_names = []\<rparr>;
          m3 = (\<lambda>x. m1 (x - 20480))
      in \<lparr>pro_ring = producer, pro_mem = m1,
          con_ring = fst (ipc_open demo_posix Little PingMsg 4 ''bus'' m3 \<lparr>d_fds = [], d_maps = [(5, 0)], d_names = [''/bus'']\<rparr>),
          con_mem = m3\<rparr>)"

lemma shifted_segment: "same_segment 320 m 4096 (\<lambda>x. m (x - 20480)) 24576"
  by (auto simp: same_segment_def intro: read_bytes_cong)

lemma demo_attached: "attached_empty Little PingMsg 4 demo_processes"
proof -
  obtain os4 where peer: "region_open demo_posix ''bus'' 320 \<lparr>d_fds = [], d_maps = [(5, 0)], d_names = [''/bus'']\<rparr> =
      (\<lparr>rg_name = ''bus'', rg_data = 24576, rg_size = 320, rg_creator = False, rg_fd = 1\<rparr>, os4)" by (rule demo_attach)
  obtain producer m1 os2 where c: "ipc_create demo_posix Little PingMsg 4 ''bus'' dirty
      \<lparr>d_fds = [], d_maps = [], d_names = []\<rparr> = (producer, m1, os2)" by (meson prod_cases3)
  from processes_start [where cap = 4 and T = PingMsg and sys' = demo_posix and ?m3.0 = "\<lambda>x. m1 (x - 20480)"
      and ?os3.0 = "\<lparr>d_fds = [], d_maps = [(5, 0)], d_names = [''/bus'']\<rparr>", OF _ _ _ _ _ _ _ _ c] peer
  show ?thesis
    by (simp add: demo_processes_def c capacity_4_64 demo_sizes demo_create region_is_valid_def nullptr_def
        shifted_segment Let_def)
qed

lemma demo_sent:
  "\<exists>s. (ipc_process_step Little PingMsg 4 True True)\<^sup>*\<^sup>* (ipc_run_new demo_processes) s \<and> ip_sent s = [[1, 2, 3, 4]]
    \<and> ip_received s = []"
proof -
  let ?s = "ipc_run_new demo_processes"
  have p: "ip_procs ?s = demo_processes" "ip_writer ?s = W_Idle" "ip_sent ?s = []" "ip_received ?s = []"
    by (simp_all add: ipc_run_new_def)
  have ok: "ipc_ok PingMsg 4 (pro_ring demo_processes)" "pro_head Little demo_processes = 0"
    "load_tail Little (pro_mem demo_processes) (ir_hdr (pro_ring demo_processes)) = 0"
    using demo_attached by (simp_all add: attached_empty_def shared_inv_def ipc_inv_def)
  obtain m' where push: "ipc_push Little PingMsg 4 [1, 2, 3, 4] True (pro_ring demo_processes, pro_mem demo_processes) =
      (True, pro_ring demo_processes, m')"
    using ok(2) by (simp add: ipc_push_result [OF ok(1)] ok(3) pro_head_def)
  from ipc_push_run [OF demo_attached rtranclp.rtrancl_refl, where cc = True and vc = True and v = "[1, 2, 3, 4]"] push p
  show ?thesis by (auto simp: p)
qed

theorem processes_fifo_witness:
  "\<exists>s. (ipc_process_step Little PingMsg 4 True True)\<^sup>*\<^sup>* (ipc_run_new demo_processes) s \<and> ip_sent s = [[1, 2, 3, 4]]
    \<and> length (ip_sent s) \<le> length (ip_received s) + 4
    \<and> same_outside 24576 320 (con_mem demo_processes) (con_mem (ip_procs s))"
proof -
  let ?os = "\<lparr>d_fds = [], d_maps = [], d_names = []\<rparr>" and ?os3 = "\<lparr>d_fds = [], d_maps = [(5, 0)], d_names = [''/bus'']\<rparr>"
  obtain s where s: "(ipc_process_step Little PingMsg 4 True True)\<^sup>*\<^sup>* (ipc_run_new demo_processes) s"
    "ip_sent s = [[1, 2, 3, 4]]" using demo_sent by blast
  obtain os4 where peer: "region_open demo_posix ''bus'' 320 ?os3 =
      (\<lparr>rg_name = ''bus'', rg_data = 24576, rg_size = 320, rg_creator = False, rg_fd = 1\<rparr>, os4)" by (rule demo_attach)
  obtain producer m1 os2 where c: "ipc_create demo_posix Little PingMsg 4 ''bus'' dirty ?os = (producer, m1, os2)"
    by (meson prod_cases3)
  have p: "demo_processes = \<lparr>pro_ring = producer, pro_mem = m1,
      con_ring = fst (ipc_open demo_posix Little PingMsg 4 ''bus'' (\<lambda>x. m1 (x - 20480)) ?os3), con_mem = (\<lambda>x. m1 (x - 20480))\<rparr>"
    by (simp add: demo_processes_def c Let_def)
  have "ipc_ok PingMsg 4 (con_ring demo_processes)" using demo_attached by (simp add: attached_empty_def shared_inv_def)
  then have "ir_hdr (con_ring demo_processes) = 24576"
    by (auto simp: p ipc_open_def demo_sizes peer region_is_valid_def ipc_ok_def ipc_default_def Let_def split: if_splits)
  with processes_fifo [where cap = 4 and T = PingMsg and sys' = demo_posix and ?os3.0 = ?os3,
      OF _ _ _ _ _ _ _ _ c _ _ _ _ s(1) [unfolded p]] s(2)
  show ?thesis
    using s by (intro exI [of _ s])
      (simp add: p capacity_4_64 demo_sizes demo_create peer region_is_valid_def nullptr_def shifted_segment Let_def)
qed

end
