(* ===== verification/Dispatch.thy ===== *)
theory Dispatch
  imports Wire "HOL-Library.Multiset"
begin

text \<open>
  Model of \<open>include/sinew/dispatch.hpp\<close>: inspection of an untyped packet, and the dispatcher that
  picks the message type of a list whose identifier the packet carries. The visitor is a function
  that takes the type its overload was selected for, the payload, and its own state \<open>'a\<close>; sizes
  are \<open>size_t\<close> values of 64 bits, because the length check guards against a wrap-around.
\<close>

section \<open>Inspection\<close>

record PacketView =
  pv_header :: header
  pv_payload :: ptr
  pv_payload_len :: u64

definition PacketView_default :: PacketView where
  "PacketView_default =
     \<lparr>pv_header = \<lparr>h_magic = 0, h_msg_id = 0, h_version = 0, h_crc = 0, h_payload_len = 0\<rparr>,
      pv_payload = nullptr, pv_payload_len = 0\<rparr>"

definition pv_is_valid :: "PacketView \<Rightarrow> bool" where
  "pv_is_valid pv \<longleftrightarrow> h_magic (pv_header pv) = SINEW_MAGIC \<and> pv_payload pv \<noteq> nullptr"

definition inspect_packet ::
  "endian \<Rightarrow> mem \<Rightarrow> ptr \<Rightarrow> u64 \<Rightarrow> PacketView \<Rightarrow> ErrorCode \<times> PacketView" where
  "inspect_packet e m buffer sz out_view =
     (if buffer = nullptr \<or> sz < of_nat sizeof_Header then (BufferTooSmall, out_view)
      else
        let hdr = load_header e m buffer in
        if h_magic hdr \<noteq> SINEW_MAGIC then (BadMagic, out_view)
        else if ucast (h_payload_len hdr) > sz - of_nat sizeof_Header then (BufferTooSmall, out_view)
        else (Ok, \<lparr>pv_header = hdr, pv_payload = buffer + sizeof_Header,
                   pv_payload_len = ucast (h_payload_len hdr)\<rparr>))"

section \<open>Dispatch\<close>

text \<open>The compile-time check of the type list, two nested loops over the identifiers.\<close>

definition has_duplicate_message_ids :: "msgtype list \<Rightarrow> bool" where
  "has_duplicate_message_ids Ts =
     (let ids = map mt_id Ts; N = length Ts
      in list_ex (\<lambda>i. list_ex (\<lambda>j. ids ! i = ids ! j) [i + 1..<N]) [0..<N])"

type_synonym 'a visitor = "msgtype \<Rightarrow> bytes \<Rightarrow> 'a \<Rightarrow> 'a"

definition try_dispatch_single ::
  "endian \<Rightarrow> msgtype \<Rightarrow> mem \<Rightarrow> u16 \<Rightarrow> ptr \<Rightarrow> u64 \<Rightarrow> 'a visitor \<Rightarrow> bool \<Rightarrow> 'a \<Rightarrow> bool \<times> 'a" where
  "try_dispatch_single e T m msg_id buffer sz visitor verify_crc a =
     (if mt_id T = msg_id then
        let msg = view e T m buffer (unat sz) verify_crc in
        if msg \<noteq> nullptr then (True, visitor T (read_bytes m msg (mt_sizeof T)) a)
        else (False, a)
      else (False, a))"

text \<open>The fold \<open>(try_dispatch_single<MsgTypes>(...) || ...)\<close>, which stops at the first success.\<close>

fun try_dispatch_all ::
  "endian \<Rightarrow> msgtype list \<Rightarrow> mem \<Rightarrow> u16 \<Rightarrow> ptr \<Rightarrow> u64 \<Rightarrow> 'a visitor \<Rightarrow> bool \<Rightarrow> 'a \<Rightarrow> bool \<times> 'a"
where
  "try_dispatch_all e [] m msg_id buffer sz visitor verify_crc a = (False, a)"
| "try_dispatch_all e (T # Ts) m msg_id buffer sz visitor verify_crc a =
     (let (ok, a') = try_dispatch_single e T m msg_id buffer sz visitor verify_crc a in
      if ok then (True, a')
      else try_dispatch_all e Ts m msg_id buffer sz visitor verify_crc a')"

definition dispatch ::
  "endian \<Rightarrow> msgtype list \<Rightarrow> mem \<Rightarrow> ptr \<Rightarrow> u64 \<Rightarrow> 'a visitor \<Rightarrow> bool \<Rightarrow> 'a \<Rightarrow> bool \<times> 'a" where
  "dispatch e Ts m buffer sz visitor verify_crc a =
     (if buffer = nullptr \<or> sz < of_nat sizeof_Header then (False, a)
      else
        let hdr = load_header e m buffer in
        if h_magic hdr \<noteq> SINEW_MAGIC then (False, a)
        else try_dispatch_all e Ts m (h_msg_id hdr) buffer sz visitor verify_crc a)"

definition dispatch_packet ::
  "endian \<Rightarrow> msgtype list \<Rightarrow> mem \<Rightarrow> PacketView \<Rightarrow> 'a visitor \<Rightarrow> bool \<Rightarrow> 'a \<Rightarrow> bool \<times> 'a" where
  "dispatch_packet e Ts m pv visitor verify_crc a =
     (if \<not> pv_is_valid pv then (False, a)
      else
        let raw_buffer = pv_payload pv - sizeof_Header;
            total_size = of_nat sizeof_Header + pv_payload_len pv
        in dispatch e Ts m raw_buffer total_size visitor verify_crc a)"

section \<open>Lemmas\<close>

lemma has_duplicate_iff: "has_duplicate_message_ids Ts \<longleftrightarrow> \<not> distinct (map mt_id Ts)"
proof -
  have "has_duplicate_message_ids Ts \<longleftrightarrow>
      (\<exists>i<length Ts. \<exists>j\<in>{i<..<length Ts}. mt_id (Ts ! i) = mt_id (Ts ! j))"
    by (simp add: has_duplicate_message_ids_def list_ex_iff Let_def Bex_def Suc_le_eq conj_ac
        cong: conj_cong)
  also have "\<dots> \<longleftrightarrow> \<not> distinct (map mt_id Ts)"
  proof
    assume "\<not> distinct (map mt_id Ts)"
    then obtain i j where "i < length Ts" "j < length Ts" "i \<noteq> j" "mt_id (Ts ! i) = mt_id (Ts ! j)"
      by (auto simp: distinct_conv_nth)
    then show "\<exists>i<length Ts. \<exists>j\<in>{i<..<length Ts}. mt_id (Ts ! i) = mt_id (Ts ! j)"
      by (metis greaterThanLessThan_iff linorder_neqE_nat)
  qed (force simp: distinct_conv_nth)
  finally show ?thesis .
qed

text \<open>A packet that validates as \<open>T\<close> carries its identifier.\<close>

lemma validate_id: "validate e T m p n c = Ok \<Longrightarrow> load_u16 e m (p + 4) = mt_id T"
  by (simp add: validate_Ok_iff)

lemma try_dispatch_single_eq:
  "try_dispatch_single e T m (load_u16 e m (p + 4)) p sz visitor c a =
     (if validate e T m p (unat sz) c = Ok
      then (True, visitor T (read_bytes m (p + 16) (mt_sizeof T)) a) else (False, a))"
  by (auto simp: try_dispatch_single_def view_eq_nullptr validate_id)

lemma try_dispatch_all_none:
  "(\<And>T. T \<in> set Ts \<Longrightarrow> validate e T m p (unat sz) c \<noteq> Ok) \<Longrightarrow>
     try_dispatch_all e Ts m (load_u16 e m (p + 4)) p sz visitor c a = (False, a)"
  by (induction Ts) (simp_all add: try_dispatch_single_eq)

lemma try_dispatch_all_some:
  assumes "distinct (map mt_id Ts)" "T \<in> set Ts" "validate e T m p (unat sz) c = Ok"
  shows "try_dispatch_all e Ts m (load_u16 e m (p + 4)) p sz visitor c a =
    (True, visitor T (read_bytes m (p + 16) (mt_sizeof T)) a)"
  using assms(1,2)
proof (induction Ts)
  case Nil
  then show ?case by simp
next
  case (Cons U Ts)
  show ?case
  proof (cases "validate e U m p (unat sz) c = Ok")
    case True
    with assms(3) have "mt_id U = mt_id T" by (metis validate_id)
    with Cons.prems have "U = T" by (auto simp: image_iff)
    with True show ?thesis by (simp add: try_dispatch_single_eq)
  next
    case False
    with Cons.prems assms(3) have "T \<in> set Ts" by auto
    with False Cons show ?thesis by (simp add: try_dispatch_single_eq)
  qed
qed

lemma validate_dispatchable:
  "validate e T m p (unat sz) c = Ok \<Longrightarrow>
     p \<noteq> nullptr \<and> \<not> sz < (16 :: u64) \<and> load_u32 e m p = SINEW_MAGIC"
  by (auto simp: validate_Ok_iff message_size_eq word_less_nat_alt)

lemma dispatch_eq:
  "dispatch e Ts m p sz visitor c a =
     (if p = nullptr \<or> sz < 16 \<or> load_u32 e m p \<noteq> SINEW_MAGIC then (False, a)
      else try_dispatch_all e Ts m (load_u16 e m (p + 4)) p sz visitor c a)"
  by (simp add: dispatch_def sizeof_Header_def Let_def)


lemma dispatch_found:
  assumes "\<not> has_duplicate_message_ids Ts" "T \<in> set Ts" "validate e T m p (unat sz) c = Ok"
  shows "dispatch e Ts m p sz visitor c a =
    (True, visitor T (read_bytes m (p + 16) (mt_sizeof T)) a)"
  using assms validate_dispatchable [OF assms(3)]
  by (simp add: dispatch_eq has_duplicate_iff try_dispatch_all_some)

lemma dispatch_not_found:
  assumes "\<And>T. T \<in> set Ts \<Longrightarrow> validate e T m p (unat sz) c \<noteq> Ok"
  shows "dispatch e Ts m p sz visitor c a = (False, a)"
  using assms by (simp add: dispatch_eq try_dispatch_all_none)

text \<open>A larger buffer around the packet makes no difference to validation.\<close>

lemma validate_exact_size:
  assumes "16 + unat (load_u32 e m (p + 12)) \<le> n"
  shows "validate e T m p n c = Ok \<longleftrightarrow>
    validate e T m p (16 + unat (load_u32 e m (p + 12))) c = Ok"
  using assms by (auto simp: validate_Ok_iff message_size_eq)

lemma inspect_packet_Ok:
  "inspect_packet e m p sz out = (Ok, pv) \<longleftrightarrow>
     p \<noteq> nullptr \<and> \<not> sz < 16 \<and> load_u32 e m p = SINEW_MAGIC
     \<and> \<not> ucast (load_u32 e m (p + 12)) > sz - 16
     \<and> pv = \<lparr>pv_header = load_header e m p, pv_payload = p + 16,
              pv_payload_len = ucast (load_u32 e m (p + 12))\<rparr>"
  by (auto simp: inspect_packet_def sizeof_Header_def Let_def)

lemma inspected_size:
  fixes sz :: u64 and len :: u32
  assumes "\<not> sz < 16" "\<not> ucast len > sz - 16"
  shows "16 + unat len \<le> unat sz" "unat (16 + ucast len :: u64) = 16 + unat len"
proof -
  have "unat (sz - 16) = unat sz - 16"
    using assms(1) by (simp add: unat_sub word_le_nat_alt not_less)
  then show "16 + unat len \<le> unat sz"
    using assms by (simp add: word_less_nat_alt)
  have "unat len < 2 ^ 32" using unsigned_less [of len] by simp
  then show "unat (16 + ucast len :: u64) = 16 + unat len"
    by (simp add: unat_word_ariths)
qed

lemma dispatch_find:
  assumes "\<not> has_duplicate_message_ids Ts"
  shows "dispatch e Ts m p sz visitor c a =
    (case find (\<lambda>T. validate e T m p (unat sz) c = Ok) Ts of
       None \<Rightarrow> (False, a)
     | Some T \<Rightarrow> (True, visitor T (read_bytes m (p + 16) (mt_sizeof T)) a))"
proof (cases "find (\<lambda>T. validate e T m p (unat sz) c = Ok) Ts")
  case None
  then have "\<And>T. T \<in> set Ts \<Longrightarrow> validate e T m p (unat sz) c \<noteq> Ok"
    by (auto simp: find_None_iff)
  from dispatch_not_found [OF this] show ?thesis unfolding None by simp
next
  case (Some T)
  then have "T \<in> set Ts" "validate e T m p (unat sz) c = Ok"
    by (auto simp: find_Some_iff)
  from dispatch_found [OF assms this] show ?thesis unfolding Some by simp
qed

section \<open>Properties of dispatch\<close>

text \<open>The type list of the test suite's stream, and a packet written for one of its types.\<close>

lemma test_stream_ids: "\<not> has_duplicate_message_ids [PingMsg, StatusMsg]"
  by (simp add: has_duplicate_iff)

text \<open>
  C14. A type list that passes the compile-time duplicate check dispatches a packet to the one type
  that validates it: the visitor is called exactly once, with that type and the payload of the
  packet, and the result is true; if no type of the list validates, the visitor is not called and
  the result is false.
\<close>

theorem dispatch_selects:
  assumes "\<not> has_duplicate_message_ids Ts"
  shows "dispatch e Ts m p sz visitor c a =
    (case find (\<lambda>T. validate e T m p (unat sz) c = Ok) Ts of
       None \<Rightarrow> (False, a)
     | Some T \<Rightarrow> (True, visitor T (read_bytes m (p + 16) (mt_sizeof T)) a))"
  using assms by (rule dispatch_find)

theorem dispatch_selects_witness:
  "dispatch Little [PingMsg, StatusMsg] dirty 64 20 (\<lambda>T v log. (mt_id T, v) # log) False [] = (False, [])"
proof -
  have "[0..<4] = [0, 1, 2, 3 :: nat]" by code_simp
  then have "read_bytes dirty 64 4 = [0xAA, 0xAA, 0xAA, 0xAA]"
    by (simp add: read_bytes_def dirty_def)
  then have "load_u32 Little dirty 64 \<noteq> SINEW_MAGIC"
    by (simp add: load_u32_def word_of_obj_def SINEW_MAGIC_def)
  then show ?thesis
    using dispatch_selects [OF test_stream_ids, of Little dirty 64 20 _ False]
    by (simp add: validate_Ok_iff)
qed

text \<open>
  C13. A message written with \<open>prepare\<close>, assigned and finalised is dispatched to its own type, with
  the value that was written, by every list that contains the type, in whatever order.
\<close>

theorem dispatch_round_trip:
  assumes "fits T p" "message_size T \<le> cap" "length v = mt_sizeof T"
    and wr: "write_message e T m p cap v compute_crc = (n, m')"
    and "\<not> has_duplicate_message_ids Ts" "T \<in> set Ts" "n \<le> unat sz"
  shows "dispatch e Ts m' p sz visitor verify_crc a = (True, visitor T v a)"
proof -
  have n: "n = message_size T"
    and m': "m' = slot_seal e T compute_crc (write_bytes (prepared e T m p) (p + 16) v) p"
    using wr assms(1,2) by (simp_all add: write_message_eq)
  have "slot_look e T verify_crc m' p = Some v"
    unfolding m' using assms(1,3) by (rule wire.look_packet)
  then have ok: "validate e T m' p (message_size T) verify_crc = Ok"
    and v: "read_bytes m' (p + 16) (mt_sizeof T) = v"
    by (simp_all add: slot_look_Some)
  from ok have "validate e T m' p (unat sz) verify_crc = Ok"
    using assms(7) unfolding validate_Ok_iff n by simp
  from dispatch_found [OF assms(5,6) this] v show ?thesis by simp
qed

theorem dispatch_round_trip_witness:
  "dispatch Little [PingMsg, StatusMsg]
     (snd (write_message Little StatusMsg dirty 64 20 [200, 0, 0, 0] True)) 64 20
     (\<lambda>T v log. (mt_id T, v) # log) True [] = (True, [(3, [200, 0, 0, 0])])"
proof -
  have fits: "fits StatusMsg 64" and size: "message_size StatusMsg = 20"
    by (simp_all add: fits_def nullptr_def message_size_eq)
  obtain n m' where w: "write_message Little StatusMsg dirty 64 20 [200, 0, 0, 0] True = (n, m')"
    by (meson surj_pair)
  then have "n = 20" using fits by (simp add: write_message_eq size)
  with dispatch_round_trip [OF fits _ _ w test_stream_ids, where a = "[]" and sz = 20
      and visitor = "\<lambda>T v log. (mt_id T, v) # log" and verify_crc = True] w
  show ?thesis by (simp add: size)
qed

text \<open>
  C32. \<open>inspect_packet\<close> succeeds only on a buffer that really holds the header and the whole
  payload, with no wrap-around of the length arithmetic, and then describes it; on every error
  the view it was given is left untouched.
\<close>

theorem inspect_packet_bounds:
  "case inspect_packet e m p sz out of (err, pv) \<Rightarrow>
     if err = Ok
     then pv_is_valid pv \<and> pv_payload pv = p + 16 \<and> pv_header pv = load_header e m p
       \<and> unat (pv_payload_len pv) = unat (h_payload_len (pv_header pv))
       \<and> pv_payload pv + unat (pv_payload_len pv) \<le> p + unat sz
     else pv = out"
proof -
  obtain err pv where r: "inspect_packet e m p sz out = (err, pv)" by force
  show ?thesis
  proof (cases "err = Ok")
    case True
    then have ok: "p \<noteq> nullptr" "\<not> sz < 16" "load_u32 e m p = SINEW_MAGIC"
        "\<not> ucast (load_u32 e m (p + 12)) > sz - 16"
      and pv: "pv = \<lparr>pv_header = load_header e m p, pv_payload = p + 16,
              pv_payload_len = ucast (load_u32 e m (p + 12))\<rparr>"
      using r by (auto simp: inspect_packet_Ok)
    then show ?thesis
      using inspected_size [OF ok(2,4)] True
      by (simp add: r pv_is_valid_def)
  next
    case False
    with r show ?thesis by (auto simp: inspect_packet_def Let_def split: if_splits)
  qed
qed

text \<open>
  Dispatching from an inspected \<open>PacketView\<close> is the same as dispatching the buffer it was made
  from: the buffer and size it reconstructs from the view lose nothing.
\<close>

theorem dispatch_packet_agrees:
  assumes "inspect_packet e m p sz out = (Ok, pv)" "\<not> has_duplicate_message_ids Ts"
  shows "dispatch_packet e Ts m pv visitor c a = dispatch e Ts m p sz visitor c a"
proof -
  let ?len = "load_u32 e m (p + 12)"
  have ok: "p \<noteq> nullptr" "\<not> sz < 16" "load_u32 e m p = SINEW_MAGIC"
      "\<not> ucast ?len > sz - 16"
    and pv: "pv = \<lparr>pv_header = load_header e m p, pv_payload = p + 16,
            pv_payload_len = ucast ?len\<rparr>"
    using assms(1) by (auto simp: inspect_packet_Ok)
  have "dispatch_packet e Ts m pv visitor c a = dispatch e Ts m p (16 + ucast ?len) visitor c a"
    using ok by (simp add: dispatch_packet_def pv_is_valid_def pv sizeof_Header_def)
  also have "\<dots> = dispatch e Ts m p sz visitor c a"
    unfolding dispatch_find [OF assms(2)] inspected_size(2) [OF ok(2,4)]
    by (simp only: validate_exact_size [OF inspected_size(1) [OF ok(2,4)]])
  finally show ?thesis .
qed

theorem dispatch_packet_agrees_witness:
  "\<exists>pv. dispatch_packet Little [PingMsg, StatusMsg]
     (snd (write_message Little PingMsg dirty 64 20 [7, 0, 0, 0] True)) pv
     (\<lambda>T v log. (mt_id T, v) # log) True [] = (True, [(1, [7, 0, 0, 0])])"
proof -
  obtain n m' where w: "write_message Little PingMsg dirty 64 20 [7, 0, 0, 0] True = (n, m')"
    by (meson surj_pair)
  then have m': "m' = slot_seal Little PingMsg True
      (write_bytes (prepared Little PingMsg dirty 64) (64 + 16) [7, 0, 0, 0]) 64"
    by (simp add: write_message_eq)
  have look: "slot_look Little PingMsg True m' 64 = Some [7, 0, 0, 0]"
    unfolding m' by (rule wire.look_packet) simp_all
  then have ok: "validate Little PingMsg m' 64 20 True = Ok" and v: "read_bytes m' 80 4 = [7, 0, 0, 0]"
    by (simp_all add: slot_look_Some)
  from ok have "unat (load_u32 Little m' 76) = 4" "load_u32 Little m' 64 = SINEW_MAGIC"
    by (simp_all add: validate_Ok_iff)
  then obtain pv where "inspect_packet Little m' 64 20 PacketView_default = (Ok, pv)"
    by (simp add: inspect_packet_Ok nullptr_def word_less_nat_alt)
  from dispatch_packet_agrees [OF this test_stream_ids, where a = "[]"
      and visitor = "\<lambda>T v log. (mt_id T, v) # log" and c = True]
    dispatch_found [OF test_stream_ids, where T = PingMsg and a = "[]" and sz = 20 and c = True
      and visitor = "\<lambda>T v log. (mt_id T, v) # log"] ok v w
  show ?thesis by (auto intro!: exI [of _ pv])
qed

end
