(* ===== verification/Ipc_Envelope.thy ===== *)
theory Ipc_Envelope
  imports Ipc_Ring_Buffer Dispatch
begin

text \<open>
  Model of \<open>include/sinew/ipc_envelope.hpp\<close>: the heterogeneous bus, a shared ring whose slots hold
  packets of any registered type of at most \<open>MaxPayloadSize\<close> bytes. The object has the members of
  an \<open>IpcRingBuffer\<close> and the same segment header; types are chosen per call.
\<close>

section \<open>The bus\<close>

definition IPC_ENVELOPE_MAGIC :: u32 where
  "IPC_ENVELOPE_MAGIC = 0x45564D53"

definition env_kSlotSize :: "nat \<Rightarrow> nat" where
  "env_kSlotSize MaxPayloadSize =
     (let kSlotAlign = 64; kRawSlotSize = sizeof_Header + MaxPayloadSize
      in ((kRawSlotSize + kSlotAlign - 1) div kSlotAlign) * kSlotAlign)"

definition env_kTotalShmSize :: "nat \<Rightarrow> u64 \<Rightarrow> nat" where
  "env_kTotalShmSize mx cap = sizeof_IpcRingHeader + unat cap * env_kSlotSize mx"

type_synonym envelope = ipc_ring

definition env_create ::
  "'os posix \<Rightarrow> endian \<Rightarrow> nat \<Rightarrow> u64 \<Rightarrow> string \<Rightarrow> mem \<Rightarrow> 'os \<Rightarrow> envelope \<times> mem \<times> 'os" where
  "env_create sys e mx cap name m os =
     (let (shm, os) = region_create sys name (of_nat (env_kTotalShmSize mx cap)) os in
      if \<not> region_is_valid shm then (ipc_default, m, region_destroy sys shm os)
      else
        let hdr = rg_data shm;
            m = store_ipc_header e m hdr
              \<lparr>ih_magic = IPC_ENVELOPE_MAGIC, ih_version = 1, ih_capacity = ucast cap,
               ih_slot_size = of_nat (env_kSlotSize mx), ih_payload_len = of_nat mx,
               ih_msg_id = 0, ih_reserved = 0, ih_head = 0, ih_tail = 0\<rparr>
        in (\<lparr>ir_shm = shm, ir_hdr = hdr, ir_slots = rg_data shm + sizeof_IpcRingHeader,
             ir_producer = True\<rparr>, m, os))"

definition env_open ::
  "'os posix \<Rightarrow> endian \<Rightarrow> nat \<Rightarrow> u64 \<Rightarrow> string \<Rightarrow> mem \<Rightarrow> 'os \<Rightarrow> envelope \<times> 'os" where
  "env_open sys e mx cap name m os =
     (let (shm, os) = region_open sys name (of_nat (env_kTotalShmSize mx cap)) os in
      if \<not> region_is_valid shm then (ipc_default, region_destroy sys shm os)
      else
        let hdr = load_ipc_header e m (rg_data shm) in
        if ih_magic hdr \<noteq> IPC_ENVELOPE_MAGIC \<or> ucast (ih_capacity hdr) \<noteq> cap
           \<or> unat (ih_slot_size hdr) \<noteq> env_kSlotSize mx \<or> unat (ih_payload_len hdr) \<noteq> mx
        then (ipc_default, region_destroy sys shm os)
        else (\<lparr>ir_shm = shm, ir_hdr = rg_data shm, ir_slots = rg_data shm + sizeof_IpcRingHeader,
               ir_producer = False\<rparr>, os))"

definition env_is_valid :: "envelope \<Rightarrow> bool" where
  "env_is_valid rb \<longleftrightarrow> ir_hdr rb \<noteq> nullptr \<and> ir_slots rb \<noteq> nullptr"

definition env_size :: "endian \<Rightarrow> envelope \<times> mem \<Rightarrow> u64" where
  "env_size e = (\<lambda>(rb, m).
     if \<not> env_is_valid rb then 0
     else let head = load_head e m (ir_hdr rb); tail = load_tail e m (ir_hdr rb)
       in if tail \<le> head then head - tail else 0)"

definition env_empty :: "endian \<Rightarrow> envelope \<times> mem \<Rightarrow> bool" where
  "env_empty e = (\<lambda>(rb, m).
     if \<not> env_is_valid rb then True else load_head e m (ir_hdr rb) = load_tail e m (ir_hdr rb))"

definition env_full :: "endian \<Rightarrow> u64 \<Rightarrow> envelope \<times> mem \<Rightarrow> bool" where
  "env_full e cap = (\<lambda>(rb, m).
     if \<not> env_is_valid rb then True
     else let head = load_head e m (ir_hdr rb); tail = load_tail e m (ir_hdr rb) in cap \<le> head - tail)"

definition env_slot :: "nat \<Rightarrow> u64 \<Rightarrow> envelope \<Rightarrow> u64 \<Rightarrow> ptr" where
  "env_slot mx cap rb = ring_slot (ir_slots rb) (env_kSlotSize mx) cap"

subsection \<open>Producer\<close>

definition env_prepare_write ::
  "endian \<Rightarrow> nat \<Rightarrow> u64 \<Rightarrow> msgtype \<Rightarrow> envelope \<times> mem \<Rightarrow> ptr \<times> envelope \<times> mem" where
  "env_prepare_write e mx cap Msg = (\<lambda>(rb, m).
     if \<not> env_is_valid rb then (nullptr, rb, m)
     else
       let head = load_head e m (ir_hdr rb); tail = load_tail e m (ir_hdr rb) in
       if cap \<le> head - tail then (nullptr, rb, m)
       else let (slot, m) = prepare e Msg m (env_slot mx cap rb head) (env_kSlotSize mx) in (slot, rb, m))"

text \<open>The checksum of the packet in a slot, for the length its header gives.\<close>

definition env_seal :: "endian \<Rightarrow> bool \<Rightarrow> mem \<Rightarrow> ptr \<Rightarrow> mem" where
  "env_seal e compute_crc m slot =
     (let payload_len = load_u32 e m (slot + 12); payload = slot + sizeof_Header in
      if compute_crc \<and> 0 < payload_len
      then store_u32 e m (slot + 8) (crc32 m payload (unat payload_len) 0xFFFFFFFF)
      else store_u32 e m (slot + 8) 0)"

definition env_commit_write ::
  "endian \<Rightarrow> nat \<Rightarrow> u64 \<Rightarrow> bool \<Rightarrow> envelope \<times> mem \<Rightarrow> envelope \<times> mem" where
  "env_commit_write e mx cap compute_crc = (\<lambda>(rb, m).
     if \<not> env_is_valid rb then (rb, m)
     else
       let head = load_head e m (ir_hdr rb);
           m = env_seal e compute_crc m (env_slot mx cap rb head)
       in (rb, store_head e m (ir_hdr rb) (head + 1)))"

definition env_push ::
  "endian \<Rightarrow> nat \<Rightarrow> u64 \<Rightarrow> msgtype \<Rightarrow> bytes \<Rightarrow> bool \<Rightarrow> envelope \<times> mem \<Rightarrow> bool \<times> envelope \<times> mem" where
  "env_push e mx cap Msg val compute_crc s =
     (let (slot, rb, m) = env_prepare_write e mx cap Msg s in
      if slot = nullptr then (False, rb, m)
      else (True, env_commit_write e mx cap compute_crc (rb, assign_object m slot val)))"

subsection \<open>Consumer\<close>

definition env_peek_packet :: "endian \<Rightarrow> nat \<Rightarrow> u64 \<Rightarrow> bool \<Rightarrow> envelope \<times> mem \<Rightarrow> PacketView" where
  "env_peek_packet e mx cap verify_crc = (\<lambda>(rb, m).
     if \<not> env_is_valid rb then PacketView_default
     else
       let tail = load_tail e m (ir_hdr rb); head = load_head e m (ir_hdr rb) in
       if tail = head then PacketView_default
       else
         let slot = env_slot mx cap rb tail;
             (err, pv) = inspect_packet e m slot (of_nat (env_kSlotSize mx)) PacketView_default in
         if err \<noteq> Ok then PacketView_default
         else if verify_crc \<and> h_crc (pv_header pv) \<noteq> 0 \<and>
            crc32 m (pv_payload pv) (unat (pv_payload_len pv)) 0xFFFFFFFF \<noteq> h_crc (pv_header pv)
           then PacketView_default
         else pv)"

definition env_peek_msg :: "endian \<Rightarrow> nat \<Rightarrow> u64 \<Rightarrow> msgtype \<Rightarrow> bool \<Rightarrow> envelope \<times> mem \<Rightarrow> ptr" where
  "env_peek_msg e mx cap Msg verify_crc = (\<lambda>(rb, m).
     if \<not> env_is_valid rb then nullptr
     else
       let tail = load_tail e m (ir_hdr rb); head = load_head e m (ir_hdr rb) in
       if tail = head then nullptr
       else view e Msg m (env_slot mx cap rb tail) (env_kSlotSize mx) verify_crc)"

definition env_dispatch ::
  "endian \<Rightarrow> nat \<Rightarrow> u64 \<Rightarrow> msgtype list \<Rightarrow> 'a visitor \<Rightarrow> bool \<Rightarrow> 'a \<Rightarrow> envelope \<times> mem \<Rightarrow> bool \<times> 'a" where
  "env_dispatch e mx cap Ts visitor verify_crc a = (\<lambda>(rb, m).
     if \<not> env_is_valid rb then (False, a)
     else
       let tail = load_tail e m (ir_hdr rb); head = load_head e m (ir_hdr rb) in
       if tail = head then (False, a)
       else dispatch e Ts m (env_slot mx cap rb tail) (of_nat (env_kSlotSize mx)) visitor verify_crc a)"

definition env_commit_read :: "endian \<Rightarrow> envelope \<times> mem \<Rightarrow> envelope \<times> mem" where
  "env_commit_read e = (\<lambda>(rb, m).
     if \<not> env_is_valid rb then (rb, m)
     else let tail = load_tail e m (ir_hdr rb) in (rb, store_tail e m (ir_hdr rb) (tail + 1)))"

definition env_dispatch_and_commit ::
  "endian \<Rightarrow> nat \<Rightarrow> u64 \<Rightarrow> msgtype list \<Rightarrow> 'a visitor \<Rightarrow> bool \<Rightarrow> 'a \<Rightarrow> envelope \<times> mem
     \<Rightarrow> bool \<times> 'a \<times> envelope \<times> mem" where
  "env_dispatch_and_commit e mx cap Ts visitor verify_crc a s =
     (let (ok, a') = env_dispatch e mx cap Ts visitor verify_crc a s in
      if ok then (True, a', env_commit_read e s) else (False, a', s))"

definition env_consume ::
  "endian \<Rightarrow> nat \<Rightarrow> u64 \<Rightarrow> msgtype \<Rightarrow> (bytes \<Rightarrow> 'a \<Rightarrow> 'a) \<Rightarrow> bool \<Rightarrow> 'a \<Rightarrow> envelope \<times> mem
     \<Rightarrow> bool \<times> 'a \<times> envelope \<times> mem" where
  "env_consume e mx cap Msg func verify_crc a s =
     (let msg = env_peek_msg e mx cap Msg verify_crc s in
      if msg = nullptr then (False, a, s)
      else (True, func (read_bytes (snd s) msg (mt_sizeof Msg)) a, env_commit_read e s))"

section \<open>Packets of any type as slots of a ring\<close>

text \<open>What a slot holds: identifier, version and payload.\<close>

type_synonym packet = "u16 \<times> u16 \<times> bytes"

definition env_look :: "endian \<Rightarrow> nat \<Rightarrow> bool \<Rightarrow> mem \<Rightarrow> ptr \<Rightarrow> packet option" where
  "env_look e mx c m p =
     (let len = unat (load_u32 e m (p + 12)); v = read_bytes m (p + 16) len in
      if load_u32 e m p = SINEW_MAGIC \<and> len + 16 \<le> env_kSlotSize mx
         \<and> (c \<and> load_u32 e m (p + 8) \<noteq> 0 \<longrightarrow> crc32_of v = load_u32 e m (p + 8))
      then Some (load_u16 e m (p + 4), load_u16 e m (p + 6), v) else None)"

text \<open>A type that the bus can carry, in a slot at a usable address.\<close>

definition carries :: "nat \<Rightarrow> msgtype \<Rightarrow> bool" where
  "carries mx T \<longleftrightarrow> is_valid_message T \<and> mt_alignof T dvd 16 \<and> mt_sizeof T \<le> mx"

lemma env_kSlotSize_props: "16 + mx \<le> env_kSlotSize mx" "64 dvd env_kSlotSize mx"
proof -
  have "(79 + mx) div 64 * 64 + (79 + mx) mod 64 = 79 + mx" by simp
  moreover have "(79 + mx) mod 64 < 64" by simp
  ultimately show "16 + mx \<le> env_kSlotSize mx"
    unfolding env_kSlotSize_def sizeof_Header_def Let_def by simp
  show "64 dvd env_kSlotSize mx" by (simp add: env_kSlotSize_def Let_def)
qed

lemma env_seal_stamped:
  assumes "is_valid_message T" "stamped e T m p"
  shows "env_seal e c m p =
    store_u32 e m (p + 8) (if c then crc32_of (read_bytes m (p + 16) (mt_sizeof T)) else 0)"
proof -
  have "unat (load_u32 e m (p + 12)) = mt_sizeof T" using assms(2) by (simp add: stamped_def)
  moreover from this have "0 < load_u32 e m (p + 12)"
    using assms(1) by (auto simp: is_valid_message_def word_less_nat_alt)
  ultimately show ?thesis
    by (simp add: env_seal_def Let_def sizeof_Header_def crc32_default)
qed

interpretation envelope: packet_slot "env_kSlotSize mx" "mt_sizeof T" "\<lambda>p. carries mx T \<and> fits T p"
  "stamped e T" "prepared e T" "env_seal e" "env_look e mx" "\<lambda>v. (mt_id T, mt_version T, v)"
  for mx T e
proof (unfold_locales, goal_cases)
  case (1 p)
  then show ?case using env_kSlotSize_props(1) [of mx] by (simp add: carries_def)
next
  case (2 m p m' c)
  have parts: "read_bytes m (p + k) j = read_bytes m' (p + k) j" if "k + j \<le> env_kSlotSize mx" for k j
    using 2 that by (rule read_bytes_part)
  have "16 \<le> env_kSlotSize mx" using env_kSlotSize_props(1) [of mx] by simp
  then have "load_u32 e m p = load_u32 e m' p" "load_u16 e m (p + 4) = load_u16 e m' (p + 4)"
    "load_u16 e m (p + 6) = load_u16 e m' (p + 6)" "load_u32 e m (p + 8) = load_u32 e m' (p + 8)"
    "load_u32 e m (p + 12) = load_u32 e m' (p + 12)"
    using parts [of 0 4] by (simp_all add: load_defs parts)
  then show ?case
    using parts [of 16] by (auto simp: env_look_def Let_def)
next
  case (3 p m)
  then have "message_size T \<le> env_kSlotSize mx"
    using env_kSlotSize_props(1) [of mx] by (simp add: carries_def message_size_eq)
  with 3 show ?case
    by (intro same_outside_mono [OF wire.prep_frame]) auto
next
  case (4 p c m)
  have "16 \<le> env_kSlotSize mx" using env_kSlotSize_props(1) [of mx] by simp
  then show ?case by (auto simp: env_seal_def Let_def)
next
  case (5 p m)
  then show ?case by (simp add: stamped_prepared fits_def)
next
  case (6 m p v)
  then show ?case by (simp add: stamped_write)
next
  case (7 p m c' c)
  then have valid: "is_valid_message T" and size: "mt_sizeof T + 16 \<le> env_kSlotSize mx"
    using env_kSlotSize_props(1) [of mx] by (simp_all add: carries_def)
  from 7(2) size show ?case
    by (simp add: env_seal_stamped [OF valid 7(2)] env_look_def Let_def mem_simps stamped_def)
qed

section \<open>Invariant and contents\<close>

definition env_ok :: "nat \<Rightarrow> u64 \<Rightarrow> envelope \<Rightarrow> bool" where
  "env_ok mx cap rb \<longleftrightarrow> capacity_ok cap \<and> env_kSlotSize mx < 2 ^ 32
     \<and> ir_hdr rb \<noteq> nullptr \<and> 16 dvd ir_hdr rb \<and> ir_slots rb = ir_hdr rb + 192"

definition env_contents :: "endian \<Rightarrow> nat \<Rightarrow> u64 \<Rightarrow> envelope \<times> mem \<Rightarrow> packet list" where
  "env_contents e mx cap = (\<lambda>(rb, m). ring_items (env_look e mx True) (env_slot mx cap rb)
     (load_head e m (ir_hdr rb)) (load_tail e m (ir_hdr rb)) m)"

definition env_inv :: "endian \<Rightarrow> nat \<Rightarrow> u64 \<Rightarrow> envelope \<times> mem \<Rightarrow> bool" where
  "env_inv e mx cap = (\<lambda>(rb, m). env_ok mx cap rb \<and> ring_ok (env_look e mx True) (env_slot mx cap rb) cap
     (load_head e m (ir_hdr rb)) (load_tail e m (ir_hdr rb)) m)"

text \<open>A type whose payloads are aligned in every slot.\<close>

definition placed :: "msgtype \<Rightarrow> bool" where
  "placed T \<longleftrightarrow> is_valid_message T \<and> mt_alignof T dvd 16"

lemma carries_placed: "carries mx T \<Longrightarrow> placed T"
  by (simp add: carries_def placed_def)

lemma env_okD:
  assumes "env_ok mx cap rb"
  shows "capacity_ok cap" "env_is_valid rb" "ir_hdr rb + 192 \<le> env_slot mx cap rb i"
    "placed T \<Longrightarrow> fits T (env_slot mx cap rb i)"
    "unat (of_nat (env_kSlotSize mx) :: u64) = env_kSlotSize mx"
proof -
  show "capacity_ok cap" "env_is_valid rb"
    using assms by (auto simp: env_ok_def env_is_valid_def nullptr_def)
  show above: "ir_hdr rb + 192 \<le> env_slot mx cap rb i"
    using assms by (simp add: env_ok_def env_slot_def ring_slot_def)
  have "16 dvd env_kSlotSize mx" using env_kSlotSize_props(2) [of mx] by (auto elim: dvdE)
  then have "16 dvd env_slot mx cap rb i + 16"
    using assms unfolding env_ok_def env_slot_def ring_slot_def by auto
  then show "fits T (env_slot mx cap rb i)" if "placed T"
    using that above assms dvd_trans unfolding placed_def fits_def env_ok_def nullptr_def by auto
  show "unat (of_nat (env_kSlotSize mx) :: u64) = env_kSlotSize mx"
    using assms by (simp add: env_ok_def unat_of_nat take_bit_nat_eq_self_iff)
qed

lemma env_store_cursor:
  assumes "env_ok mx cap rb"
  shows "env_look e mx c (store_head e m (ir_hdr rb) h) (env_slot mx cap rb i) = env_look e mx c m (env_slot mx cap rb i)"
    and "env_look e mx c (store_tail e m (ir_hdr rb) h) (env_slot mx cap rb i) = env_look e mx c m (env_slot mx cap rb i)"
  using env_okD(3) [OF assms, of i]
  by (auto intro: envelope.look_outside [OF cursor_store_frame(1)] envelope.look_outside [OF cursor_store_frame(2)])

lemma env_ring_store_cursor:
  assumes "env_ok mx cap rb"
  shows "ring_ok (env_look e mx c) (env_slot mx cap rb) cap h t (store_head e m (ir_hdr rb) x) =
      ring_ok (env_look e mx c) (env_slot mx cap rb) cap h t m"
    and "ring_ok (env_look e mx c) (env_slot mx cap rb) cap h t (store_tail e m (ir_hdr rb) x) =
      ring_ok (env_look e mx c) (env_slot mx cap rb) cap h t m"
    and "ring_items (env_look e mx c) (env_slot mx cap rb) h t (store_head e m (ir_hdr rb) x) =
      ring_items (env_look e mx c) (env_slot mx cap rb) h t m"
    and "ring_items (env_look e mx c) (env_slot mx cap rb) h t (store_tail e m (ir_hdr rb) x) =
      ring_items (env_look e mx c) (env_slot mx cap rb) h t m"
  by (rule ring_look_cong env_store_cursor [OF assms])+

subsection \<open>Sending\<close>

lemma env_push_room:
  fixes c :: bool
  assumes inv: "env_inv e mx cap (rb, m)" and room: "length (env_contents e mx cap (rb, m)) < unat cap"
    and T: "carries mx T" and len: "length v = mt_sizeof T"
  shows "\<exists>s. env_push e mx cap T v c (rb, m) = (True, s) \<and> env_inv e mx cap s
    \<and> env_contents e mx cap s = env_contents e mx cap (rb, m) @ [(mt_id T, mt_version T, v)]"
proof -
  have ok: "env_ok mx cap rb" using inv by (simp add: env_inv_def)
  let ?h = "load_head e m (ir_hdr rb)" and ?t = "load_tail e m (ir_hdr rb)"
  let ?p = "env_slot mx cap rb ?h"
  let ?m1 = "assign_object (prepared e T m ?p) (?p + 16) v"
  let ?m2 = "env_seal e c ?m1 ?p"
  have usable: "carries mx T \<and> fits T ?p" using T env_okD(4) [OF ok carries_placed [OF T]] by simp
  have above: "ir_hdr rb + 192 \<le> ?p" by (rule env_okD [OF ok])
  have room': "unat (?h - ?t) < unat cap" using room by (simp add: env_contents_def)
  have size: "16 + mt_sizeof T \<le> env_kSlotSize mx" by (rule envelope.payload_inside [OF usable])
  have frame: "same_outside ?p (env_kSlotSize mx) m ?m1"
    using envelope.prep_frame [OF usable] len size
    by (auto simp: assign_object_def intro!: same_outside_writeI)
  have frame2: "same_outside ?p (env_kSlotSize mx) m ?m2"
    using frame envelope.seal_frame [OF usable] by (rule same_outside_trans)
  have ready: "stamped e T ?m1 ?p"
    using envelope.ready_prep [OF usable] by (rule stamped_assign)
  have "ring_ok (env_look e mx True) (env_slot mx cap rb) cap (?h + 1) ?t ?m2"
    "ring_items (env_look e mx True) (env_slot mx cap rb) (?h + 1) ?t ?m2 =
      ring_items (env_look e mx True) (env_slot mx cap rb) ?h ?t m @ [(mt_id T, mt_version T, v)]"
    using envelope.ring_commit [OF env_okD(1) [OF ok] order_refl room', where base = "ir_slots rb"
        and m = m and ?m1.0 = ?m1 and T = T] inv frame usable ready len
    by (simp_all add: env_slot_def env_inv_def assign_object_def)
  then have "env_inv e mx cap (rb, store_head e ?m2 (ir_hdr rb) (?h + 1))"
    "env_contents e mx cap (rb, store_head e ?m2 (ir_hdr rb) (?h + 1)) =
      env_contents e mx cap (rb, m) @ [(mt_id T, mt_version T, v)]"
    using ok cursor_frame [OF frame2 above, of e]
    by (simp_all add: env_inv_def env_contents_def env_ring_store_cursor [OF ok])
  moreover have "env_push e mx cap T v c (rb, m) = (True, rb, store_head e ?m2 (ir_hdr rb) (?h + 1))"
    using env_okD(2) [OF ok] room' usable size cursor_frame [OF frame above, of e]
    by (simp add: env_push_def env_prepare_write_def env_commit_write_def word_le_nat_alt
        message_size_eq Let_def)
  ultimately show ?thesis by blast
qed

lemma env_push_full:
  "env_inv e mx cap (rb, m) \<Longrightarrow> \<not> length (env_contents e mx cap (rb, m)) < unat cap \<Longrightarrow>
     env_push e mx cap T v c (rb, m) = (False, rb, m)"
  by (simp add: env_contents_def env_push_def env_prepare_write_def word_le_nat_alt)

subsection \<open>Receiving\<close>

definition accepts :: "packet \<Rightarrow> msgtype \<Rightarrow> bool" where
  "accepts pk T \<longleftrightarrow> mt_id T = fst pk \<and> mt_version T = fst (snd pk) \<and> mt_sizeof T = length (snd (snd pk))"

lemma validate_env_look:
  assumes "env_look e mx True m p = Some pk" "fits T p"
  shows "validate e T m p (env_kSlotSize mx) c = Ok \<longleftrightarrow> accepts pk T"
    and "accepts pk T \<Longrightarrow> read_bytes m (p + 16) (mt_sizeof T) = snd (snd pk)"
  using assms by (auto simp: env_look_def validate_Ok_iff fits_def accepts_def message_size_eq Let_def
      split: if_splits)

lemma env_empty_ring:
  assumes "env_contents e mx cap (rb, m) = []"
  shows "load_tail e m (ir_hdr rb) = load_head e m (ir_hdr rb)"
  using assms by (simp add: env_contents_def ring_items_empty)

lemma env_front:
  assumes inv: "env_inv e mx cap (rb, m)" and ne: "env_contents e mx cap (rb, m) = pk # q"
  shows "load_tail e m (ir_hdr rb) \<noteq> load_head e m (ir_hdr rb)"
    "env_look e mx True m (env_slot mx cap rb (load_tail e m (ir_hdr rb))) = Some pk"
    "env_inv e mx cap (env_commit_read e (rb, m))" "env_contents e mx cap (env_commit_read e (rb, m)) = q"
proof -
  have ok: "env_ok mx cap rb" using inv by (simp add: env_inv_def)
  note front = ring_front [of "env_look e mx True" "env_slot mx cap rb" cap "load_head e m (ir_hdr rb)"
      "load_tail e m (ir_hdr rb)" m pk q]
  show "load_tail e m (ir_hdr rb) \<noteq> load_head e m (ir_hdr rb)"
    "env_look e mx True m (env_slot mx cap rb (load_tail e m (ir_hdr rb))) = Some pk"
    using front inv ne by (auto simp: env_inv_def env_contents_def)
  show "env_inv e mx cap (env_commit_read e (rb, m))" "env_contents e mx cap (env_commit_read e (rb, m)) = q"
    using front inv ne env_okD(2) [OF ok]
    by (simp_all add: env_inv_def env_contents_def env_commit_read_def Let_def env_ring_store_cursor [OF ok])
qed

lemma env_dispatch_spec:
  assumes inv: "env_inv e mx cap (rb, m)" and "\<not> has_duplicate_message_ids Ts" "\<forall>T\<in>set Ts. placed T"
  shows "env_dispatch e mx cap Ts visitor c a (rb, m) =
    (case env_contents e mx cap (rb, m) of [] \<Rightarrow> (False, a)
     | pk # q \<Rightarrow> (case find (accepts pk) Ts of None \<Rightarrow> (False, a)
         | Some T \<Rightarrow> (True, visitor T (snd (snd pk)) a)))"
proof (cases "env_contents e mx cap (rb, m)")
  case Nil
  with env_empty_ring [OF Nil] show ?thesis by (simp add: env_dispatch_def)
next
  case (Cons pk q)
  have ok: "env_ok mx cap rb" using inv by (simp add: env_inv_def)
  let ?p = "env_slot mx cap rb (load_tail e m (ir_hdr rb))"
  note front = env_front [OF inv Cons]
  have valid: "validate e T m ?p (env_kSlotSize mx) c = Ok \<longleftrightarrow> accepts pk T"
    "accepts pk T \<Longrightarrow> read_bytes m (?p + 16) (mt_sizeof T) = snd (snd pk)" if "T \<in> set Ts" for T
    using validate_env_look [OF front(2) env_okD(4) [OF ok]] that assms(3) by auto
  have "find (\<lambda>T. validate e T m ?p (env_kSlotSize mx) c = Ok) Ts = find (accepts pk) Ts"
    using valid(1) by (intro find_cong) auto
  moreover have "T \<in> set Ts \<and> accepts pk T" if "find (accepts pk) Ts = Some T" for T
    using that by (auto simp: find_Some_iff)
  ultimately show ?thesis
    using front(1) env_okD(2) [OF ok] valid(2) Cons
    by (auto simp: env_dispatch_def Let_def dispatch_find [OF assms(2)] env_okD(5) [OF ok] split: option.split)
qed

lemma env_peek_msg_spec:
  assumes inv: "env_inv e mx cap (rb, m)" and "placed T"
  shows "case env_contents e mx cap (rb, m) of
      [] \<Rightarrow> env_peek_msg e mx cap T c (rb, m) = nullptr
    | pk # q \<Rightarrow> if accepts pk T
        then env_peek_msg e mx cap T c (rb, m) \<noteq> nullptr
          \<and> read_bytes m (env_peek_msg e mx cap T c (rb, m)) (mt_sizeof T) = snd (snd pk)
        else env_peek_msg e mx cap T c (rb, m) = nullptr"
proof (cases "env_contents e mx cap (rb, m)")
  case Nil
  with env_empty_ring [OF Nil] show ?thesis by (simp add: env_peek_msg_def)
next
  case (Cons pk q)
  have ok: "env_ok mx cap rb" using inv by (simp add: env_inv_def)
  note front = env_front [OF inv Cons]
  show ?thesis
    using front(1) env_okD(2) [OF ok] Cons validate_env_look [OF front(2) env_okD(4) [OF ok assms(2)]]
    by (auto simp: env_peek_msg_def Let_def view_def sizeof_Header_def)
qed

lemma env_peek_packet_spec:
  fixes c :: bool
  assumes inv: "env_inv e mx cap (rb, m)"
  defines "pv \<equiv> env_peek_packet e mx cap c (rb, m)"
  shows "case env_contents e mx cap (rb, m) of
      [] \<Rightarrow> \<not> pv_is_valid pv
    | pk # q \<Rightarrow> pv_is_valid pv \<and> pk = (h_msg_id (pv_header pv), h_version (pv_header pv),
        read_bytes m (pv_payload pv) (unat (pv_payload_len pv)))"
proof (cases "env_contents e mx cap (rb, m)")
  case Nil
  with env_empty_ring [OF Nil] show ?thesis
    by (simp add: pv_def env_peek_packet_def PacketView_default_def pv_is_valid_def)
next
  case (Cons pk q)
  have ok: "env_ok mx cap rb" using inv by (simp add: env_inv_def)
  let ?p = "env_slot mx cap rb (load_tail e m (ir_hdr rb))"
  let ?pv = "\<lparr>pv_header = load_header e m ?p, pv_payload = ?p + 16,
              pv_payload_len = ucast (load_u32 e m (?p + 12))\<rparr> :: PacketView"
  note front = env_front [OF inv Cons]
  have p: "?p \<noteq> nullptr" using env_okD(3) [OF ok, of "load_tail e m (ir_hdr rb)"] by (simp add: nullptr_def)
  have size: "16 \<le> env_kSlotSize mx" using env_kSlotSize_props(1) [of mx] by simp
  have small: "\<not> of_nat (env_kSlotSize mx) < (16 :: u64)"
    using size env_okD(5) [OF ok] by (simp add: word_less_nat_alt)
  have "unat (of_nat (env_kSlotSize mx) - 16 :: u64) = env_kSlotSize mx - 16"
    using small env_okD(5) [OF ok] by (simp add: unat_sub not_less)
  with front(2) p small have "inspect_packet e m ?p (of_nat (env_kSlotSize mx)) PacketView_default = (Ok, ?pv)"
    unfolding inspect_packet_Ok
    by (auto simp: env_look_def Let_def word_less_nat_alt split: if_splits)
  moreover have "crc32_of (read_bytes m (?p + 16) (unat (load_u32 e m (?p + 12)))) = load_u32 e m (?p + 8)
      \<or> load_u32 e m (?p + 8) = 0"
    using front(2) by (auto simp: env_look_def Let_def split: if_splits)
  ultimately have "pv = ?pv"
    using front(1) env_okD(2) [OF ok]
    by (auto simp: pv_def env_peek_packet_def Let_def crc32_default)
  then show ?thesis
    using front(2) Cons by (auto simp: env_look_def pv_is_valid_def Let_def split: if_splits)
qed

section \<open>The bus as a queue of packets\<close>

datatype bus_op = Send msgtype bytes | Handle "msgtype list" | Take msgtype | Inspect

datatype bus_out = Sent bool | Handled bool "(u16 \<times> bytes) option" | Seen "packet option"

definition bus_call ::
  "endian \<Rightarrow> nat \<Rightarrow> u64 \<Rightarrow> bool \<Rightarrow> bool \<Rightarrow> envelope \<times> mem \<Rightarrow> bus_op \<Rightarrow> bus_out \<times> envelope \<times> mem" where
  "bus_call e mx cap compute_crc verify_crc s x = (case x of
     Send T v \<Rightarrow> (case env_push e mx cap T v compute_crc s of (ok, s') \<Rightarrow> (Sent ok, s'))
   | Handle Ts \<Rightarrow> (case env_dispatch_and_commit e mx cap Ts (\<lambda>T v a. Some (mt_id T, v)) verify_crc None s of
       (ok, a, s') \<Rightarrow> (Handled ok a, s'))
   | Take T \<Rightarrow> (case env_consume e mx cap T (\<lambda>v a. Some (mt_id T, v)) verify_crc None s of
       (ok, a, s') \<Rightarrow> (Handled ok a, s'))
   | Inspect \<Rightarrow> (let pv = env_peek_packet e mx cap verify_crc s in
       (Seen (if pv_is_valid pv then Some (h_msg_id (pv_header pv), h_version (pv_header pv),
          read_bytes (snd s) (pv_payload pv) (unat (pv_payload_len pv))) else None), s)))"

text \<open>
  The specification: a first-in first-out queue of packets; the oldest packet is handled by the
  first type that accepts it, and stays where it is when none does.
\<close>

fun bus_step :: "nat \<Rightarrow> packet list \<Rightarrow> bus_op \<Rightarrow> bus_out \<times> packet list" where
  "bus_step n q (Send T v) =
     (if length q < n then (Sent True, q @ [(mt_id T, mt_version T, v)]) else (Sent False, q))"
| "bus_step n [] (Handle Ts) = (Handled False None, [])"
| "bus_step n (pk # q) (Handle Ts) =
     (case find (accepts pk) Ts of None \<Rightarrow> (Handled False None, pk # q)
      | Some T \<Rightarrow> (Handled True (Some (mt_id T, snd (snd pk))), q))"
| "bus_step n [] (Take T) = (Handled False None, [])"
| "bus_step n (pk # q) (Take T) =
     (if accepts pk T then (Handled True (Some (mt_id T, snd (snd pk))), q)
      else (Handled False None, pk # q))"
| "bus_step n [] Inspect = (Seen None, [])"
| "bus_step n (pk # q) Inspect = (Seen (Some pk), pk # q)"

fun bus_op_ok :: "nat \<Rightarrow> bus_op \<Rightarrow> bool" where
  "bus_op_ok mx (Send T v) = (carries mx T \<and> length v = mt_sizeof T)"
| "bus_op_ok mx (Handle Ts) = (\<not> has_duplicate_message_ids Ts \<and> (\<forall>T\<in>set Ts. placed T))"
| "bus_op_ok mx (Take T) = placed T"
| "bus_op_ok mx Inspect = True"

interpretation bus: simulation "env_inv e mx cap" "env_contents e mx cap" "bus_op_ok mx"
  "bus_call e mx cap cc vc" "bus_step (unat cap)" for e mx cap cc vc
proof (unfold_locales, goal_cases)
  case (1 s x out s')
  obtain rb m where s: "s = (rb, m)" by force
  note inv = 1(1) [unfolded s]
  show ?case
  proof (cases x)
    case (Send T v)
    with 1 show ?thesis
      using env_push_room [OF inv, of T v cc] env_push_full [OF inv, of T v cc]
      by (cases "length (env_contents e mx cap (rb, m)) < unat cap") (auto simp: s bus_call_def)
  next
    case (Handle Ts)
    with 1 have "\<not> has_duplicate_message_ids Ts" "\<forall>T\<in>set Ts. placed T" by simp_all
    note spec = env_dispatch_spec [OF inv this, where a = None and c = vc
        and visitor = "\<lambda>T v a. Some (mt_id T, v)"]
    show ?thesis
    proof (cases "env_contents e mx cap (rb, m)")
      case Nil
      with 1 Handle spec show ?thesis by (simp add: s bus_call_def env_dispatch_and_commit_def)
    next
      case (Cons pk q)
      with 1 Handle spec env_front(3,4) [OF inv Cons] show ?thesis
        by (cases "find (accepts pk) Ts") (auto simp: s bus_call_def env_dispatch_and_commit_def)
    qed
  next
    case (Take T)
    with 1 have "placed T" by simp
    note spec = env_peek_msg_spec [OF inv this, of vc]
    show ?thesis
    proof (cases "env_contents e mx cap (rb, m)")
      case Nil
      with 1 Take spec show ?thesis by (simp add: s bus_call_def env_consume_def)
    next
      case (Cons pk q)
      with 1 Take spec env_front(3,4) [OF inv Cons] show ?thesis
        by (auto simp: s bus_call_def env_consume_def Let_def split: if_splits)
    qed
  next
    case Inspect
    with 1 env_peek_packet_spec [OF inv, of vc] show ?thesis
      by (cases "env_contents e mx cap (rb, m)") (auto simp: s bus_call_def Let_def)
  qed
qed

section \<open>Properties of the bus\<close>

text \<open>An empty bus of four slots for payloads of up to 16 bytes.\<close>

definition demo_bus :: "envelope \<times> mem" where
  "demo_bus = (\<lparr>ir_shm = region_default, ir_hdr = 4096, ir_slots = 4288, ir_producer = True\<rparr>,
     store_tail Little (store_head Little dirty 4096 0) 4096 0)"

lemma demo_bus: "env_inv Little 16 4 demo_bus" "env_contents Little 16 4 demo_bus = []"
  by (simp_all add: demo_bus_def env_inv_def env_contents_def ring_drained env_ok_def capacity_4_64
      nullptr_def env_kSlotSize_def Let_def sizeof_Header_def)

lemma bus_types: "carries 16 PingMsg" "carries 16 StatusMsg" "placed PingMsg" "placed StatusMsg"
  by (simp_all add: carries_def placed_def)

text \<open>
  C6. The bus is a bounded first-in first-out queue of typed packets: any sequence of \<open>push\<close>,
  \<open>dispatch_and_commit\<close>, \<open>consume\<close> and \<open>peek_packet\<close> calls, for any types that fit, gives the
  results of that queue. Each packet is handled once, with the payload that was sent, by the one
  type whose identifier, version and size it has; a packet that no type of the call accepts stays
  at the front and holds back the packets behind it.
\<close>

theorem bus_refines_queue:
  assumes "env_inv e mx cap s" "list_all (bus_op_ok mx) xs"
    and "run (bus_call e mx cap compute_crc verify_crc) s xs = (outs, s')"
  shows "env_inv e mx cap s' \<and>
    run (bus_step (unat cap)) (env_contents e mx cap s) xs = (outs, env_contents e mx cap s')"
  using assms by (rule bus.run_simulates)

theorem bus_refines_queue_witness:
  "fst (run (bus_call Little 16 4 True True) demo_bus
      [Send PingMsg [1, 2, 3, 4], Send StatusMsg [200, 0, 0, 0], Take StatusMsg,
       Handle [StatusMsg, PingMsg], Inspect, Take StatusMsg, Inspect]) =
    [Sent True, Sent True, Handled False None, Handled True (Some (1, [1, 2, 3, 4])),
     Seen (Some (3, 1, [200, 0, 0, 0])), Handled True (Some (3, [200, 0, 0, 0])), Seen None]"
proof -
  let ?xs = "[Send PingMsg [1, 2, 3, 4], Send StatusMsg [200, 0, 0, 0], Take StatusMsg,
       Handle [StatusMsg, PingMsg], Inspect, Take StatusMsg, Inspect]"
  obtain outs s' where r: "run (bus_call Little 16 4 True True) demo_bus ?xs = (outs, s')"
    by (meson surj_pair)
  have "list_all (bus_op_ok 16) ?xs" using bus_types by (simp add: has_duplicate_iff)
  from bus_refines_queue [OF demo_bus(1) this r] show ?thesis
    unfolding r fst_conv by (simp add: demo_bus accepts_def)
qed

end
