(* ===== verification/Ipc_Lifetime.thy ===== *)
theory Ipc_Lifetime
  imports Ipc_Envelope
begin

text \<open>
  The objects of \<open>include/sinew/ipc_ring_buffer.hpp\<close> and \<open>include/sinew/ipc_envelope.hpp\<close> from
  construction to destruction: the defaulted special members, the constants they report, what they
  hold of the operating system, and what a consumer finds that opens a segment while its producer is
  still writing the header.
\<close>

section \<open>Special members and constants\<close>

text \<open>The defaulted destructor runs that of the region.\<close>

definition ipc_destroy :: "'os posix \<Rightarrow> ipc_ring \<Rightarrow> 'os \<Rightarrow> 'os" where
  "ipc_destroy sys rb os = region_destroy sys (ir_shm rb) os"

text \<open>The defaulted move assignment from another object: the region moves, the rest is copied.\<close>

definition ipc_move_assign ::
  "'os posix \<Rightarrow> string \<Rightarrow> ipc_ring \<Rightarrow> ipc_ring \<Rightarrow> 'os \<Rightarrow> (ipc_ring \<times> ipc_ring) \<times> 'os" where
  "ipc_move_assign sys leftover this other os =
     (let ((shm, old), os) = region_move_assign sys leftover (ir_shm this) (ir_shm other) os
      in ((other\<lparr>ir_shm := shm\<rparr>, other\<lparr>ir_shm := old\<rparr>), os))"

definition ipc_capacity :: "u64 \<Rightarrow> u64" where
  "ipc_capacity cap = cap"

definition ipc_required_shm_size :: "msgtype \<Rightarrow> u64 \<Rightarrow> nat" where
  "ipc_required_shm_size T cap = ipc_kTotalShmSize T cap"

definition env_default :: envelope where
  "env_default = ipc_default"

definition env_destroy :: "'os posix \<Rightarrow> envelope \<Rightarrow> 'os \<Rightarrow> 'os" where
  "env_destroy sys rb os = region_destroy sys (ir_shm rb) os"

definition env_move :: "string \<Rightarrow> envelope \<Rightarrow> envelope \<times> envelope" where
  "env_move leftover other = (other, other\<lparr>ir_shm := snd (region_move leftover (ir_shm other))\<rparr>)"

definition env_move_assign ::
  "'os posix \<Rightarrow> string \<Rightarrow> envelope \<Rightarrow> envelope \<Rightarrow> 'os \<Rightarrow> (envelope \<times> envelope) \<times> 'os" where
  "env_move_assign sys leftover this other os =
     (let ((shm, old), os) = region_move_assign sys leftover (ir_shm this) (ir_shm other) os
      in ((other\<lparr>ir_shm := shm\<rparr>, other\<lparr>ir_shm := old\<rparr>), os))"

definition env_capacity :: "u64 \<Rightarrow> u64" where
  "env_capacity cap = cap"

definition env_max_payload_size :: "nat \<Rightarrow> nat" where
  "env_max_payload_size mx = mx"

definition env_slot_size :: "nat \<Rightarrow> nat" where
  "env_slot_size mx = env_kSlotSize mx"

definition env_required_shm_size :: "nat \<Rightarrow> u64 \<Rightarrow> nat" where
  "env_required_shm_size mx cap = env_kTotalShmSize mx cap"

lemma env_is_valid_eq: "env_is_valid = ipc_is_valid" and env_destroy_eq: "env_destroy = ipc_destroy"
  by (simp_all add: fun_eq_iff env_is_valid_def ipc_is_valid_def env_destroy_def ipc_destroy_def)

section \<open>What an object holds of the system\<close>

text \<open>
  The four functions that return a ring end in one of three ways: without a region, with one whose
  header did not match and which is destroyed at once, or with a ring around it.
\<close>

definition holds :: "region \<times> 'os \<Rightarrow> ('os \<Rightarrow> 'os) \<Rightarrow> ipc_ring \<times> 'os \<Rightarrow> bool" where
  "holds got destroy res \<longleftrightarrow> (case (got, res) of ((shm, os1), (rb, os2)) \<Rightarrow>
     rb = ipc_default \<and> os2 = destroy os1
     \<or> region_is_valid shm \<and> ir_shm rb = shm \<and> ipc_is_valid rb \<and> os2 = os1)"

lemma region_default_destroy [simp]: "region_destroy sys region_default os = os"
  by (simp add: region_destroy_def region_close_def)

lemma ipc_default_invalid [simp]: "\<not> ipc_is_valid ipc_default" "ir_shm ipc_default = region_default"
  by (simp_all add: ipc_is_valid_def ipc_default_def)

lemma attach_holds:
  "ipc_create sys e T cap name m os = (rb, m', os1) \<Longrightarrow>
     \<exists>shm os'. region_create sys name (of_nat (ipc_kTotalShmSize T cap)) os = (shm, os')
       \<and> holds (shm, os') (region_destroy sys shm) (rb, os1)"
  "env_create sys e mx cap name m os = (rb, m', os1) \<Longrightarrow>
     \<exists>shm os'. region_create sys name (of_nat (env_kTotalShmSize mx cap)) os = (shm, os')
       \<and> holds (shm, os') (region_destroy sys shm) (rb, os1)"
  "ipc_open sys e T cap name m os = (rb, os1) \<Longrightarrow>
     \<exists>shm os'. region_open sys name (of_nat (ipc_kTotalShmSize T cap)) os = (shm, os')
       \<and> holds (shm, os') (region_destroy sys shm) (rb, os1)"
  "env_open sys e mx cap name m os = (rb, os1) \<Longrightarrow>
     \<exists>shm os'. region_open sys name (of_nat (env_kTotalShmSize mx cap)) os = (shm, os')
       \<and> holds (shm, os') (region_destroy sys shm) (rb, os1)"
  by (auto simp: ipc_create_def env_create_def ipc_open_def env_open_def holds_def Let_def
      ipc_is_valid_def region_is_valid_def sizeof_IpcRingHeader_def split: prod.splits if_splits)

text \<open>The books of a process over the life of a ring.\<close>

lemma holds_books:
  assumes ok: "posix_ok sys R" and books: "keeps_books R os (shm, os')"
    and held: "holds (shm, os') (region_destroy sys shm) (rb, os1)"
  shows "(ipc_is_valid rb \<or> fds R os1 = fds R os \<and> maps R os1 = maps R os)
    \<and> fds R (ipc_destroy sys rb os1) = fds R os \<and> maps R (ipc_destroy sys rb os1) = maps R os"
  using held books_closed [OF ok books]
  by (auto simp: holds_def ipc_destroy_def) (simp_all add: region_destroy_def)

text \<open>
  C27. No leak from a ring or a bus: every way to obtain one either fails, with the descriptors and
  mappings of the process as before, or gives a valid object whose destruction restores them.
\<close>

theorem ring_lifetime:
  assumes "posix_ok sys R"
    and "(\<exists>m m'. ipc_create sys e T cap name m os = (rb, m', os1) \<or> env_create sys e mx cap name m os = (rb, m', os1))
       \<or> (\<exists>m. ipc_open sys e T cap name m os = (rb, os1) \<or> env_open sys e mx cap name m os = (rb, os1))"
  shows "(ipc_is_valid rb \<or> fds R os1 = fds R os \<and> maps R os1 = maps R os)
    \<and> fds R (ipc_destroy sys rb os1) = fds R os \<and> maps R (ipc_destroy sys rb os1) = maps R os"
proof -
  obtain shm os' n where "region_create sys name n os = (shm, os') \<or> region_open sys name n os = (shm, os')"
    and held: "holds (shm, os') (region_destroy sys shm) (rb, os1)"
    using assms(2) attach_holds [where rb = rb and name = name and os = os and ?os1.0 = os1] by metis
  then have "keeps_books R os (shm, os')" using region_books(1,3) [OF assms(1)] by metis
  from holds_books [OF assms(1) this held] show ?thesis .
qed

theorem ring_lifetime_witness:
  "case ipc_create demo_posix Little PingMsg 4 ''bus'' dirty \<lparr>d_fds = [], d_maps = [], d_names = []\<rparr> of (rb, _, os1) \<Rightarrow>
     ipc_is_valid rb \<and> fds demo_resources (ipc_destroy demo_posix rb os1) = {}"
proof -
  let ?os = "\<lparr>d_fds = [], d_maps = [], d_names = []\<rparr>"
  obtain rb m1 os1 where c: "ipc_create demo_posix Little PingMsg 4 ''bus'' dirty ?os = (rb, m1, os1)"
    by (meson prod_cases3)
  have "ipc_is_valid rb"
    using c by (auto simp: ipc_create_def demo_sizes demo_create region_is_valid_def nullptr_def
        sizeof_IpcRingHeader_def ipc_is_valid_def Let_def)
  moreover have "fds demo_resources (ipc_destroy demo_posix rb os1) = fds demo_resources ?os"
    using ring_lifetime [OF demo_posix_ok, where e = Little and T = PingMsg and cap = 4 and name = "''bus''"] c by blast
  ultimately show ?thesis unfolding c by (simp add: demo_resources_def)
qed

section \<open>Opening a segment while it is being created\<close>

text \<open>
  The stores of \<open>create\<close> to the header, in the order of the code, as offsets and bytes. They are
  plain stores: another process may see any of them before any other.
\<close>

definition ipc_new_header :: "msgtype \<Rightarrow> u64 \<Rightarrow> ipc_header" where
  "ipc_new_header T cap =
     \<lparr>ih_magic = IPC_RING_MAGIC, ih_version = 1, ih_capacity = ucast cap,
      ih_slot_size = of_nat (ipc_kSlotSize T), ih_payload_len = of_nat (mt_sizeof T),
      ih_msg_id = mt_id T, ih_reserved = 0, ih_head = 0, ih_tail = 0\<rparr>"

definition header_stores :: "endian \<Rightarrow> ipc_header \<Rightarrow> field_writes" where
  "header_stores e h =
     [(0, obj_of_word e 4 (ih_magic h)), (4, obj_of_word e 4 (ih_version h)),
      (8, obj_of_word e 4 (ih_capacity h)), (12, obj_of_word e 4 (ih_slot_size h)),
      (16, obj_of_word e 4 (ih_payload_len h)), (20, obj_of_word e 2 (ih_msg_id h)),
      (22, obj_of_word e 2 (ih_reserved h)), (64, obj_of_word e 8 (ih_head h)), (128, obj_of_word e 8 (ih_tail h))]"

text \<open>What another process sees when the stores with indices in \<open>S\<close> have reached it.\<close>

definition partial_create :: "endian \<Rightarrow> msgtype \<Rightarrow> u64 \<Rightarrow> mem \<Rightarrow> ptr \<Rightarrow> nat set \<Rightarrow> mem" where
  "partial_create e T cap m hdr S = write_fields m hdr (nths (header_stores e (ipc_new_header T cap)) S)"

lemma partial_create_all:
  "partial_create e T cap m hdr {..<9} = store_ipc_header e m hdr (ipc_new_header T cap)"
  by (simp add: partial_create_def header_stores_def nths_all write_fields_def store_ipc_header_def store_defs Let_def)

lemma read_below_fields:
  "\<forall>x\<in>set fs. a + n \<le> fst x \<Longrightarrow> read_bytes (write_fields m p fs) (p + a) n = read_bytes m (p + a) n"
  unfolding write_fields_def
  by (induction fs arbitrary: m) (auto simp: read_write_disjoint)

lemma read_some_fields:
  assumes "sorted_wrt (\<lambda>x y. fst x + length (snd x) \<le> fst y) fs" "i < length fs"
  shows "read_bytes (write_fields m p (nths fs S)) (p + fst (fs ! i)) (length (snd (fs ! i))) =
    (if i \<in> S then snd (fs ! i) else read_bytes m (p + fst (fs ! i)) (length (snd (fs ! i))))"
  using assms
proof (induction fs arbitrary: m i S)
  case (Cons x fs)
  obtain off f where x: "x = (off, f)" by force
  let ?S = "{j. Suc j \<in> S}" and ?m = "if 0 \<in> S then write_bytes m (p + off) f else m"
  have split: "write_fields m p (nths (x # fs) S) = write_fields ?m p (nths fs ?S)"
    by (simp add: nths_Cons x write_fields_def)
  show ?case
  proof (cases i)
    case 0
    have "\<forall>y\<in>set (nths fs ?S). off + length f \<le> fst y"
      using Cons.prems(1) by (auto simp: x dest: in_set_nthsD)
    from read_below_fields [OF this] 0 show ?thesis unfolding split by (simp add: x)
  next
    case (Suc k)
    have "off + length f \<le> fst (fs ! k)" using Cons.prems Suc by (simp add: x)
    then have "read_bytes ?m (p + fst (fs ! k)) (length (snd (fs ! k))) =
        read_bytes m (p + fst (fs ! k)) (length (snd (fs ! k)))"
      by (simp add: read_write_disjoint)
    with Cons.IH [of k ?m ?S] Cons.prems Suc show ?thesis unfolding split by simp
  qed
qed simp

text \<open>A new segment is filled with zeros.\<close>

definition zero_filled :: "mem \<Rightarrow> ptr \<Rightarrow> nat \<Rightarrow> bool" where
  "zero_filled m p n \<longleftrightarrow> read_bytes m p n = replicate n 0"

lemma zero_filled_part: "zero_filled m p n \<Longrightarrow> a + k \<le> n \<Longrightarrow> read_bytes m (p + a) k = replicate k 0"
  using read_bytes_part [of m p n "\<lambda>_. 0" 0 a k]
  by (simp add: zero_filled_def read_bytes_def map_replicate_const)

text \<open>The fields a consumer reads then: the new value, or zero.\<close>

lemma partial_fields:
  fixes e :: endian and T :: msgtype and cap :: u64 and S :: "nat set" and m :: mem and p n :: nat
  assumes "zero_filled m p n" "192 \<le> n"
  defines "m' \<equiv> partial_create e T cap m p S"
  shows "load_u32 e m' p = (if 0 \<in> S then IPC_RING_MAGIC else 0)"
    "load_u32 e m' (p + 8) = (if 2 \<in> S then ucast cap else 0)"
    "load_u32 e m' (p + 12) = (if 3 \<in> S then of_nat (ipc_kSlotSize T) else 0)"
    "load_u32 e m' (p + 16) = (if 4 \<in> S then of_nat (mt_sizeof T) else 0)"
    "load_head e m' p = 0" "load_tail e m' p = 0"
proof -
  let ?fs = "header_stores e (ipc_new_header T cap)"
  have sorted: "sorted_wrt (\<lambda>x y. fst x + length (snd x) \<le> fst y) ?fs" by (simp add: header_stores_def)
  note field = read_some_fields [OF sorted, where m = m and p = p and S = S, folded partial_create_def, folded m'_def]
  have zero: "a + k \<le> 192 \<Longrightarrow> read_bytes m (p + a) k = replicate k 0" for a k
    using zero_filled_part [OF assms(1)] assms(2) by simp
  show "load_u32 e m' p = (if 0 \<in> S then IPC_RING_MAGIC else 0)"
    "load_u32 e m' (p + 8) = (if 2 \<in> S then ucast cap else 0)"
    "load_u32 e m' (p + 12) = (if 3 \<in> S then of_nat (ipc_kSlotSize T) else 0)"
    "load_u32 e m' (p + 16) = (if 4 \<in> S then of_nat (mt_sizeof T) else 0)"
    "load_head e m' p = 0" "load_tail e m' p = 0"
    using field [of 0] field [of 2] field [of 3] field [of 4] field [of 7] field [of 8]
      zero [of 0 4] zero [of 8 4] zero [of 12 4] zero [of 16 4] zero [of 64 8] zero [of 128 8]
    by (simp_all add: header_stores_def ipc_new_header_def load_defs load_head_def load_tail_def word_of_zeros)
qed

text \<open>
  C31. A consumer may open a segment at any moment while its producer is creating it, and may see the
  producer's stores to the header in any order: \<open>open\<close> accepts the segment exactly when the magic and
  the three layout fields have arrived. What it returns then is a ring that satisfies the invariant
  and is empty, since the segment was filled with zeros; otherwise it returns no ring and keeps nothing
  of the system.
\<close>

theorem open_during_create:
  fixes e :: endian and T :: msgtype and cap :: u64 and S :: "nat set" and m :: mem
  assumes type: "capacity_ok cap" "is_valid_message T" "mt_alignof T dvd 16"
      "unat cap < 2 ^ 32" "ipc_kSlotSize T < 2 ^ 32"
    and peer: "region_open sys name (of_nat (ipc_kTotalShmSize T cap)) os = (shm, os1)"
      "region_is_valid shm" "16 dvd rg_data shm"
    and fresh: "zero_filled m (rg_data shm) (ipc_kTotalShmSize T cap)"
    and system: "posix_ok sys R"
    and opened: "ipc_open sys e T cap name (partial_create e T cap m (rg_data shm) S) os = (rb, os2)"
  defines "seen \<equiv> partial_create e T cap m (rg_data shm) S"
  shows "(ipc_is_valid rb \<longleftrightarrow> {0, 2, 3, 4} \<subseteq> S)
    \<and> (ipc_is_valid rb \<longrightarrow> ipc_inv e T cap (rb, seen) \<and> ipc_contents e T cap (rb, seen) = [])
    \<and> (\<not> ipc_is_valid rb \<longrightarrow> fds R os2 = fds R os \<and> maps R os2 = maps R os)"
proof -
  have size: "192 \<le> ipc_kTotalShmSize T cap" by (simp add: ipc_kTotalShmSize_def sizeof_IpcRingHeader_def)
  note fields = partial_fields [OF fresh size, where e = e and T = T and cap = cap and S = S, folded seen_def]
  have "0 < unat cap" "0 < mt_sizeof T" using type capacity_pos by (auto simp: is_valid_message_def)
  moreover have "0 < ipc_kSlotSize T"
    using ipc_kSlotSize_props(1) [of T] by (simp add: message_size_eq)
  moreover have "unat (ucast cap :: u32) = unat cap"
    using type(4) by (simp add: unsigned_ucast_eq take_bit_nat_eq_self_iff)
  then have "ucast (ucast cap :: u32) = cap" by (simp add: word_unat_eq_iff)
  moreover have "unat (of_nat (ipc_kSlotSize T) :: u32) = ipc_kSlotSize T"
    using type(5) by (simp add: unat_of_nat take_bit_nat_eq_self_iff)
  moreover have "unat (of_nat (mt_sizeof T) :: u32) = mt_sizeof T" using type(2) by (simp add: valid_size_u32)
  ultimately have accepts: "layout_matches e T cap seen (rg_data shm) \<longleftrightarrow> {0, 2, 3, 4} \<subseteq> S"
    by (auto simp: layout_matches_def load_ipc_header_def fields Let_def IPC_RING_MAGIC_def)
  have books: "ipc_is_valid rb \<or> fds R os2 = fds R os \<and> maps R os2 = maps R os"
    using attach_holds(3) [OF opened] region_books(3) [OF system] holds_books [OF system] by metis
  show ?thesis
  proof (cases "layout_matches e T cap seen (rg_data shm)")
    case True
    then have "ipc_ok T cap rb" "ir_hdr rb = rg_data shm"
      using ipc_open_attaches [OF peer type(1-3) True] opened by (auto simp: seen_def)
    with accepts True show ?thesis
      by (simp add: ipc_okD ipc_inv_def ipc_contents_def fields ring_drained)
  next
    case False
    then have "rb = ipc_default"
      using opened peer(1,2) by (auto simp: ipc_open_def layout_matches_def seen_def Let_def split: if_splits)
    with False accepts books show ?thesis by simp
  qed
qed

theorem open_during_create_witness:
  "\<not> ipc_is_valid (fst (ipc_open demo_posix Little PingMsg 4 ''bus''
      (partial_create Little PingMsg 4 (\<lambda>_. 0) 24576 {0, 1, 2, 3}) \<lparr>d_fds = [], d_maps = [(5, 0)], d_names = [''/bus'']\<rparr>))
   \<and> ipc_is_valid (fst (ipc_open demo_posix Little PingMsg 4 ''bus''
      (partial_create Little PingMsg 4 (\<lambda>_. 0) 24576 {0, 2, 3, 4}) \<lparr>d_fds = [], d_maps = [(5, 0)], d_names = [''/bus'']\<rparr>))"
proof -
  let ?os = "\<lparr>d_fds = [], d_maps = [(5, 0)], d_names = [''/bus'']\<rparr>"
  obtain os1 where shm: "region_open demo_posix ''bus'' 320 ?os =
      (\<lparr>rg_name = ''bus'', rg_data = 24576, rg_size = 320, rg_creator = False, rg_fd = 1\<rparr>, os1)"
    by (rule demo_attach)
  have zero: "zero_filled (\<lambda>_. 0) 24576 (ipc_kTotalShmSize PingMsg 4)"
    by (simp add: zero_filled_def read_bytes_def map_replicate_const)
  have "ipc_is_valid (fst (ipc_open demo_posix Little PingMsg 4 ''bus''
      (partial_create Little PingMsg 4 (\<lambda>_. 0) 24576 S) ?os)) \<longleftrightarrow> {0, 2, 3, 4} \<subseteq> S" for S
  proof -
    obtain rb os2 where o: "ipc_open demo_posix Little PingMsg 4 ''bus''
        (partial_create Little PingMsg 4 (\<lambda>_. 0) 24576 S) ?os = (rb, os2)" by (meson surj_pair)
    from open_during_create [where cap = 4 and T = PingMsg and m = "\<lambda>_. 0" and os = ?os and e = Little and S = S,
        OF capacity_4_64 _ _ _ _ _ _ _ _ demo_posix_ok, where name = "''bus''"] shm o zero
    show ?thesis by (simp add: demo_sizes region_is_valid_def nullptr_def)
  qed
  then show ?thesis by simp
qed

text \<open>
  On Windows \<open>create\<close> on an existing section keeps its bytes, and an attached consumer goes on reading
  while the header is written again. Between the last two stores the head is 0 and the tail is still
  the old one, so that the ring looks full of messages: the consumer gets an old message again, even
  if it had emptied the ring.
\<close>

lemma write_fields_frame:
  "fields_inside n fs \<Longrightarrow> same_outside p n m (write_fields m p fs)"
  unfolding write_fields_def fields_inside_def
proof (induction fs arbitrary: m)
  case (Cons x fs)
  obtain off f where x: "x = (off, f)" by force
  have "same_outside p n m (write_bytes m (p + off) f)"
    using Cons.prems x by (intro same_outside_writeI) auto
  also have "same_outside p n (write_bytes m (p + off) f) (foldl (\<lambda>m (off, f). write_bytes m (p + off) f) (write_bytes m (p + off) f) fs)"
    using Cons by simp
  finally show ?case by (simp add: x)
qed simp

theorem reset_repeats_messages:
  fixes e :: endian and T :: msgtype and cap :: u64 and m :: mem
  assumes "ipc_ok T cap rb" "load_tail e m (ir_hdr rb) = k" "k \<noteq> 0"
    and "slot_look e T vc m (ipc_slot T cap rb k) = Some v"
  defines "seen \<equiv> partial_create e T cap m (ir_hdr rb) {..<8}"
  shows "\<not> ipc_empty e (rb, seen) \<and> fst (ipc_pop e T cap out vc (rb, seen)) \<and> fst (snd (ipc_pop e T cap out vc (rb, seen))) = v"
proof -
  let ?fs = "header_stores e (ipc_new_header T cap)" and ?p = "ir_hdr rb"
  have sorted: "sorted_wrt (\<lambda>x y. fst x + length (snd x) \<le> fst y) ?fs" by (simp add: header_stores_def)
  note field = read_some_fields [OF sorted, where m = m and p = ?p and S = "{..<8}", folded partial_create_def, folded seen_def]
  have cursors: "load_head e seen ?p = 0" "load_tail e seen ?p = k"
    using field [of 7] field [of 8] assms(2)
    by (simp_all add: header_stores_def ipc_new_header_def load_head_def load_tail_def load_defs)
  have "fields_inside 192 (nths ?fs {..<8})"
    by (auto simp: fields_inside_def header_stores_def list_all_iff dest!: in_set_nthsD)
  then have "same_outside ?p 192 m seen" unfolding seen_def partial_create_def by (rule write_fields_frame)
  moreover have "?p + 192 \<le> ipc_slot T cap rb k" by (rule ipc_okD [OF assms(1)])
  ultimately have look: "slot_look e T vc seen (ipc_slot T cap rb k) = Some v"
    using wire.look_outside assms(4) by metis
  then have "v = read_bytes seen (ipc_slot T cap rb k + 16) (mt_sizeof T)" by (simp add: slot_look_Some)
  moreover have "ipc_peek_read e T cap vc (rb, seen) = ipc_slot T cap rb k + 16"
    using ipc_okD [OF assms(1)] cursors assms(3) look
    by (simp add: ipc_peek_read_def view_slot_look ipc_kSlotSize_props(1))
  ultimately show ?thesis
    using ipc_okD(2) [OF assms(1)] cursors assms(3) by (simp add: ipc_empty_def ipc_pop_def)
qed

end
