(* ===== verification/Shm_Windows.thy ===== *)
theory Shm_Windows
  imports Shm
begin

text \<open>
  Model of the \<open>_WIN32\<close> branches of \<open>include/sinew/shm.hpp\<close>: the same class over file-mapping
  objects. The Win32 calls are a parameter, the record \<open>win32\<close> of functions on a state \<open>'os\<close>;
  \<open>win32_ok\<close> states what they are documented to do to the handles and views of the process and to
  the number of references to each named section, which lives as long as that number is positive.
\<close>

section \<open>The operating system\<close>

type_synonym handle = nat   \<comment> \<open>\<open>HANDLE\<close>; 0 is a null handle\<close>

record 'os win32 =
  w_CreateFileMapping :: "u32 \<Rightarrow> u32 \<Rightarrow> string \<Rightarrow> 'os \<Rightarrow> handle \<times> 'os"
  w_GetLastError :: "'os \<Rightarrow> u32"
  w_OpenFileMapping :: "string \<Rightarrow> 'os \<Rightarrow> handle \<times> 'os"
  w_MapViewOfFile :: "handle \<Rightarrow> u64 \<Rightarrow> 'os \<Rightarrow> ptr \<times> 'os"
  w_UnmapViewOfFile :: "ptr \<Rightarrow> 'os \<Rightarrow> 'os"
  w_CloseHandle :: "handle \<Rightarrow> 'os \<Rightarrow> 'os"

definition ERROR_ALREADY_EXISTS :: u32 where
  "ERROR_ALREADY_EXISTS = 183"

section \<open>SharedMemoryRegion\<close>

record win_region =
  wr_name :: string
  wr_data :: ptr
  wr_size :: u64
  wr_creator :: bool
  wr_handle :: handle

definition win_default :: win_region where
  "win_default = \<lparr>wr_name = [], wr_data = nullptr, wr_size = 0, wr_creator = False, wr_handle = 0\<rparr>"

definition win_is_valid :: "win_region \<Rightarrow> bool" where
  "win_is_valid r \<longleftrightarrow> wr_data r \<noteq> nullptr"

definition win_close :: "'os win32 \<Rightarrow> win_region \<Rightarrow> 'os \<Rightarrow> win_region \<times> 'os" where
  "win_close sys r os =
     (let (r, os) =
            (if wr_data r \<noteq> nullptr
             then (r\<lparr>wr_data := nullptr\<rparr>, w_UnmapViewOfFile sys (wr_data r) os) else (r, os));
          (r, os) =
            (if wr_handle r \<noteq> 0 then (r\<lparr>wr_handle := 0\<rparr>, w_CloseHandle sys (wr_handle r) os) else (r, os))
      in (r\<lparr>wr_size := 0, wr_creator := False\<rparr>, os))"

definition win_destroy :: "'os win32 \<Rightarrow> win_region \<Rightarrow> 'os \<Rightarrow> 'os" where
  "win_destroy sys r os = snd (win_close sys r os)"

definition win_move :: "string \<Rightarrow> win_region \<Rightarrow> win_region \<times> win_region" where
  "win_move leftover other =
     (other, other\<lparr>wr_name := leftover, wr_data := nullptr, wr_size := 0, wr_creator := False,
                   wr_handle := 0\<rparr>)"

definition win_move_assign ::
  "'os win32 \<Rightarrow> string \<Rightarrow> win_region \<Rightarrow> win_region \<Rightarrow> 'os \<Rightarrow> (win_region \<times> win_region) \<times> 'os" where
  "win_move_assign sys leftover this other os =
     (let (this, os) = win_close sys this os in (win_move leftover other, os))"

definition win_local :: "string \<Rightarrow> u64 \<Rightarrow> bool \<Rightarrow> win_region" where
  "win_local name sz creator = win_default\<lparr>wr_name := name, wr_size := sz, wr_creator := creator\<rparr>"

definition win_section_name :: "string \<Rightarrow> string" where
  "win_section_name name = ''Local'' @ [CHR 0x5C] @ name"

definition win_create :: "'os win32 \<Rightarrow> string \<Rightarrow> u64 \<Rightarrow> 'os \<Rightarrow> win_region \<times> 'os" where
  "win_create sys name sz os =
     (let region = win_local name sz True;
          win_name = win_section_name (wr_name region);
          (hMap, os) = w_CreateFileMapping sys (ucast (drop_bit 32 sz)) (ucast sz) win_name os in
      if hMap = 0 then (win_default, win_destroy sys region os)
      else
        let (ptr, os) = w_MapViewOfFile sys hMap sz os in
        if ptr = nullptr then (win_default, win_destroy sys region (w_CloseHandle sys hMap os))
        else (region\<lparr>wr_handle := hMap, wr_data := ptr\<rparr>, os))"

definition win_create_exclusive :: "'os win32 \<Rightarrow> string \<Rightarrow> u64 \<Rightarrow> 'os \<Rightarrow> win_region \<times> 'os" where
  "win_create_exclusive sys name sz os =
     (let region = win_local name sz True;
          win_name = win_section_name (wr_name region);
          (hMap, os) = w_CreateFileMapping sys (ucast (drop_bit 32 sz)) (ucast sz) win_name os in
      if hMap = 0 then (win_default, win_destroy sys region os)
      else if w_GetLastError sys os = ERROR_ALREADY_EXISTS
        then (win_default, win_destroy sys region (w_CloseHandle sys hMap os))
      else
        let (ptr, os) = w_MapViewOfFile sys hMap sz os in
        if ptr = nullptr then (win_default, win_destroy sys region (w_CloseHandle sys hMap os))
        else (region\<lparr>wr_handle := hMap, wr_data := ptr\<rparr>, os))"

definition win_open :: "'os win32 \<Rightarrow> string \<Rightarrow> u64 \<Rightarrow> 'os \<Rightarrow> win_region \<times> 'os" where
  "win_open sys name sz os =
     (let region = win_local name sz False;
          win_name = win_section_name (wr_name region);
          (hMap, os) = w_OpenFileMapping sys win_name os in
      if hMap = 0 then (win_default, win_destroy sys region os)
      else
        let (ptr, os) = w_MapViewOfFile sys hMap sz os in
        if ptr = nullptr then (win_default, win_destroy sys region (w_CloseHandle sys hMap os))
        else (region\<lparr>wr_handle := hMap, wr_data := ptr\<rparr>, os))"

section \<open>What the calls promise\<close>

text \<open>
  The books of the system: the section each handle and each view of this process refers to, and how
  many references every process together holds to a section of a name.
\<close>

record books =
  bk_handles :: "handle \<Rightarrow> string option"
  bk_views :: "ptr \<Rightarrow> string option"
  bk_refs :: "string \<Rightarrow> nat"

definition add_handle :: "handle \<Rightarrow> string \<Rightarrow> books \<Rightarrow> books" where
  "add_handle h name b = b\<lparr>bk_handles := (bk_handles b)(h \<mapsto> name),
     bk_refs := (bk_refs b)(name := bk_refs b name + 1)\<rparr>"

definition add_view :: "ptr \<Rightarrow> string \<Rightarrow> books \<Rightarrow> books" where
  "add_view p name b = b\<lparr>bk_views := (bk_views b)(p \<mapsto> name),
     bk_refs := (bk_refs b)(name := bk_refs b name + 1)\<rparr>"

definition drop_handle :: "handle \<Rightarrow> books \<Rightarrow> books" where
  "drop_handle h b = (case bk_handles b h of None \<Rightarrow> b
     | Some name \<Rightarrow> b\<lparr>bk_handles := (bk_handles b)(h := None),
         bk_refs := (bk_refs b)(name := bk_refs b name - 1)\<rparr>)"

definition drop_view :: "ptr \<Rightarrow> books \<Rightarrow> books" where
  "drop_view p b = (case bk_views b p of None \<Rightarrow> b
     | Some name \<Rightarrow> b\<lparr>bk_views := (bk_views b)(p := None),
         bk_refs := (bk_refs b)(name := bk_refs b name - 1)\<rparr>)"

definition acquire_ok :: "'os win32 \<Rightarrow> ('os \<Rightarrow> books) \<Rightarrow> bool" where
  "acquire_ok sys B \<longleftrightarrow>
     (\<forall>hi lo name os h os'. w_CreateFileMapping sys hi lo name os = (h, os') \<longrightarrow>
        (if h = 0 then B os' = B os
         else bk_handles (B os) h = None \<and> B os' = add_handle h name (B os)
           \<and> (w_GetLastError sys os' = ERROR_ALREADY_EXISTS \<longleftrightarrow> 0 < bk_refs (B os) name)))
     \<and> (\<forall>name os h os'. w_OpenFileMapping sys name os = (h, os') \<longrightarrow>
        (if h = 0 then B os' = B os
         else bk_handles (B os) h = None \<and> B os' = add_handle h name (B os) \<and> 0 < bk_refs (B os) name))
     \<and> (\<forall>h sz os p os' name. w_MapViewOfFile sys h sz os = (p, os') \<longrightarrow> bk_handles (B os) h = Some name \<longrightarrow>
        (if p = nullptr then B os' = B os
         else bk_views (B os) p = None \<and> B os' = add_view p name (B os)))"

definition win32_ok :: "'os win32 \<Rightarrow> ('os \<Rightarrow> books) \<Rightarrow> bool" where
  "win32_ok sys B \<longleftrightarrow> acquire_ok sys B
     \<and> (\<forall>p os. B (w_UnmapViewOfFile sys p os) = drop_view p (B os))
     \<and> (\<forall>h os. B (w_CloseHandle sys h os) = drop_handle h (B os))"

section \<open>Lemmas\<close>

text \<open>Giving back what was taken restores the books.\<close>

lemma drop_add_handle [simp]: "bk_handles b h = None \<Longrightarrow> drop_handle h (add_handle h name b) = b"
  by (cases b) (auto simp: drop_handle_def add_handle_def)

lemma drop_add_view [simp]: "bk_views b p = None \<Longrightarrow> drop_view p (add_view p name b) = b"
  by (cases b) (auto simp: drop_view_def add_view_def)

lemma add_handle_sel [simp]:
  "bk_handles (add_handle h name b) = (bk_handles b)(h \<mapsto> name)" "bk_views (add_handle h name b) = bk_views b"
  "bk_refs (add_handle h name b) = (bk_refs b)(name := bk_refs b name + 1)"
  by (simp_all add: add_handle_def)

lemma w_create:
  assumes "win32_ok sys B" "w_CreateFileMapping sys hi lo name os = (h, os')"
  shows "h = 0 \<Longrightarrow> B os' = B os"
    and "h \<noteq> 0 \<Longrightarrow> bk_handles (B os) h = None \<and> B os' = add_handle h name (B os)
      \<and> (w_GetLastError sys os' = ERROR_ALREADY_EXISTS \<longleftrightarrow> 0 < bk_refs (B os) name)"
  using assms unfolding win32_ok_def acquire_ok_def by metis+

lemma w_open:
  assumes "win32_ok sys B" "w_OpenFileMapping sys name os = (h, os')"
  shows "h = 0 \<Longrightarrow> B os' = B os"
    and "h \<noteq> 0 \<Longrightarrow> bk_handles (B os) h = None \<and> B os' = add_handle h name (B os) \<and> 0 < bk_refs (B os) name"
  using assms unfolding win32_ok_def acquire_ok_def by metis+

lemma w_map:
  assumes "win32_ok sys B" "w_MapViewOfFile sys h sz os = (p, os')" "bk_handles (B os) h = Some name"
  shows "p = nullptr \<Longrightarrow> B os' = B os"
    and "p \<noteq> nullptr \<Longrightarrow> bk_views (B os) p = None \<and> B os' = add_view p name (B os)"
  using assms unfolding win32_ok_def acquire_ok_def by metis+

lemma w_release:
  assumes "win32_ok sys B"
  shows "B (w_UnmapViewOfFile sys p os) = drop_view p (B os)"
    and "B (w_CloseHandle sys h os) = drop_handle h (B os)"
  using assms by (simp_all add: win32_ok_def)

lemma win_local_sel [simp]:
  "wr_name (win_local n sz c) = n" "wr_data (win_local n sz c) = nullptr" "wr_size (win_local n sz c) = sz"
  "wr_creator (win_local n sz c) = c" "wr_handle (win_local n sz c) = 0"
  by (simp_all add: win_local_def win_default_def)

lemma win_default_invalid [simp]: "\<not> win_is_valid win_default"
  by (simp add: win_is_valid_def win_default_def)

lemma win_destroy_local [simp]: "win_destroy sys (win_local n sz c) os = os"
  by (simp add: win_destroy_def win_close_def Let_def)

lemma win_close_default [simp]: "win_close sys win_default os = (win_default, os)"
  by (simp add: win_close_def win_default_def)

lemma win_close_fst:
  "fst (win_close sys r os) = \<lparr>wr_name = wr_name r, wr_data = nullptr, wr_size = 0, wr_creator = False,
     wr_handle = 0\<rparr>"
  by (simp add: win_close_def Let_def)

text \<open>
  A region is either the default one, with the books as they were, or owns one new handle and one
  new view of the section.
\<close>

definition win_books :: "books \<Rightarrow> win_region \<Rightarrow> books \<Rightarrow> string \<Rightarrow> bool" where
  "win_books b r b' name \<longleftrightarrow>
     (r = win_default \<and> b' = b)
     \<or> (wr_data r \<noteq> nullptr \<and> wr_handle r \<noteq> 0 \<and> bk_handles b (wr_handle r) = None
        \<and> bk_views b (wr_data r) = None \<and> b' = add_view (wr_data r) name (add_handle (wr_handle r) name b))"

text \<open>The part that the three functions share once they hold a handle.\<close>

definition map_handle :: "'os win32 \<Rightarrow> win_region \<Rightarrow> handle \<Rightarrow> 'os \<Rightarrow> win_region \<times> 'os" where
  "map_handle sys region h os =
     (let (p, os) = w_MapViewOfFile sys h (wr_size region) os in
      if p = nullptr then (win_default, win_destroy sys region (w_CloseHandle sys h os))
      else (region\<lparr>wr_handle := h, wr_data := p\<rparr>, os))"

lemma win_attach_eq:
  "win_create sys name sz os =
     (case w_CreateFileMapping sys (ucast (drop_bit 32 sz)) (ucast sz) (win_section_name name) os of (h, os) \<Rightarrow>
        if h = 0 then (win_default, os) else map_handle sys (win_local name sz True) h os)"
  "win_create_exclusive sys name sz os =
     (case w_CreateFileMapping sys (ucast (drop_bit 32 sz)) (ucast sz) (win_section_name name) os of (h, os) \<Rightarrow>
        if h = 0 then (win_default, os)
        else if w_GetLastError sys os = ERROR_ALREADY_EXISTS then (win_default, w_CloseHandle sys h os)
        else map_handle sys (win_local name sz True) h os)"
  "win_open sys name sz os =
     (case w_OpenFileMapping sys (win_section_name name) os of (h, os) \<Rightarrow>
        if h = 0 then (win_default, os) else map_handle sys (win_local name sz False) h os)"
  by (simp_all add: win_create_def win_create_exclusive_def win_open_def map_handle_def Let_def
      split: prod.split)

lemma map_handle_books:
  assumes ok: "win32_ok sys B" and h: "h \<noteq> 0" "bk_handles b h = None" "B os = add_handle h name b"
    and r: "map_handle sys (win_local n sz c) h os = (r, os')"
  shows "win_books b r (B os') name"
proof -
  obtain p os1 where m: "w_MapViewOfFile sys h sz os = (p, os1)" by (meson surj_pair)
  have "bk_handles (B os) h = Some name" using h by simp
  note map = w_map [OF ok m this]
  show ?thesis
    using map h r by (cases "p = nullptr") (auto simp: map_handle_def m win_books_def w_release [OF ok])
qed

lemma win_create_books:
  assumes ok: "win32_ok sys B"
    and "win_create sys name sz os = (r, os') \<or> win_create_exclusive sys name sz os = (r, os')"
  shows "win_books (B os) r (B os') (win_section_name name)"
proof -
  obtain h os1 where c: "w_CreateFileMapping sys (ucast (drop_bit 32 sz)) (ucast sz) (win_section_name name) os = (h, os1)"
    by (meson surj_pair)
  note eq = win_attach_eq(1,2) [of sys name sz os, unfolded c prod.case]
  show ?thesis
  proof (cases "h = 0")
    case True
    with assms(2) w_create(1) [OF ok c] show ?thesis by (auto simp: eq win_books_def)
  next
    case False
    note new = w_create(2) [OF ok c False]
    then have "B (w_CloseHandle sys h os1) = B os" by (simp add: w_release [OF ok])
    moreover have "win_books (B os) r (B os') (win_section_name name)"
      if "map_handle sys (win_local name sz True) h os1 = (r, os')"
      using map_handle_books [OF ok False _ _ that] new by blast
    ultimately show ?thesis
      using assms(2) False by (auto simp: eq win_books_def [of _ win_default] split: if_splits)
  qed
qed

lemma win_open_books:
  assumes ok: "win32_ok sys B" and "win_open sys name sz os = (r, os')"
  shows "win_books (B os) r (B os') (win_section_name name)"
proof -
  obtain h os1 where c: "w_OpenFileMapping sys (win_section_name name) os = (h, os1)" by (meson surj_pair)
  note eq = win_attach_eq(3) [of sys name sz os, unfolded c prod.case]
  show ?thesis
  proof (cases "h = 0")
    case True
    with assms(2) w_open(1) [OF ok c] show ?thesis by (auto simp: eq win_books_def)
  next
    case False
    with assms(2) have "map_handle sys (win_local name sz False) h os1 = (r, os')" by (simp add: eq)
    with map_handle_books [OF ok False] w_open(2) [OF ok c False] show ?thesis by blast
  qed
qed

lemma win_attach_books:
  assumes "win32_ok sys B"
    and "attach \<in> {win_create sys, win_create_exclusive sys, win_open sys}" "attach name sz os = (r, os')"
  shows "win_books (B os) r (B os') (win_section_name name)"
  using assms(2,3) by (auto intro: win_create_books [OF assms(1)] win_open_books [OF assms(1)])

lemma win_books_closed:
  assumes ok: "win32_ok sys B" and "win_books b r (B os) name"
  shows "B (snd (win_close sys r os)) = b"
  using assms(2)
proof (unfold win_books_def, elim disjE conjE)
  assume *: "wr_data r \<noteq> nullptr" "wr_handle r \<noteq> 0" "bk_handles b (wr_handle r) = None"
    "bk_views b (wr_data r) = None" "B os = add_view (wr_data r) name (add_handle (wr_handle r) name b)"
  then show ?thesis by (simp add: win_close_def w_release [OF ok])
qed simp

section \<open>An operating system to compute with\<close>

text \<open>
  One process on a system that keeps the books itself, the references held elsewhere included;
  handles and addresses are handed out in order.
\<close>

record demo_win =
  dw_next :: nat
  dw_books :: books
  dw_error :: u32

definition demo_win32 :: "demo_win win32" where
  "demo_win32 =
     \<lparr>w_CreateFileMapping = (\<lambda>hi lo name os.
        if bk_handles (dw_books os) (dw_next os) = None \<and> dw_next os \<noteq> 0
        then (dw_next os, os\<lparr>dw_next := dw_next os + 1, dw_books := add_handle (dw_next os) name (dw_books os),
          dw_error := (if 0 < bk_refs (dw_books os) name then ERROR_ALREADY_EXISTS else 0)\<rparr>)
        else (0, os)),
      w_GetLastError = dw_error,
      w_OpenFileMapping = (\<lambda>name os.
        if bk_handles (dw_books os) (dw_next os) = None \<and> dw_next os \<noteq> 0 \<and> 0 < bk_refs (dw_books os) name
        then (dw_next os, os\<lparr>dw_next := dw_next os + 1, dw_books := add_handle (dw_next os) name (dw_books os)\<rparr>)
        else (0, os)),
      w_MapViewOfFile = (\<lambda>h sz os. case bk_handles (dw_books os) h of None \<Rightarrow> (nullptr, os)
        | Some name \<Rightarrow> let p = 65536 * dw_next os in
            if p \<noteq> nullptr \<and> bk_views (dw_books os) p = None
            then (p, os\<lparr>dw_next := dw_next os + 1, dw_books := add_view p name (dw_books os)\<rparr>)
            else (nullptr, os)),
      w_UnmapViewOfFile = (\<lambda>p os. os\<lparr>dw_books := drop_view p (dw_books os)\<rparr>),
      w_CloseHandle = (\<lambda>h os. os\<lparr>dw_books := drop_handle h (dw_books os)\<rparr>)\<rparr>"

lemma demo_win32_ok: "win32_ok demo_win32 dw_books"
  by (auto simp: win32_ok_def acquire_ok_def demo_win32_def Let_def ERROR_ALREADY_EXISTS_def split: if_splits option.splits)

definition demo_idle :: "(string \<Rightarrow> nat) \<Rightarrow> demo_win" where
  "demo_idle refs = \<lparr>dw_next = 1, dw_books = \<lparr>bk_handles = (\<lambda>_. None), bk_views = (\<lambda>_. None), bk_refs = refs\<rparr>,
     dw_error = 0\<rparr>"

section \<open>Properties of the region on Windows\<close>

text \<open>
  C26. No leak on Windows either: a region that could not be had leaves handles, views and references
  as they were; one that was obtained, and perhaps moved, gives everything back when it is closed,
  and neither the moved-from object nor a second \<open>close\<close> releases anything twice.
\<close>

theorem win_region_resources:
  assumes "win32_ok sys B"
    and "attach \<in> {win_create sys, win_create_exclusive sys, win_open sys}"
    and "attach name sz os = (r, os1)" "win_move leftover r = (owner, moved)"
    and "win_close sys owner os1 = (r', os2)"
  shows "(win_is_valid r \<or> B os1 = B os) \<and> B os2 = B os \<and> \<not> win_is_valid r'
    \<and> win_destroy sys r' os2 = os2 \<and> win_destroy sys moved os2 = os2"
proof -
  have books: "win_books (B os) r (B os1) (win_section_name name)"
    by (rule win_attach_books [OF assms(1-3)])
  have own: "owner = r" and moved: "wr_data moved = nullptr" "wr_handle moved = 0"
    using assms(4) by (auto simp: win_move_def)
  have r': "wr_data r' = nullptr" "wr_handle r' = 0"
    using win_close_fst [of sys owner os1] assms(5) by simp_all
  have "B os2 = B os" using win_books_closed [OF assms(1) books] assms(5) own by simp
  with books r' moved show ?thesis
    by (auto simp: win_books_def win_is_valid_def win_destroy_def win_close_def Let_def)
qed

theorem win_region_resources_witness:
  "(case win_create demo_win32 ''bus'' 4096 (demo_idle (\<lambda>_. 0)) of (r, os1) \<Rightarrow>
     win_is_valid r \<and> bk_refs (dw_books os1) (win_section_name ''bus'') = 2
     \<and> dw_books (snd (win_close demo_win32 r os1)) = dw_books (demo_idle (\<lambda>_. 0)))"
proof -
  obtain r os1 where c: "win_create demo_win32 ''bus'' 4096 (demo_idle (\<lambda>_. 0)) = (r, os1)" by (meson surj_pair)
  obtain r' os2 where d: "win_close demo_win32 r os1 = (r', os2)" by (meson surj_pair)
  have "win_is_valid r" "bk_refs (dw_books os1) (win_section_name ''bus'') = 2"
    using c by (simp_all add: win_create_def demo_win32_def demo_idle_def Let_def nullptr_def)
      (auto simp: win_is_valid_def nullptr_def add_view_def add_handle_def)
  with win_region_resources [where attach = "win_create demo_win32", OF demo_win32_ok _ c _ d] d c show ?thesis
    by (simp add: win_move_def)
qed

text \<open>
  On Windows \<open>create_exclusive\<close> refuses a name that is in use and leaves the existing section
  alone, in contrast to POSIX; \<open>create\<close> shares the existing section, and closing the region does not
  take it away from those who still refer to it.
\<close>

theorem win_existing_section_kept:
  assumes "win32_ok sys B" "0 < bk_refs (B os) (win_section_name name)"
    and "win_create_exclusive sys name sz os = (r, os1)"
    and "win_create sys name sz os = (r', os2)" "win_close sys r' os2 = (r'', os3)"
  shows "\<not> win_is_valid r \<and> B os1 = B os
    \<and> 0 < bk_refs (B os2) (win_section_name name) \<and> 0 < bk_refs (B os3) (win_section_name name)"
proof -
  obtain h os' where c: "w_CreateFileMapping sys (ucast (drop_bit 32 sz)) (ucast sz) (win_section_name name) os = (h, os')"
    by (meson surj_pair)
  note new = w_create [OF assms(1) c]
  have "r = win_default \<and> B os1 = B os"
    using assms(2,3) new by (cases "h = 0") (auto simp: win_attach_eq c w_release [OF assms(1)])
  moreover have books: "win_books (B os) r' (B os2) (win_section_name name)"
    using win_create_books [OF assms(1)] assms(4) by blast
  then have "0 < bk_refs (B os2) (win_section_name name)"
    using assms(2) by (auto simp: win_books_def add_view_def)
  moreover have "B os3 = B os" using win_books_closed [OF assms(1) books] assms(5) by simp
  ultimately show ?thesis using assms(2) by simp
qed

theorem win_existing_section_kept_witness:
  "(let os = demo_idle (\<lambda>n. if n = win_section_name ''bus'' then 2 else 0) in
     \<not> win_is_valid (fst (win_create_exclusive demo_win32 ''bus'' 64 os))
     \<and> dw_books (snd (win_create_exclusive demo_win32 ''bus'' 64 os)) = dw_books os)"
proof -
  let ?os = "demo_idle (\<lambda>n. if n = win_section_name ''bus'' then 2 else 0)"
  obtain r os1 where c: "win_create_exclusive demo_win32 ''bus'' 64 ?os = (r, os1)" by (meson surj_pair)
  obtain r' os2 where d: "win_create demo_win32 ''bus'' 64 ?os = (r', os2)" by (meson surj_pair)
  obtain r'' os3 where e: "win_close demo_win32 r' os2 = (r'', os3)" by (meson surj_pair)
  have "\<not> win_is_valid r \<and> dw_books os1 = dw_books ?os"
    using win_existing_section_kept [OF demo_win32_ok _ c d e] by (simp add: demo_idle_def)
  then show ?thesis unfolding Let_def c by simp
qed

end
