(* ===== verification/Reflect.thy ===== *)
theory Reflect
  imports Endian
begin

text \<open>
  Model of the field reflection of \<open>include/sinew/portable.hpp\<close>: the layout of a message type as
  \<open>SINEW_REFLECT\<close> and the type traits of \<open>detail\<close> classify it, the in-place conversion
  \<open>portable_swap\<close>, and the value an object representation has on a host of either byte order,
  which is what a conversion must preserve.
\<close>

section \<open>Parts of an object representation\<close>

definition slice :: "nat \<Rightarrow> nat \<Rightarrow> bytes \<Rightarrow> bytes" where
  "slice off n bs = take n (drop off bs)"

definition splice :: "nat \<Rightarrow> bytes \<Rightarrow> bytes \<Rightarrow> bytes" where
  "splice off v bs = take off bs @ v @ drop (off + length v) bs"

text \<open>Running an operation on the sub-object of \<open>n\<close> bytes at \<open>off\<close>.\<close>

definition apply_at :: "(bytes \<Rightarrow> bytes) \<Rightarrow> nat \<Rightarrow> nat \<Rightarrow> bytes \<Rightarrow> bytes" where
  "apply_at g off n bs = splice off (g (slice off n bs)) bs"

lemma length_slice [simp]: "off + n \<le> length bs \<Longrightarrow> length (slice off n bs) = n"
  by (simp add: slice_def)

lemma slice_all [simp]: "n = length bs \<Longrightarrow> slice 0 n bs = bs"
  by (simp add: slice_def)

lemma slice_slice: "a + n \<le> k \<Longrightarrow> slice a n (slice b k bs) = slice (b + a) n bs"
  by (simp add: slice_def drop_take add.commute min_def)

lemma slice_nth: "slice off n bs = map (\<lambda>i. bs ! (off + i)) [0..<n]" if "off + n \<le> length bs"
  using that by (intro nth_equalityI) (simp_all add: slice_def)

lemma nth_splice:
  "off + length v \<le> length bs \<Longrightarrow> i < length bs \<Longrightarrow>
     splice off v bs ! i = (if off \<le> i \<and> i < off + length v then v ! (i - off) else bs ! i)"
  by (auto simp: splice_def nth_append min_def not_less)

lemma length_splice [simp]: "off + length v \<le> length bs \<Longrightarrow> length (splice off v bs) = length bs"
  by (simp add: splice_def)

lemma slice_splice_same: "off + length v \<le> length bs \<Longrightarrow> n = length v \<Longrightarrow> slice off n (splice off v bs) = v"
  by (simp add: splice_def slice_def)

lemma slice_splice_other:
  assumes "off + length v \<le> length bs" "a + n \<le> length bs" "a + n \<le> off \<or> off + length v \<le> a"
  shows "slice a n (splice off v bs) = slice a n bs"
  using assms by (auto simp: slice_nth nth_splice)

text \<open>Operations on disjoint sub-objects, one after the other.\<close>

definition apart :: "nat \<times> nat \<Rightarrow> nat \<times> nat \<Rightarrow> bool" where
  "apart r s \<longleftrightarrow> fst r + snd r \<le> fst s \<or> fst s + snd s \<le> fst r"

lemma slice_apply_at_other:
  "off + m \<le> length b \<Longrightarrow> length (g (slice off m b)) = m \<Longrightarrow> a + n \<le> length b \<Longrightarrow>
     apart (a, n) (off, m) \<Longrightarrow> slice a n (apply_at g off m b) = slice a n b"
  by (auto simp: apply_at_def apart_def intro: slice_splice_other)

lemma fold_apply_at:
  assumes "\<And>x. x \<in> set xs \<Longrightarrow> off x + len x \<le> length bs"
    and "\<And>x b. x \<in> set xs \<Longrightarrow> length b = len x \<Longrightarrow> length (g x b) = len x"
    and "sorted_wrt (\<lambda>x y. apart (off x, len x) (off y, len y)) xs"
  defines "res \<equiv> fold (\<lambda>x. apply_at (g x) (off x) (len x)) xs bs"
  shows "length res = length bs
    \<and> (\<forall>x\<in>set xs. slice (off x) (len x) res = g x (slice (off x) (len x) bs))
    \<and> (\<forall>a n. a + n \<le> length bs \<longrightarrow> (\<forall>x\<in>set xs. apart (a, n) (off x, len x)) \<longrightarrow>
         slice a n res = slice a n bs)"
  using assms(1-3) unfolding res_def
proof (induction xs arbitrary: bs)
  case Nil
  then show ?case by simp
next
  case (Cons x xs)
  let ?b = "apply_at (g x) (off x) (len x) bs"
  have x: "off x + len x \<le> length bs" "length (g x (slice (off x) (len x) bs)) = len x"
    using Cons.prems(1,2) [of x] by simp_all
  then have len: "length ?b = length bs" by (simp add: apply_at_def)
  have IH: "length (fold (\<lambda>x. apply_at (g x) (off x) (len x)) xs ?b) = length ?b
    \<and> (\<forall>y\<in>set xs. slice (off y) (len y) (fold (\<lambda>x. apply_at (g x) (off x) (len x)) xs ?b)
         = g y (slice (off y) (len y) ?b))
    \<and> (\<forall>a n. a + n \<le> length ?b \<longrightarrow> (\<forall>y\<in>set xs. apart (a, n) (off y, len y)) \<longrightarrow>
         slice a n (fold (\<lambda>x. apply_at (g x) (off x) (len x)) xs ?b) = slice a n ?b)"
    using Cons.prems by (intro Cons.IH) (simp_all add: len)
  have other: "slice a n ?b = slice a n bs"
    if "a + n \<le> length bs" "apart (a, n) (off x, len x)" for a n
    using that x by (intro slice_apply_at_other) simp_all
  have same: "slice (off x) (len x) ?b = g x (slice (off x) (len x) bs)"
    using x by (simp add: apply_at_def slice_splice_same)
  have "slice (off y) (len y) ?b = slice (off y) (len y) bs" if "y \<in> set xs" for y
    using that Cons.prems by (intro other) (auto simp: apart_def)
  moreover have "\<forall>y\<in>set xs. apart (off x, len x) (off y, len y)"
    using Cons.prems(3) by simp
  ultimately show ?case
    using IH len same other x(1) by (auto simp del: fold_simps simp: fold_Cons)
qed

lemmas fold_apply_at_length = fold_apply_at [THEN conjunct1]
lemmas fold_apply_at_slice = fold_apply_at [THEN conjunct2, THEN conjunct1]

section \<open>Layouts\<close>

text \<open>
  A type as \<open>portable_swap\<close> tells it apart: a fundamental or enumeration type of \<open>n\<close> bytes; a
  \<open>StaticVector\<close> (element type, capacity, offset of \<open>size_\<close>, size of the object); a \<open>StaticString\<close>
  (capacity, offset of \<open>size_\<close>, size); a type with \<open>SINEW_REFLECT\<close> (size, offsets and types of
  the listed fields); and the two kinds no branch applies to, a C array and any other class.
\<close>

datatype layout =
    Scalar nat
  | Vec layout nat nat nat
  | Str nat nat nat
  | Reflected nat "(nat \<times> layout) list"
  | CArray layout nat
  | Plain nat

fun lsizeof :: "layout \<Rightarrow> nat" where
  "lsizeof (Scalar n) = n"
| "lsizeof (Vec f cap off n) = n"
| "lsizeof (Str cap off n) = n"
| "lsizeof (Reflected n fs) = n"
| "lsizeof (CArray f n) = n * lsizeof f"
| "lsizeof (Plain n) = n"

text \<open>The \<open>uint32_t size_\<close> of a container, read on a host of byte order \<open>e\<close>.\<close>

definition size_field :: "endian \<Rightarrow> nat \<Rightarrow> bytes \<Rightarrow> u32" where
  "size_field e off bs = word_of_obj e (slice off 4 bs)"

fun portable_swap :: "endian \<Rightarrow> layout \<Rightarrow> bytes \<Rightarrow> bytes" where
  "portable_swap e (Reflected n fs) val =
     fold (\<lambda>field. apply_at (portable_swap e (snd field)) (fst field) (lsizeof (snd field))) fs val"
| "portable_swap e (Vec f cap off n) val =
     (let sz = size_field e off val;
          count = (if sz \<le> of_nat cap then unat sz else unat (of_nat cap :: u32));
          val = fold (\<lambda>i. apply_at (portable_swap e f) (i * lsizeof f) (lsizeof f)) [0..<count] val
      in apply_at (byte_swap e) off 4 val)"
| "portable_swap e (Str cap off n) val = apply_at (byte_swap e) off 4 val"
| "portable_swap e (Scalar n) val = (if n > 1 then byte_swap e val else val)"
| "portable_swap e (CArray f n) val = val"
| "portable_swap e (Plain n) val = val"

section \<open>Values\<close>

text \<open>
  What an object means, independently of the host: a scalar is its bytes from least to most
  significant, a vector its live elements, a string its characters.
\<close>

datatype val = VScalar bytes | VText bytes | VRaw bytes | VList "val list"

fun value_of :: "endian \<Rightarrow> layout \<Rightarrow> bytes \<Rightarrow> val" where
  "value_of e (Scalar n) bs = VScalar (if e = Little then bs else rev bs)"
| "value_of e (Vec f cap off n) bs =
     VList (map (\<lambda>i. value_of e f (slice (i * lsizeof f) (lsizeof f) bs)) [0..<unat (size_field e off bs)])"
| "value_of e (Str cap off n) bs = VText (slice 0 (unat (size_field e off bs)) bs)"
| "value_of e (Reflected n fs) bs =
     VList (map (\<lambda>field. value_of e (snd field) (slice (fst field) (lsizeof (snd field)) bs)) fs)"
| "value_of e (CArray f n) bs =
     VList (map (\<lambda>i. value_of e f (slice (i * lsizeof f) (lsizeof f) bs)) [0..<n])"
| "value_of e (Plain n) bs = VRaw bs"

text \<open>
  Layouts that \<open>portable_swap\<close> can convert: sub-objects lie inside the object and apart from each
  other, scalars have 1, 2, 4 or 8 bytes, C arrays have one-byte elements, and a vector has less
  than 65536 elements (its conversion reads the size before it has been converted).
\<close>

fun portable :: "layout \<Rightarrow> bool" where
  "portable (Scalar n) = (n \<in> {1, 2, 4, 8})"
| "portable (Vec f cap off n) =
     (portable f \<and> 0 < cap \<and> cap < 65536 \<and> cap * lsizeof f \<le> off \<and> off + 4 \<le> n)"
| "portable (Str cap off n) = (cap + 1 \<le> off \<and> off + 4 \<le> n)"
| "portable (Reflected n fs) =
     ((\<forall>field\<in>set fs. portable (snd field) \<and> fst field + lsizeof (snd field) \<le> n) \<and>
      sorted_wrt (\<lambda>x y. apart (fst x, lsizeof (snd x)) (fst y, lsizeof (snd y))) fs)"
| "portable (CArray f n) = (f = Scalar 1)"
| "portable (Plain n) = False"

text \<open>Every size field in use is at most the capacity.\<close>

fun sizes_ok :: "endian \<Rightarrow> layout \<Rightarrow> bytes \<Rightarrow> bool" where
  "sizes_ok e (Vec f cap off n) bs =
     (unat (size_field e off bs) \<le> cap \<and>
      (\<forall>i\<in>set [0..<unat (size_field e off bs)]. sizes_ok e f (slice (i * lsizeof f) (lsizeof f) bs)))"
| "sizes_ok e (Str cap off n) bs = (unat (size_field e off bs) \<le> cap)"
| "sizes_ok e (Reflected n fs) bs =
     (\<forall>field\<in>set fs. sizes_ok e (snd field) (slice (fst field) (lsizeof (snd field)) bs))"
| "sizes_ok e _ bs = True"

section \<open>Conversion keeps the value\<close>

fun other_endian :: "endian \<Rightarrow> endian" where
  "other_endian Little = Big"
| "other_endian Big = Little"

lemma other_other [simp]: "other_endian (other_endian e) = e"
  by (cases e) simp_all

lemma word_of_obj_rev [simp]: "word_of_obj (other_endian e) (rev bs) = word_of_obj e bs"
  by (cases e) (simp_all add: word_of_obj_def)

text \<open>Swapping the size field turns it into the same number of the other byte order.\<close>

lemma size_field_swapped:
  "off + 4 \<le> length bs \<Longrightarrow>
     size_field (other_endian e) off (apply_at (byte_swap e') off 4 bs) = size_field e off bs"
  by (simp add: size_field_def apply_at_def slice_splice_same byte_swap_eq)

text \<open>
  A size of at most 16 bits, read in the wrong byte order, is zero or has more than 16 bits: the
  clamp to the capacity then covers every live element.
\<close>

lemma high_half_zero: "unat w < 65536 \<Longrightarrow> ucast (drop_bit 16 w) = (0 :: u8) \<and> ucast (drop_bit 24 w) = (0 :: u8)"
  for w :: u32
proof -
  assume w: "unat w < 65536"
  have "take_bit 16 (unat w) = unat w" using w by (simp add: take_bit_nat_eq_self_iff)
  then have "bit (unat w) k \<longleftrightarrow> k < 16 \<and> bit (unat w) k" for k
    by (metis bit_take_bit_iff)
  then have "bit w k \<longleftrightarrow> k < 16 \<and> bit w k" for k by (simp only: bit_unsigned_iff) simp
  then have "\<not> bit w k" if "16 \<le> k" for k
    using that by (metis not_le)
  then show ?thesis by (auto intro!: bit_word_eqI simp: bit_ucast_iff bit_drop_bit_eq)
qed

lemma foreign_size_large:
  assumes "unat w < 65536" "unat (bswap32 w) < 65536"
  shows "w = 0"
proof -
  have "bytes_le 4 w = [ucast w, ucast (drop_bit 8 w), 0, 0]"
    using high_half_zero [OF assms(1)] by (simp add: bytes_le_4)
  moreover have "bytes_le 4 (bswap32 w) = [ucast (bswap32 w), ucast (drop_bit 8 (bswap32 w)), 0, 0]"
    using high_half_zero [OF assms(2)] by (simp add: bytes_le_4)
  moreover have "bytes_le 4 (bswap32 w) = rev (bytes_le 4 w)" by (rule swap32.swap_reverses)
  ultimately have "bytes_le 4 w = bytes_le 4 (0 :: u32)" by (simp add: bytes_le_4)
  then show ?thesis by (rule swap32.bytes_inj)
qed

definition swap_count :: "endian \<Rightarrow> nat \<Rightarrow> nat \<Rightarrow> bytes \<Rightarrow> nat" where
  "swap_count e cap off bs =
     (let sz = size_field e off bs in if sz \<le> of_nat cap then unat sz else unat (of_nat cap :: u32))"

lemma swap_count_le: "cap < 65536 \<Longrightarrow> swap_count e cap off bs \<le> cap"
  by (simp add: swap_count_def Let_def word_le_nat_alt unat_of_nat take_bit_nat_eq_self_iff)

lemma swap_count_covers:
  assumes "cap < 65536" "unat (size_field x off bs) \<le> cap" "off + 4 \<le> length bs"
  shows "unat (size_field x off bs) \<le> swap_count e cap off bs"
proof (cases "e = x")
  case True
  with assms show ?thesis
    by (simp add: swap_count_def Let_def word_le_nat_alt unat_of_nat take_bit_nat_eq_self_iff)
next
  case False
  let ?w = "size_field x off bs"
  have e: "e = other_endian x" using False by (cases e; cases x) simp_all
  have "size_field e off bs = word_of_obj e (rev (rev (slice off 4 bs)))" by (simp add: size_field_def)
  also have "\<dots> = word_of_obj x (rev (slice off 4 bs))" unfolding e by (rule word_of_obj_rev)
  also have "\<dots> = bswap32 ?w"
    using assms(3) unfolding size_field_def by (intro swap32.word_of_obj_swap) simp
  finally have swapped: "size_field e off bs = bswap32 ?w" .
  show ?thesis
  proof (cases "?w = 0")
    case False
    then have "65536 \<le> unat (bswap32 ?w)"
      using foreign_size_large [of ?w] assms by (metis le_less_trans not_le)
    with assms show ?thesis
      by (simp add: swap_count_def Let_def word_le_nat_alt unat_of_nat take_bit_nat_eq_self_iff swapped)
  qed simp
qed

lemma portable_swap_Vec:
  "portable_swap e (Vec f cap off n) bs =
     apply_at (byte_swap e) off 4
       (fold (\<lambda>i. apply_at (portable_swap e f) (i * lsizeof f) (lsizeof f)) [0..<swap_count e cap off bs] bs)"
  by (simp add: swap_count_def Let_def)

declare portable_swap.simps(2) [simp del]

text \<open>The elements of an array of \<open>k\<close> sub-objects of \<open>w\<close> bytes.\<close>

lemma elements_apart: "sorted_wrt (\<lambda>i j. apart (i * w, w) (j * w, w)) [0..<k]"
proof -
  have "i * w + w \<le> j * w" if "i < j" for i j
  proof -
    have "Suc i * w \<le> j * w" using that by (intro mult_le_mono1) simp
    then show ?thesis by simp
  qed
  then show ?thesis
    by (auto simp: sorted_wrt_iff_nth_less apart_def)
qed

lemma element_inside: "i < k \<Longrightarrow> k \<le> cap \<Longrightarrow> cap * w \<le> n \<Longrightarrow> i * w + w \<le> n" for i :: nat
proof -
  assume "i < k" "k \<le> cap" "cap * w \<le> n"
  then have "Suc i * w \<le> cap * w" by (intro mult_le_mono1) simp
  then show ?thesis using \<open>cap * w \<le> n\<close> by simp
qed

lemma length_apply_at [simp]:
  "off + n \<le> length bs \<Longrightarrow> length (g (slice off n bs)) = n \<Longrightarrow> length (apply_at g off n bs) = length bs"
  by (simp add: apply_at_def)

lemma length_portable_swap:
  "portable F \<Longrightarrow> length bs = lsizeof F \<Longrightarrow> length (portable_swap e F bs) = lsizeof F"
proof (induction F arbitrary: bs)
  case (Vec f cap off n)
  let ?k = "swap_count e cap off bs"
  have k: "?k \<le> cap" using Vec.prems by (simp add: swap_count_le)
  have "length (fold (\<lambda>i. apply_at (portable_swap e f) (i * lsizeof f) (lsizeof f)) [0..<?k] bs) = length bs"
    using Vec k by (intro fold_apply_at_length elements_apart)
      (auto intro: element_inside [where k = ?k and cap = cap])
  with Vec.prems show ?case by (simp add: portable_swap_Vec)
next
  case (Reflected n fs)
  then show ?case
    by (simp, intro trans [OF fold_apply_at_length]) (auto intro: snds.intros)
qed simp_all

lemma length_portable_swap_sub:
  "portable f \<Longrightarrow> off + lsizeof f \<le> length bs \<Longrightarrow>
     length (portable_swap e f (slice off (lsizeof f) bs)) = lsizeof f"
  by (simp add: length_portable_swap)

text \<open>What a converted vector and a converted reflected object hold.\<close>

lemma portable_swap_Vec_parts:
  fixes e bs f cap off n
  assumes "portable (Vec f cap off n)" "length bs = n"
  defines "res \<equiv> portable_swap e (Vec f cap off n) bs"
  shows "i < swap_count e cap off bs \<Longrightarrow> slice (i * lsizeof f) (lsizeof f) res =
      portable_swap e f (slice (i * lsizeof f) (lsizeof f) bs)"
    and "size_field (other_endian x) off res = size_field x off bs"
proof -
  let ?k = "swap_count e cap off bs" and ?w = "lsizeof f"
  let ?mid = "fold (\<lambda>i. apply_at (portable_swap e f) (i * ?w) ?w) [0..<?k] bs"
  have f: "portable f" and geo: "cap < 65536" "cap * ?w \<le> off" "off + 4 \<le> n"
    using assms(1) by simp_all
  have k: "?k \<le> cap" using geo by (simp add: swap_count_le)
  have inside: "i * ?w + ?w \<le> off" if "i < ?k" for i
    using that k geo(2) by (rule element_inside)
  have parts: "length ?mid = length bs
    \<and> (\<forall>i\<in>set [0..<?k]. slice (i * ?w) ?w ?mid = portable_swap e f (slice (i * ?w) ?w bs))
    \<and> (\<forall>a m. a + m \<le> length bs \<longrightarrow> (\<forall>i\<in>set [0..<?k]. apart (a, m) (i * ?w, ?w)) \<longrightarrow>
         slice a m ?mid = slice a m bs)"
    using f assms(2) geo inside
    by (intro fold_apply_at elements_apart) (fastforce simp: length_portable_swap)+
  have mid: "length ?mid = n" using parts assms(2) by simp
  have res: "res = apply_at (byte_swap e) off 4 ?mid" by (simp add: res_def portable_swap_Vec)
  show "slice (i * ?w) ?w res = portable_swap e f (slice (i * ?w) ?w bs)" if "i < ?k"
  proof -
    have "slice (i * ?w) ?w res = slice (i * ?w) ?w ?mid"
      unfolding res using inside [OF that] mid geo(3)
      by (intro slice_apply_at_other) (simp_all add: apart_def)
    with parts that show ?thesis by simp
  qed
  have "slice off 4 ?mid = slice off 4 bs"
    using parts assms(2) geo(3) inside by (auto simp: apart_def)
  then have "size_field x off ?mid = size_field x off bs" by (simp add: size_field_def)
  then show "size_field (other_endian x) off res = size_field x off bs"
    using size_field_swapped [of off ?mid x e] mid geo(3) unfolding res by simp
qed

lemma portable_swap_Reflected_parts:
  assumes "portable (Reflected n fs)" "length bs = n" "field \<in> set fs"
  shows "slice (fst field) (lsizeof (snd field)) (portable_swap e (Reflected n fs) bs) =
    portable_swap e (snd field) (slice (fst field) (lsizeof (snd field)) bs)"
proof -
  let ?g = "\<lambda>field. portable_swap e (snd field)" and ?len = "\<lambda>field :: nat \<times> layout. lsizeof (snd field)"
  have "\<forall>x\<in>set fs. slice (fst x) (?len x) (fold (\<lambda>x. apply_at (?g x) (fst x) (?len x)) fs bs) =
      ?g x (slice (fst x) (?len x) bs)"
    using assms(1,2)
    by (intro fold_apply_at_slice) (auto simp: length_portable_swap)
  with assms(3) show ?thesis by simp
qed

lemma portable_swap_Vec_value:
  assumes "portable (Vec f cap off n)" "length bs = n" "sizes_ok x (Vec f cap off n) bs"
    and each: "\<And>bs. length bs = lsizeof f \<Longrightarrow> sizes_ok x f bs \<Longrightarrow>
      value_of (other_endian x) f (portable_swap e f bs) = value_of x f bs
      \<and> sizes_ok (other_endian x) f (portable_swap e f bs)"
  defines "res \<equiv> portable_swap e (Vec f cap off n) bs"
  shows "value_of (other_endian x) (Vec f cap off n) res = value_of x (Vec f cap off n) bs
    \<and> sizes_ok (other_endian x) (Vec f cap off n) res"
proof -
  let ?k = "unat (size_field x off bs)" and ?w = "lsizeof f"
  have geo: "cap * ?w \<le> off" "off + 4 \<le> n" "cap < 65536" and k: "?k \<le> cap"
    using assms(1,3) by simp_all
  have covers: "?k \<le> swap_count e cap off bs"
    using k geo assms(2) by (intro swap_count_covers) simp_all
  note parts = portable_swap_Vec_parts [OF assms(1,2), of _ e, folded res_def]
  have elem: "value_of (other_endian x) f (slice (i * ?w) ?w res) = value_of x f (slice (i * ?w) ?w bs)
      \<and> sizes_ok (other_endian x) f (slice (i * ?w) ?w res)" if "i < ?k" for i
  proof -
    have "i * ?w + ?w \<le> off" using that k geo(1) by (rule element_inside)
    then have "length (slice (i * ?w) ?w bs) = ?w" using assms(2) geo(2) by simp
    moreover have "sizes_ok x f (slice (i * ?w) ?w bs)" using assms(3) that by simp
    ultimately show ?thesis using each parts(1) [of i] that covers by simp
  qed
  have size: "size_field (other_endian x) off res = size_field x off bs"
    unfolding res_def by (rule portable_swap_Vec_parts [OF assms(1,2)])
  show ?thesis using elem k by (simp add: size)
qed

lemma portable_swap_value:
  "portable F \<Longrightarrow> length bs = lsizeof F \<Longrightarrow> sizes_ok x F bs \<Longrightarrow>
     value_of (other_endian x) F (portable_swap e F bs) = value_of x F bs
     \<and> sizes_ok (other_endian x) F (portable_swap e F bs)"
proof (induction F arbitrary: bs)
  case (Scalar n)
  then show ?case
    by (cases x) (auto simp: byte_swap_eq length_Suc_conv)
next
  case (Vec f cap off n)
  then show ?case by (intro portable_swap_Vec_value) simp_all
next
  case (Str cap off n)
  then have "size_field (other_endian x) off (portable_swap e (Str cap off n) bs) = size_field x off bs"
    by (simp add: size_field_swapped)
  moreover from Str have "unat (size_field x off bs) \<le> cap" by simp
  moreover from this Str have "slice 0 (unat (size_field x off bs)) (portable_swap e (Str cap off n) bs) =
      slice 0 (unat (size_field x off bs)) bs"
    by (simp, intro slice_apply_at_other) (simp_all add: apart_def)
  ultimately show ?case by simp
next
  case (Reflected n fs)
  let ?res = "portable_swap e (Reflected n fs) bs"
  have len: "length bs = n" using Reflected.prems by simp
  have "value_of (other_endian x) (snd field) (slice (fst field) (lsizeof (snd field)) ?res) =
        value_of x (snd field) (slice (fst field) (lsizeof (snd field)) bs)
      \<and> sizes_ok (other_endian x) (snd field) (slice (fst field) (lsizeof (snd field)) ?res)"
    if "field \<in> set fs" for field
    using Reflected.IH [OF that snds.intros, of "slice (fst field) (lsizeof (snd field)) bs"]
      portable_swap_Reflected_parts [OF Reflected.prems(1) len that, of e] Reflected.prems that
    by simp
  then show ?case by (simp del: portable_swap.simps)
next
  case (CArray f n)
  then show ?case by (auto simp: slice_nth intro!: map_cong)
next
  case (Plain n)
  then show ?case by simp
qed

end
