(* ===== verification/Portable.thy ===== *)
theory Portable
  imports Reflect Wire
begin

text \<open>
  Model of \<open>portable_encode\<close> and \<open>portable_decode\<close> of \<open>include/sinew/portable.hpp\<close>, on a host of byte
  order \<open>e\<close>, for a message type \<open>T\<close> whose fields are laid out as \<open>F\<close> says.
\<close>

section \<open>Encoding and decoding\<close>

definition portable_encode ::
  "endian \<Rightarrow> msgtype \<Rightarrow> layout \<Rightarrow> mem \<Rightarrow> ptr \<Rightarrow> nat \<Rightarrow> bytes \<Rightarrow> bool \<Rightarrow> nat \<times> mem" where
  "portable_encode e T F m dest dest_capacity source compute_crc =
     (if dest = nullptr \<or> dest_capacity < sizeof_Header + mt_sizeof T then (0, m)
      else
        let m = store_u32 e m dest (to_little_endian32 e SINEW_MAGIC);
            m = store_u16 e m (dest + 4) (to_little_endian16 e (mt_id T));
            m = store_u16 e m (dest + 6) (to_little_endian16 e (mt_version T));
            m = store_u32 e m (dest + 12) (to_little_endian32 e (of_nat (mt_sizeof T)));
            payload_dest = dest + sizeof_Header;
            m = write_bytes m payload_dest source;
            m = (if e = Big
                 then write_bytes m payload_dest
                   (portable_swap e F (read_bytes m payload_dest (mt_sizeof T)))
                 else m);
            m = (if compute_crc
                 then store_u32 e m (dest + 8)
                   (to_little_endian32 e (crc32 m payload_dest (mt_sizeof T) 0xFFFFFFFF))
                 else store_u32 e m (dest + 8) 0)
        in (sizeof_Header + mt_sizeof T, m))"

text \<open>The destination object is an in-out argument.\<close>

definition portable_decode ::
  "endian \<Rightarrow> msgtype \<Rightarrow> layout \<Rightarrow> mem \<Rightarrow> ptr \<Rightarrow> nat \<Rightarrow> bytes \<Rightarrow> bool \<Rightarrow> ErrorCode \<times> bytes" where
  "portable_decode e T F m src src_len dest verify_crc =
     (if src = nullptr \<or> src_len < sizeof_Header + mt_sizeof T then (BufferTooSmall, dest)
      else
        let hdr = load_header e m src in
        if from_little_endian32 e (h_magic hdr) \<noteq> SINEW_MAGIC then (BadMagic, dest)
        else if from_little_endian16 e (h_msg_id hdr) \<noteq> mt_id T then (IdMismatch, dest)
        else if from_little_endian16 e (h_version hdr) \<noteq> mt_version T then (VersionMismatch, dest)
        else if unat (from_little_endian32 e (h_payload_len hdr)) \<noteq> mt_sizeof T
          then (BufferTooSmall, dest)
        else
          let payload_src = src + sizeof_Header in
          if verify_crc \<and> h_crc hdr \<noteq> 0 \<and>
             crc32 m payload_src (mt_sizeof T) 0xFFFFFFFF \<noteq> from_little_endian32 e (h_crc hdr)
            then (ChecksumMismatch, dest)
          else
            let dest = read_bytes m payload_src (mt_sizeof T) in
            (Ok, if e = Big then portable_swap e F dest else dest))"

section \<open>The wire bytes\<close>

lemma store_to_little_endian:
  "store_u16 e m a (to_little_endian16 e w16) = store_u16 Little m a w16"
  "store_u32 e m a (to_little_endian32 e w32) = store_u32 Little m a w32"
  by (simp_all add: store_defs) (simp_all add: obj_of_word_def)

lemma load_from_little_endian:
  "from_little_endian16 e (load_u16 e m a) = load_u16 Little m a"
  "from_little_endian32 e (load_u32 e m a) = load_u32 Little m a"
  by (simp_all add: load_defs) (simp_all add: word_of_obj_def)

lemma little_endian_zero: "to_little_endian32 e 0 = 0"
  by (simp add: to_little_endian32_def bswap32_def)

lemma load_zero: "load_u32 e m a = 0 \<longleftrightarrow> load_u32 Little m a = 0"
proof -
  have "from_little_endian32 e x = 0 \<longleftrightarrow> x = 0" for x
    using little_endian_zero [of e]
    by (metis from_little_endian32_def from_to_little_endian(2))
  then show ?thesis by (metis load_from_little_endian(2))
qed

definition to_wire :: "endian \<Rightarrow> layout \<Rightarrow> bytes \<Rightarrow> bytes" where
  "to_wire e F v = (if e = Big then portable_swap e F v else v)"

lemma length_to_wire [simp]: "portable F \<Longrightarrow> length v = lsizeof F \<Longrightarrow> length (to_wire e F v) = lsizeof F"
  by (simp add: to_wire_def length_portable_swap)

text \<open>Converting between host and wire keeps the value and the validity of the sizes.\<close>

lemma to_wire_value:
  assumes "portable F" "length v = lsizeof F" "sizes_ok e F v"
  shows "value_of Little F (to_wire e F v) = value_of e F v" "sizes_ok Little F (to_wire e F v)"
  using assms portable_swap_value [of F v e e] by (cases e, simp_all add: to_wire_def)+

lemma from_wire_value:
  assumes "portable F" "length w = lsizeof F" "sizes_ok Little F w"
  shows "value_of e F (to_wire e F w) = value_of Little F w"
  using assms portable_swap_value [of F w Little e] by (cases e) (simp_all add: to_wire_def)

text \<open>A packet in wire order: the header stamped by a little-endian host, a payload, a checksum.\<close>

definition wire_packet :: "msgtype \<Rightarrow> mem \<Rightarrow> ptr \<Rightarrow> bytes \<Rightarrow> bool \<Rightarrow> mem" where
  "wire_packet T m p w c =
     (let m = store_u32 Little m p SINEW_MAGIC;
          m = store_u16 Little m (p + 4) (mt_id T);
          m = store_u16 Little m (p + 6) (mt_version T);
          m = store_u32 Little m (p + 12) (of_nat (mt_sizeof T));
          m = write_bytes m (p + 16) w
      in store_u32 Little m (p + 8) (if c then crc32_of w else 0))"

lemma portable_encode_eq:
  assumes "length (to_wire e F source) = mt_sizeof T" "length source = mt_sizeof T"
    and "dest \<noteq> nullptr" "message_size T \<le> cap"
  shows "portable_encode e T F m dest cap source c =
    (message_size T, wire_packet T m dest (to_wire e F source) c)"
proof -
  note len = assms(1)
  have "write_bytes (write_bytes m' a source) a (to_wire e F source) = write_bytes m' a (to_wire e F source)"
    for m' a using assms(1,2) by (intro write_bytes_over) simp
  then have payload: "(if e = Big then write_bytes (write_bytes m' a source) a
      (portable_swap e F (read_bytes (write_bytes m' a source) a (mt_sizeof T)))
      else write_bytes m' a source) = write_bytes m' a (to_wire e F source)" for m' a
    using assms(2) by (cases e) (simp_all add: to_wire_def)
  have zero: "store_u32 e m' a 0 = store_u32 Little m' a 0" for m' a
    using store_to_little_endian(2) [of e m' a 0] by (simp add: little_endian_zero)
  have crc: "crc32 (write_bytes m' (dest + 16) (to_wire e F source)) (dest + 16) (mt_sizeof T) 0xFFFFFFFF =
      crc32_of (to_wire e F source)" for m'
    using len by (simp add: crc32_default)
  show ?thesis
    using assms(3,4)
    by (simp add: portable_encode_def Let_def payload crc zero store_to_little_endian wire_packet_def
        message_size_eq sizeof_Header_def)
qed

lemma wire_packet_loads:
  "load_u32 Little (wire_packet T m p w c) p = SINEW_MAGIC"
  "load_u16 Little (wire_packet T m p w c) (p + 4) = mt_id T"
  "load_u16 Little (wire_packet T m p w c) (p + 6) = mt_version T"
  "load_u32 Little (wire_packet T m p w c) (p + 8) = (if c then crc32_of w else 0)"
  "load_u32 Little (wire_packet T m p w c) (p + 12) = of_nat (mt_sizeof T)"
  by (simp_all add: wire_packet_def Let_def mem_simps)

lemma wire_packet_payload: "length w = n \<Longrightarrow> read_bytes (wire_packet T m p w c) (p + 16) n = w"
  by (simp add: wire_packet_def Let_def mem_simps)

lemma wire_packet_frame:
  "length w = mt_sizeof T \<Longrightarrow> same_outside p (message_size T) m (wire_packet T m p w c)"
  by (auto simp: wire_packet_def Let_def message_size_eq intro!: same_outside_store same_outside_writeI)

text \<open>What \<open>portable_decode\<close> checks, read off the wire: no byte order occurs in it.\<close>

definition wire_check :: "msgtype \<Rightarrow> mem \<Rightarrow> ptr \<Rightarrow> nat \<Rightarrow> bool \<Rightarrow> ErrorCode" where
  "wire_check T m p len verify_crc =
     (if p = nullptr \<or> len < message_size T then BufferTooSmall
      else if load_u32 Little m p \<noteq> SINEW_MAGIC then BadMagic
      else if load_u16 Little m (p + 4) \<noteq> mt_id T then IdMismatch
      else if load_u16 Little m (p + 6) \<noteq> mt_version T then VersionMismatch
      else if unat (load_u32 Little m (p + 12)) \<noteq> mt_sizeof T then BufferTooSmall
      else if verify_crc \<and> load_u32 Little m (p + 8) \<noteq> 0 \<and>
          crc32_of (read_bytes m (p + 16) (mt_sizeof T)) \<noteq> load_u32 Little m (p + 8)
        then ChecksumMismatch
      else Ok)"

lemma portable_decode_eq:
  "portable_decode e T F m p len dest c =
     (wire_check T m p len c,
      if wire_check T m p len c = Ok then to_wire e F (read_bytes m (p + 16) (mt_sizeof T)) else dest)"
  by (simp add: portable_decode_def wire_check_def Let_def load_from_little_endian load_zero [of e]
      crc32_default message_size_eq sizeof_Header_def to_wire_def)

lemma wire_check_packet:
  assumes "is_valid_message T" "p \<noteq> nullptr" "length w = mt_sizeof T" "message_size T \<le> len"
  shows "wire_check T (wire_packet T m p w c) p len vc = Ok"
  using assms
  by (simp add: wire_check_def wire_packet_loads wire_packet_payload valid_size_u32)

section \<open>Properties of the portable codec\<close>

text \<open>
  The layouts of \<open>ComplexTelemetry\<close> (\<open>tests/test_portable.cpp\<close>) and of \<open>McuImuSample\<close>
  (\<open>examples/mcu_freestanding.cpp\<close>), and their registrations.
\<close>

definition telemetry_layout :: layout where
  "telemetry_layout = Reflected 48 [(0, Scalar 4), (4, Str 16 20 24), (28, Vec (Scalar 4) 4 16 20)]"

definition telemetry :: msgtype where
  "telemetry = register_message ''ComplexTelemetry'' 202 1 48 4 id"

definition imu_layout :: layout where
  "imu_layout = Reflected 24
     [(0, Scalar 4), (4, CArray (Scalar 2) 3), (10, CArray (Scalar 2) 3), (16, CArray (Scalar 2) 3),
      (22, Scalar 2)]"

definition imu_sample :: msgtype where
  "imu_sample = register_message ''McuImuSample'' 0x10 1 24 4 id"

lemma portable_telemetry: "portable telemetry_layout"
  by (simp add: telemetry_layout_def apart_def)

lemma telemetry_type: "is_valid_message telemetry" "mt_sizeof telemetry = lsizeof telemetry_layout"
  by (simp_all add: telemetry_def telemetry_layout_def register_message_def is_valid_message_def)

text \<open>A sample with \<open>seq = 42\<close>, \<open>device_id = "ab"\<close> and one voltage, as a big-endian host holds it.\<close>

definition telemetry_sample :: bytes where
  "telemetry_sample = [0, 0, 0, 42] @ [0x61, 0x62] @ replicate 18 0 @ [0, 0, 0, 2]
     @ [0x40, 0x53, 0x33, 0x34] @ replicate 12 7 @ [0, 0, 0, 1]"

lemma telemetry_sample:
  "length telemetry_sample = 48" "sizes_ok Big telemetry_layout telemetry_sample"
  "value_of Big telemetry_layout telemetry_sample =
     VList [VScalar [42, 0, 0, 0], VText [0x61, 0x62], VList [VScalar [0x34, 0x33, 0x53, 0x40]]]"
  by code_simp+

text \<open>
  C8. Portability of the types the codec converts completely, those with a \<open>portable\<close> layout: every
  struct in them lists its members in \<open>SINEW_REFLECT\<close>, C arrays are of bytes, vectors have fewer than
  65536 elements. A message of such a type whose size fields are within their capacities, encoded on a
  host of either byte order and decoded on a host of either byte order, arrives with the same value,
  field by field: every scalar, the text of every string and the live elements of every vector.
  (Types with C arrays of longer elements, \<open>array_fields_not_converted\<close>, are not among them.)
\<close>

theorem portable_round_trip:
  assumes "is_valid_message T" "mt_sizeof T = lsizeof F" "portable F"
    and "length source = mt_sizeof T" "sizes_ok host F source" "p \<noteq> nullptr" "message_size T \<le> cap"
    and enc: "portable_encode host T F m p cap source compute_crc = (n, m')"
    and dec: "portable_decode peer T F m' p n old verify_crc = (err, dest)"
  shows "n = message_size T \<and> err = Ok \<and> value_of peer F dest = value_of host F source
    \<and> same_outside p n m m'"
proof -
  let ?w = "to_wire host F source"
  have w: "length ?w = mt_sizeof T" using assms(2-4) by simp
  have n: "n = message_size T" and m': "m' = wire_packet T m p ?w compute_crc"
    using enc portable_encode_eq [OF w assms(4,6,7)] by simp_all
  have "wire_check T m' p n verify_crc = Ok"
    unfolding m' n using assms(1,6) w by (intro wire_check_packet) simp_all
  then have "err = Ok" and dest: "dest = to_wire peer F ?w"
    using dec w by (simp_all add: portable_decode_eq m' wire_packet_payload)
  moreover have "value_of peer F dest = value_of host F source"
    unfolding dest using assms(2-5) w to_wire_value [of F source host]
    by (simp add: from_wire_value)
  ultimately show ?thesis
    using wire_packet_frame [OF w] by (simp add: n m')
qed

theorem portable_round_trip_witness:
  "\<exists>n m' dest. portable_encode Big telemetry telemetry_layout dirty 64 64 telemetry_sample True = (n, m')
     \<and> portable_decode Little telemetry telemetry_layout m' 64 n [] True = (Ok, dest)
     \<and> value_of Little telemetry_layout dest =
       VList [VScalar [42, 0, 0, 0], VText [0x61, 0x62], VList [VScalar [0x34, 0x33, 0x53, 0x40]]]"
proof -
  obtain n m' where enc:
    "portable_encode Big telemetry telemetry_layout dirty 64 64 telemetry_sample True = (n, m')"
    by (meson surj_pair)
  obtain err dest where dec: "portable_decode Little telemetry telemetry_layout m' 64 n [] True = (err, dest)"
    by (meson surj_pair)
  have "mt_sizeof telemetry = 48" "message_size telemetry = 64"
    by (simp_all add: telemetry_def register_message_def message_size_eq)
  with portable_round_trip [OF telemetry_type portable_telemetry _ _ _ _ enc dec] telemetry_sample
  have "err = Ok" "value_of Little telemetry_layout dest = value_of Big telemetry_layout telemetry_sample"
    by (simp_all add: nullptr_def)
  with enc dec telemetry_sample(3) show ?thesis by auto
qed

text \<open>
  C28. Host independence of decoding: whatever bytes a buffer holds, hosts of both byte orders come to
  the same verdict on it, and a buffer that is refused leaves the destination untouched.
\<close>

theorem portable_decode_verdict:
  "fst (portable_decode Little T F m p len dest verify_crc) =
     fst (portable_decode Big T F' m p len dest' verify_crc)
   \<and> (fst (portable_decode e T F m p len dest verify_crc) = Ok
      \<or> snd (portable_decode e T F m p len dest verify_crc) = dest)"
  by (simp add: portable_decode_eq)

text \<open>
  Interoperation with the zero-copy format: a packet written by \<open>portable_encode\<close> on any host
  is a valid packet of the wire format for a little-endian host, which views the payload in
  place with the value that was encoded; a big-endian host's \<open>validate\<close> rejects it.
\<close>

theorem portable_packet_viewable:
  assumes "fits T p" "mt_sizeof T = lsizeof F" "portable F"
    and "length source = mt_sizeof T" "sizes_ok host F source" "message_size T \<le> cap"
    and enc: "portable_encode host T F m p cap source compute_crc = (n, m')"
  shows "view Little T m' p n verify_crc = p + 16
    \<and> value_of Little F (read_bytes m' (p + 16) (mt_sizeof T)) = value_of host F source
    \<and> validate Big T m' p n verify_crc = BadMagic"
proof (intro conjI)
  let ?w = "to_wire host F source"
  have valid: "is_valid_message T" "p \<noteq> nullptr" using assms(1) by (simp_all add: fits_def)
  have w: "length ?w = mt_sizeof T" using assms(2-4) by simp
  have n: "n = message_size T" and m': "m' = wire_packet T m p ?w compute_crc"
    using enc portable_encode_eq [OF w assms(4) valid(2) assms(6)] by simp_all
  have "stamped Little T m' p"
    using valid by (simp add: m' stamped_def wire_packet_loads valid_size_u32)
  then have "validate Little T m' p n verify_crc = Ok"
    using assms(1) w by (simp add: validate_stamped n) (simp add: m' wire_packet_loads wire_packet_payload)
  then show "view Little T m' p n verify_crc = p + 16" by simp
  show "value_of Little F (read_bytes m' (p + 16) (mt_sizeof T)) = value_of host F source"
    using w to_wire_value [OF assms(3)] assms(2,4,5) by (simp add: m' wire_packet_payload)
  have "load_u32 Big m' p = bswap32 SINEW_MAGIC"
    using wire_packet_loads(1) [of T m p ?w compute_crc]
      swap32.word_of_obj_swap [of "rev (read_bytes m' p 4)" Big]
    by (simp add: m' load_u32_def word_of_obj_def)
  then have "load_u32 Big m' p \<noteq> SINEW_MAGIC"
    by (simp add: bswap32_def SINEW_MAGIC_def)
  then show "validate Big T m' p n verify_crc = BadMagic"
    using assms(1) by (simp add: n validate_def fits_def message_size_def sizeof_Header_def
        mod_eq_0_iff_dvd Let_def)
qed

theorem portable_packet_viewable_witness:
  "\<exists>n m'. portable_encode Big telemetry telemetry_layout dirty 64 64 telemetry_sample True = (n, m')
     \<and> view Little telemetry m' 64 n True = 80 \<and> validate Big telemetry m' 64 n True = BadMagic"
proof -
  obtain n m' where enc:
    "portable_encode Big telemetry telemetry_layout dirty 64 64 telemetry_sample True = (n, m')"
    by (meson surj_pair)
  have size: "mt_sizeof telemetry = 48" "message_size telemetry = 64"
    by (simp_all add: telemetry_def register_message_def message_size_eq)
  have fits: "fits telemetry 64"
    using telemetry_type(1) by (simp add: fits_def nullptr_def telemetry_def register_message_def)
  from portable_packet_viewable [OF fits telemetry_type(2) portable_telemetry _ _ _ enc, of True]
    telemetry_sample enc show ?thesis by (auto simp: size)
qed

text \<open>
  C40. A C array is a field that \<open>portable_swap\<close> has no branch for, so it is sent in the byte order of
  the host: the three accelerometer readings of the \<open>McuImuSample\<close> example, encoded on a
  big-endian host, arrive byte-swapped on a little-endian one, without an error.
\<close>

theorem array_fields_not_converted:
  assumes "length source = 24" "i < 3" "p \<noteq> nullptr" "40 \<le> cap"
    and enc: "portable_encode Big imu_sample imu_layout m p cap source True = (n, m')"
    and dec: "portable_decode Little imu_sample imu_layout m' p n old True = (err, dest)"
  shows "err = Ok \<and> (word_of_obj Little (slice (4 + 2 * i) 2 dest) :: u16) =
    bswap16 (word_of_obj Big (slice (4 + 2 * i) 2 source))"
proof -
  have size: "mt_sizeof imu_sample = 24" "message_size imu_sample = 40" "is_valid_message imu_sample"
    by (simp_all add: imu_sample_def register_message_def message_size_eq is_valid_message_def)
  let ?w = "to_wire Big imu_layout source"
  let ?fs = "[(0, Scalar 4), (4, CArray (Scalar 2) 3), (10, CArray (Scalar 2) 3),
      (16, CArray (Scalar 2) 3), (22, Scalar 2)]"
  have w: "length ?w = mt_sizeof imu_sample"
    unfolding size to_wire_def imu_layout_def portable_swap.simps if_P [OF refl] assms(1) [symmetric]
    by (rule fold_apply_at_length) (use assms(1) in \<open>auto simp: apart_def\<close>)
  have "\<forall>x\<in>set ?fs. slice (fst x) (lsizeof (snd x)) ?w =
      portable_swap Big (snd x) (slice (fst x) (lsizeof (snd x)) source)"
    unfolding to_wire_def imu_layout_def portable_swap.simps if_P [OF refl]
    by (rule fold_apply_at_slice) (use assms(1) in \<open>auto simp: apart_def\<close>)
  then have acc: "slice 4 6 ?w = slice 4 6 source" by simp
  have m': "n = 40" "m' = wire_packet imu_sample m p ?w True"
    using enc portable_encode_eq [OF w _ assms(3)] assms(1,4) size by simp_all
  then have "err = Ok" "dest = ?w"
    using dec wire_check_packet [OF size(3) assms(3) w] size w
    by (simp_all add: portable_decode_eq wire_packet_payload to_wire_def [of Little])
  moreover have "slice (4 + 2 * i) 2 b = slice (2 * i) 2 (slice 4 6 b)" for b
    using assms(2) by (simp add: slice_slice)
  moreover have "length (slice (2 * i) 2 (slice 4 6 source)) = 2"
    using assms(1,2) by simp
  ultimately show ?thesis
    using swap16.word_of_obj_swap [of "slice (2 * i) 2 (slice 4 6 source)" Big] acc
    by (simp add: word_of_obj_def)
qed

theorem array_fields_not_converted_witness:
  "\<exists>n m' dest. portable_encode Big imu_sample imu_layout dirty 64 40 ([0, 0, 0, 9, 1, 2] @ replicate 18 0) True
       = (n, m')
     \<and> portable_decode Little imu_sample imu_layout m' 64 n [] True = (Ok, dest)
     \<and> (word_of_obj Big [1, 2] :: u16) = 0x0102 \<and> (word_of_obj Little (slice 4 2 dest) :: u16) = 0x0201"
proof -
  let ?src = "[0, 0, 0, 9, 1, 2] @ replicate 18 0 :: bytes"
  obtain n m' where enc: "portable_encode Big imu_sample imu_layout dirty 64 40 ?src True = (n, m')"
    by (meson surj_pair)
  obtain err dest where dec: "portable_decode Little imu_sample imu_layout m' 64 n [] True = (err, dest)"
    by (meson surj_pair)
  have "slice 4 2 ?src = [1, 2]" "(word_of_obj Big [1, 2] :: u16) = 0x0102" "bswap16 0x0102 = 0x0201"
    by code_simp+
  with array_fields_not_converted [OF _ _ _ _ enc dec, of 0] enc dec
  show ?thesis by (auto simp: nullptr_def)
qed

text \<open>
  The size of a vector is read before it is converted, so the clamp to the capacity covers all
  live elements only below 65536 of them: of a full vector of 65536 two-byte elements that a
  big-endian host decodes, exactly the first 256 are converted.
\<close>

theorem large_vector_half_converted:
  assumes "length w = 131076" "size_field Little 131072 w = 65536" "i < 65536"
  defines "res \<equiv> portable_swap Big (Vec (Scalar 2) 65536 131072 131076) w"
  shows "unat (size_field Big 131072 res) = 65536
    \<and> slice (i * 2) 2 res = (if i < 256 then rev (slice (i * 2) 2 w) else slice (i * 2) 2 w)"
proof -
  let ?mid = "fold (\<lambda>i. apply_at (portable_swap Big (Scalar 2)) (i * 2) 2) [0..<256] w"
  have "size_field Big 131072 w = bswap32 65536"
    using swap32.word_of_obj_swap [of "rev (slice 131072 4 w)" Big] assms(1,2)
    by (simp add: size_field_def word_of_obj_def)
  then have "swap_count Big 65536 131072 w = 256"
    by (simp add: swap_count_def bswap32_def)
  then have res: "res = apply_at (byte_swap Big) 131072 4 ?mid"
    by (simp add: res_def portable_swap_Vec del: portable_swap.simps)
  have parts: "length ?mid = length w
    \<and> (\<forall>i\<in>set [0..<256]. slice (i * 2) 2 ?mid = portable_swap Big (Scalar 2) (slice (i * 2) 2 w))
    \<and> (\<forall>a n. a + n \<le> length w \<longrightarrow> (\<forall>i\<in>set [0..<256]. apart (a, n) (i * 2, 2)) \<longrightarrow>
         slice a n ?mid = slice a n w)"
    using assms(1) by (intro fold_apply_at elements_apart) auto
  then have len: "length ?mid = 131076" using assms(1) by simp
  have "slice 131072 4 ?mid = slice 131072 4 w"
    using parts assms(1) by (auto simp: apart_def)
  then have "size_field Little 131072 ?mid = 65536" using assms(2) by (simp add: size_field_def)
  then have "size_field Big 131072 res = 65536"
    using size_field_swapped [of 131072 ?mid Little Big] len by (simp add: res)
  moreover have "slice (i * 2) 2 res = slice (i * 2) 2 ?mid"
    using len assms(3) unfolding res by (intro slice_apply_at_other) (simp_all add: apart_def)
  moreover have "slice (i * 2) 2 ?mid = (if i < 256 then rev (slice (i * 2) 2 w) else slice (i * 2) 2 w)"
    using parts assms(1,3) by (auto simp: byte_swap_eq apart_def)
  ultimately show ?thesis by simp
qed

theorem large_vector_half_converted_witness:
  "slice (300 * 2) 2 (portable_swap Big (Vec (Scalar 2) 65536 131072 131076)
     (replicate 131072 5 @ [0, 0, 1, 0])) = [5, 5]"
proof -
  let ?w = "replicate 131072 5 @ [0, 0, 1, 0] :: bytes"
  have "slice 131072 4 ?w = [0, 0, 1, 0]" by (simp add: slice_def)
  then have "size_field Little 131072 ?w = 65536"
    by (simp add: size_field_def word_of_obj_def)
  moreover have "slice (300 * 2) 2 ?w = [5, 5]" by (simp add: slice_def numeral_2_eq_2)
  ultimately show ?thesis using large_vector_half_converted [of ?w 300] by simp
qed

end
