(* ===== verification/Object_Layout.thy ===== *)
theory Object_Layout
  imports Portable
begin

text \<open>
  How the language lays out the structs that are sent as messages, on a target where every scalar is
  aligned to its size (the 64-bit and ARM ABIs): members in the order of their declaration, each at
  the next multiple of its alignment, the object padded to a multiple of the largest. The library
  relies on it wherever it uses \<open>sizeof\<close>, \<open>alignof\<close>, or a member. The containers of
  \<open>include/sinew/containers.hpp\<close> are the structs of their data members; \<open>SINEW_REFLECT\<close> of
  \<open>include/sinew/portable.hpp\<close> marks a struct whose members the codec visits.
\<close>

section \<open>Types and their layout\<close>

datatype ctype =
    CScalar nat                             \<comment> \<open>arithmetic or enumeration type of so many bytes\<close>
  | CArrayOf ctype nat
  | CVector ctype nat                       \<comment> \<open>\<open>StaticVector<T, Capacity>\<close>\<close>
  | CString nat                             \<comment> \<open>\<open>StaticString<Capacity>\<close>\<close>
  | CStruct bool "(string \<times> ctype) list"    \<comment> \<open>with or without \<open>SINEW_REFLECT\<close>\<close>

definition align_up :: "nat \<Rightarrow> nat \<Rightarrow> nat" where
  "align_up a n = (n + a - 1) div a * a"

fun calign :: "ctype \<Rightarrow> nat" where
  "calign (CScalar n) = n"
| "calign (CArrayOf t k) = calign t"
| "calign (CVector t k) = max (calign t) 4"
| "calign (CString k) = 4"
| "calign (CStruct r fs) = fold max (map (\<lambda>f. calign (snd f)) fs) 1"

text \<open>Offsets of consecutive members, given as pairs of alignment and size, and where they end.\<close>

fun place :: "(nat \<times> nat) list \<Rightarrow> nat \<Rightarrow> nat list \<times> nat" where
  "place [] off = ([], off)"
| "place ((a, n) # ms) off = (let o' = align_up a off; (os, e) = place ms (o' + n) in (o' # os, e))"

fun csize :: "ctype \<Rightarrow> nat" where
  "csize (CScalar n) = n"
| "csize (CArrayOf t k) = k * csize t"
| "csize (CVector t k) = align_up (max (calign t) 4) (align_up 4 (k * csize t) + 4)"
| "csize (CString k) = align_up 4 (k + 1) + 4"
| "csize (CStruct r fs) = align_up (fold max (map (\<lambda>f. calign (snd f)) fs) 1)
     (snd (place (map (\<lambda>f. (calign (snd f), csize (snd f))) fs) 0))"

text \<open>Offset of \<open>size_\<close>, and the offsets of the members of a struct.\<close>

definition size_offset :: "ctype \<Rightarrow> nat \<Rightarrow> nat" where
  "size_offset t k = align_up 4 (k * csize t)"

definition offsets :: "(string \<times> ctype) list \<Rightarrow> nat list" where
  "offsets fs = fst (place (map (\<lambda>f. (calign (snd f), csize (snd f))) fs) 0)"

text \<open>\<open>offsetof\<close>, by the name of the member.\<close>

fun offsetof :: "ctype \<Rightarrow> string \<Rightarrow> nat option" where
  "offsetof (CStruct r fs) name = map_of (zip (map fst fs) (offsets fs)) name"
| "offsetof _ name = None"

lemma member_size: "f \<in> set fs \<Longrightarrow> size (snd f) < Suc (size_list (size_prod (\<lambda>_. 0) size) fs)"
  by (induction fs) auto

text \<open>What the language asks of a type: known scalar sizes, no empty arrays or structs.\<close>

fun wf_ctype :: "ctype \<Rightarrow> bool" where
  "wf_ctype (CScalar n) = (n \<in> {1, 2, 4, 8})"
| "wf_ctype (CArrayOf t k) = (0 < k \<and> wf_ctype t)"
| "wf_ctype (CVector t k) = (0 < k \<and> wf_ctype t)"
| "wf_ctype (CString k) = (0 < k)"
| "wf_ctype (CStruct r fs) = (fs \<noteq> [] \<and> (\<forall>f\<in>set fs. wf_ctype (snd f)))"

section \<open>Alignment\<close>

lemma align_up_le: "0 < a \<Longrightarrow> n \<le> align_up a n"
  using dividend_less_times_div [of a "n + a - 1"]
  by (simp add: align_up_def mult.commute)

lemma align_up_dvd [simp]: "a dvd align_up a n"
  by (simp add: align_up_def)

lemma align_up_pos: "0 < a \<Longrightarrow> 0 < n \<Longrightarrow> 0 < align_up a n"
  using align_up_le [of a n] by simp

lemma fold_max_in: "set xs \<subseteq> S \<Longrightarrow> a \<in> S \<Longrightarrow> fold max xs a \<in> S" for a :: nat
  by (induction xs arbitrary: a) (auto simp: max_def)

lemma fold_max_ge: "x \<in> set (a # xs) \<Longrightarrow> x \<le> fold max xs a" for a :: nat
proof (induction xs arbitrary: a x)
  case (Cons y xs)
  have "max y a \<le> fold max xs (max y a)" by (rule Cons.IH) simp
  then have "y \<le> fold max xs (max y a)" "a \<le> fold max xs (max y a)" by simp_all
  with Cons show ?case by auto
qed simp

lemma scalar_dvd: "a \<le> b \<Longrightarrow> a \<in> {1, 2, 4, 8} \<Longrightarrow> b \<in> {1, 2, 4, 8} \<Longrightarrow> a dvd b" for a b :: nat
  by auto

lemma calign_in: "wf_ctype t \<Longrightarrow> calign t \<in> {1, 2, 4, 8}"
proof (induction t rule: calign.induct)
  case (5 r fs)
  then have "set (map (\<lambda>f. calign (snd f)) fs) \<subseteq> {1, 2, 4, 8}" by auto
  then show ?case unfolding calign.simps by (rule fold_max_in) simp
qed (auto simp: max_def)

lemma calign_pos: "wf_ctype t \<Longrightarrow> 0 < calign t"
  using calign_in [of t] by auto

section \<open>Members\<close>

lemma length_place [simp]: "length (fst (place ms off)) = length ms"
  by (induction ms off rule: place.induct) (simp_all add: Let_def split_def)

lemma place_end: "\<forall>x\<in>set ms. 0 < fst x \<Longrightarrow> off \<le> snd (place ms off)"
proof (induction ms arbitrary: off)
  case (Cons x ms)
  obtain a n where x: "x = (a, n)" by force
  have "align_up a off + n \<le> snd (place ms (align_up a off + n))" using Cons by simp
  moreover have "off \<le> align_up a off" using Cons.prems x by (auto intro: align_up_le)
  ultimately show ?case by (simp add: x split_def Let_def)
qed simp

lemma place_members:
  fixes off :: nat
  assumes "\<forall>x\<in>set ms. 0 < fst x" "i < length ms"
  defines "os \<equiv> fst (place ms off)"
  shows "fst (ms ! i) dvd os ! i \<and> off \<le> os ! i \<and> os ! i + snd (ms ! i) \<le> snd (place ms off)
    \<and> (\<forall>j<i. os ! j + snd (ms ! j) \<le> os ! i)"
  using assms(1,2) unfolding os_def
proof (induction ms arbitrary: off i)
  case (Cons x ms)
  obtain a n where x: "x = (a, n)" by force
  let ?o = "align_up a off"
  have le: "off \<le> ?o" using Cons.prems x by (auto intro: align_up_le)
  have split: "place (x # ms) off = (?o # fst (place ms (?o + n)), snd (place ms (?o + n)))"
    by (simp add: x split_def Let_def)
  have last: "?o + n \<le> snd (place ms (?o + n))" using Cons.prems by (intro place_end) simp
  show ?case
  proof (cases i)
    case 0
    with le last show ?thesis unfolding split by (simp add: x)
  next
    case (Suc k)
    have "\<forall>x\<in>set ms. 0 < fst x" "k < length ms" using Cons.prems Suc by simp_all
    from Cons.IH [OF this, of "?o + n"] le last Suc show ?thesis
      unfolding split by (auto simp: x less_Suc_eq_0_disj)
  qed
qed simp

text \<open>Where a member of a struct lies.\<close>

lemma length_offsets [simp]: "length (offsets fs) = length fs"
  by (simp add: offsets_def)

lemma struct_member:
  assumes "wf_ctype (CStruct r fs)" "i < length fs"
  shows "calign (snd (fs ! i)) dvd offsets fs ! i"
    "offsets fs ! i + csize (snd (fs ! i)) \<le> csize (CStruct r fs)"
    "j < i \<Longrightarrow> offsets fs ! j + csize (snd (fs ! j)) \<le> offsets fs ! i"
proof -
  let ?ms = "map (\<lambda>f. (calign (snd f), csize (snd f))) fs"
  have pos: "\<forall>x\<in>set ?ms. 0 < fst x" using assms(1) by (auto intro: calign_pos)
  have "0 < fold max (map (\<lambda>f. calign (snd f)) fs) 1" using calign_pos [OF assms(1)] by simp
  then have "snd (place ?ms 0) \<le> csize (CStruct r fs)" by (simp add: align_up_le)
  with place_members [OF pos, of i 0] assms(2)
  show "calign (snd (fs ! i)) dvd offsets fs ! i"
    "offsets fs ! i + csize (snd (fs ! i)) \<le> csize (CStruct r fs)"
    "j < i \<Longrightarrow> offsets fs ! j + csize (snd (fs ! j)) \<le> offsets fs ! i"
    by (auto simp: offsets_def simp del: csize.simps)
qed

lemma csize_aligned: "wf_ctype t \<Longrightarrow> calign t dvd csize t"
proof (induction t rule: csize.induct)
  case (4 k)
  then show ?case by simp
qed auto

lemma csize_pos: "wf_ctype t \<Longrightarrow> 0 < csize t"
proof (induction t rule: csize.induct)
  case (3 t k)
  then show ?case by (simp add: align_up_pos)
next
  case (5 r fs)
  then have f: "0 < length fs" "wf_ctype (snd (fs ! 0))" "0 < csize (snd (fs ! 0))" by auto
  with struct_member(2) [OF 5(2), of 0] show ?case by (simp del: csize.simps wf_ctype.simps)
qed auto

lemma vector_layout:
  assumes "wf_ctype (CVector t k)"
  shows "k * csize t \<le> size_offset t k" "4 dvd size_offset t k" "size_offset t k + 4 \<le> csize (CVector t k)"
  using assms by (simp_all add: size_offset_def align_up_le)

section \<open>Reflected structs and message types\<close>

text \<open>What \<open>portable_swap\<close> sees of a type.\<close>

function layout_of :: "ctype \<Rightarrow> layout" where
  "layout_of (CScalar n) = Scalar n"
| "layout_of (CArrayOf t k) = CArray (layout_of t) k"
| "layout_of (CVector t k) = Vec (layout_of t) k (size_offset t k) (csize (CVector t k))"
| "layout_of (CString k) = Str k (align_up 4 (k + 1)) (csize (CString k))"
| "layout_of (CStruct r fs) =
     (if r then Reflected (csize (CStruct r fs))
         (map (\<lambda>i. (offsets fs ! i, layout_of (snd (fs ! i)))) [0..<length fs])
      else Plain (csize (CStruct r fs)))"
  by pat_completeness auto

termination
  by (relation "measure size") (auto simp: member_size)

lemma lsizeof_layout_of [simp]: "lsizeof (layout_of t) = csize t"
  by (induction t rule: layout_of.induct) (simp_all del: csize.simps(3-5))

text \<open>
  Types the codec converts completely: every struct in them lists its members, C arrays are of
  bytes, and vectors have less than 65536 elements.
\<close>

fun convertible :: "ctype \<Rightarrow> bool" where
  "convertible (CScalar n) = True"
| "convertible (CArrayOf t k) = (t = CScalar 1)"
| "convertible (CVector t k) = (k < 65536 \<and> convertible t)"
| "convertible (CString k) = True"
| "convertible (CStruct r fs) = (r \<and> (\<forall>f\<in>set fs. convertible (snd f)))"

lemma convertible_portable: "wf_ctype t \<Longrightarrow> convertible t \<Longrightarrow> portable (layout_of t)"
proof (induction t rule: layout_of.induct)
  case (3 t k)
  with vector_layout [of t k] show ?case by (simp del: csize.simps(3))
next
  case (4 k)
  then show ?case by (simp add: align_up_le)
next
  case (5 r fs)
  note member = struct_member [OF 5(2)]
  have IH: "portable (layout_of (snd (fs ! i)))" if "i < length fs" for i
    using 5 that by auto
  have "sorted_wrt (\<lambda>i j. apart (offsets fs ! i, csize (snd (fs ! i))) (offsets fs ! j, csize (snd (fs ! j))))
      [0..<length fs]"
    using member(3) by (auto simp: sorted_wrt_iff_nth_less apart_def)
  with IH member(2) 5(3) show ?case
    by (auto simp: sorted_wrt_map simp del: csize.simps(5))
qed auto

definition struct_message :: "string \<Rightarrow> int \<Rightarrow> int \<Rightarrow> ctype \<Rightarrow> (bytes \<Rightarrow> bytes) \<Rightarrow> msgtype" where
  "struct_message name msg_id ver t ctor = register_message name msg_id ver (csize t) (calign t) ctor"

lemma struct_message_sel [simp]:
  "mt_sizeof (struct_message name msg_id ver t ctor) = csize t"
  "mt_alignof (struct_message name msg_id ver t ctor) = calign t"
  "mt_construct (struct_message name msg_id ver t ctor) = ctor"
  "mt_id (struct_message name msg_id ver t ctor) = word_of_int msg_id"
  by (simp_all add: struct_message_def register_message_def)

lemma struct_message_valid:
  assumes "wf_ctype t" "csize t < 2 ^ 32" "\<And>bs. length bs = csize t \<Longrightarrow> length (ctor bs) = csize t"
  shows "is_valid_message (struct_message name msg_id ver t ctor)"
  using assms calign_pos [of t] csize_pos [of t] csize_aligned [of t]
  by (simp add: is_valid_message_def)

text \<open>
  Assignments to members through a pointer to the struct, by name, and reading a member of \<open>n\<close> bytes.
\<close>

definition assign_members :: "ctype \<Rightarrow> (string \<times> bytes) list \<Rightarrow> field_writes" where
  "assign_members t vs = map (\<lambda>(name, v). (the (offsetof t name), v)) vs"

definition member_of :: "ctype \<Rightarrow> string \<Rightarrow> nat \<Rightarrow> bytes \<Rightarrow> bytes" where
  "member_of t name n obj = slice (the (offsetof t name)) n obj"

lemma apply_fields_Nil [simp]: "apply_fields [] obj = obj"
  and apply_fields_Cons [simp]: "apply_fields ((off, f) # fs) obj = apply_fields fs (splice off f obj)"
  by (simp_all add: apply_fields_def splice_def)

lemma length_apply_fields [simp]: "fields_inside (length obj) fs \<Longrightarrow> length (apply_fields fs obj) = length obj"
  by (induction fs arbitrary: obj) (auto simp: fields_inside_def)

end
