(* ===== verification/Ros2_Bridge.thy ===== *)
theory Ros2_Bridge
  imports Ring_Buffer Ipc_Ring_Buffer
begin

text \<open>
  Model of the bridge workers of \<open>include/sinew/ros2_bridge.hpp\<close>. They are templates over the ring
  (\<open>RingBufferType\<close>) and over a user-supplied \<open>Ros2Converter\<close>: the ring is a set of operations, as
  in \<open>Ring_Interface\<close>, and the two conversions \<open>to_ros\<close> and \<open>from_ros\<close>, which write into an object
  they are given, are parameters. What the workers do follows from the laws of the interface; it is
  proved once there and holds for both rings of the library.
\<close>

section \<open>The workers\<close>

text \<open>
  The loop of \<open>spin_some\<close>: \<open>ros_msg\<close> is one object for all messages, \<open>cb\<close> the callback, which may be
  empty, with its state \<open>a\<close>.
\<close>

function spin_loop ::
  "(bool \<Rightarrow> 'st \<Rightarrow> ptr) \<Rightarrow> ('st \<Rightarrow> ptr \<Rightarrow> bytes) \<Rightarrow> ('st \<Rightarrow> 'st) \<Rightarrow> (bytes \<Rightarrow> 'r \<Rightarrow> 'r) \<Rightarrow> ('r \<Rightarrow> 'a \<Rightarrow> 'a) option
     \<Rightarrow> nat \<Rightarrow> nat \<Rightarrow> 'r \<Rightarrow> 'a \<Rightarrow> 'st \<Rightarrow> nat \<times> 'a \<times> 'st" where
  "spin_loop peek_read fetch commit_read to_ros cb max_messages processed ros_msg a s =
     (if processed < max_messages then
        let item = peek_read False s in
        if item = nullptr then (processed, a, s)
        else
          let ros_msg = to_ros (fetch s item) ros_msg;
              a = (case cb of None \<Rightarrow> a | Some publish \<Rightarrow> publish ros_msg a);
              s = commit_read s
          in spin_loop peek_read fetch commit_read to_ros cb max_messages (processed + 1) ros_msg a s
      else (processed, a, s))"
  by pat_completeness auto
termination
  by (relation "measure (\<lambda>(_, _, _, _, _, max_messages, processed, _). max_messages - processed)") simp_all

declare spin_loop.simps [simp del]

definition spin_some ::
  "(bool \<Rightarrow> 'st \<Rightarrow> ptr) \<Rightarrow> ('st \<Rightarrow> ptr \<Rightarrow> bytes) \<Rightarrow> ('st \<Rightarrow> 'st) \<Rightarrow> (bytes \<Rightarrow> 'r \<Rightarrow> 'r) \<Rightarrow> ('r \<Rightarrow> 'a \<Rightarrow> 'a) option
     \<Rightarrow> 'r \<Rightarrow> nat \<Rightarrow> 'a \<Rightarrow> 'st \<Rightarrow> nat \<times> 'a \<times> 'st" where
  "spin_some peek_read fetch commit_read to_ros cb ros_default max_messages a s =
     spin_loop peek_read fetch commit_read to_ros cb max_messages 0 ros_default a s"

definition handle_ros_message ::
  "('st \<Rightarrow> ptr \<times> 'st) \<Rightarrow> ('st \<Rightarrow> ptr \<Rightarrow> bytes) \<Rightarrow> ('st \<Rightarrow> ptr \<Rightarrow> bytes \<Rightarrow> 'st) \<Rightarrow> (bool \<Rightarrow> 'st \<Rightarrow> 'st)
     \<Rightarrow> ('r \<Rightarrow> bytes \<Rightarrow> bytes) \<Rightarrow> 'r \<Rightarrow> bool \<Rightarrow> 'st \<Rightarrow> bool \<times> 'st" where
  "handle_ros_message prepare_write slot_value store commit_write from_ros ros_msg compute_crc s =
     (let (slot, s) = prepare_write s in
      if slot = nullptr then (False, s)
      else
        let s = store s slot (from_ros ros_msg (slot_value s slot))
        in (True, commit_write compute_crc s))"

text \<open>The messages a publisher produces from payloads, each conversion starting from the last.\<close>

fun converted :: "(bytes \<Rightarrow> 'r \<Rightarrow> 'r) \<Rightarrow> 'r \<Rightarrow> bytes list \<Rightarrow> 'r list" where
  "converted to_ros r [] = []"
| "converted to_ros r (v # vs) = (let r' = to_ros v r in r' # converted to_ros r' vs)"

lemma converted_pure: "(\<And>v r. to_ros v r = f v) \<Longrightarrow> converted to_ros r vs = map f vs"
  by (induction vs arbitrary: r) (simp_all add: Let_def)

definition publish_all :: "('r \<Rightarrow> 'a \<Rightarrow> 'a) option \<Rightarrow> 'r list \<Rightarrow> 'a \<Rightarrow> 'a" where
  "publish_all cb rs a = (case cb of None \<Rightarrow> a | Some publish \<Rightarrow> fold publish rs a)"

section \<open>The workers on any ring\<close>

context ring_consumer
begin

lemma spin_loop_drains:
  assumes "inv s" "processed \<le> max_messages"
  shows "case spin_loop peek_read fetch commit_read to_ros cb max_messages processed r a s of (n, a', s') \<Rightarrow>
    n = processed + min (max_messages - processed) (length (contents s))
    \<and> a' = publish_all cb (converted to_ros r (take (max_messages - processed) (contents s))) a
    \<and> inv s' \<and> contents s' = drop (max_messages - processed) (contents s)"
  using assms
proof (induction "max_messages - processed" arbitrary: processed r a s)
  case 0
  then show ?case by (subst spin_loop.simps) (simp add: publish_all_def split: option.split)
next
  case (Suc k)
  then have lt: "processed < max_messages" and k: "k = max_messages - (processed + 1)" by simp_all
  show ?case
  proof (cases "contents s")
    case Nil
    then show ?thesis
      using peek_empty [OF Suc.prems(1)] Suc.prems
      by (subst spin_loop.simps) (simp add: publish_all_def split: option.split)
  next
    case (Cons v q)
    note front = peek_front [OF Suc.prems(1) Cons, of False] and rest = read_front [OF Suc.prems(1) Cons]
    let ?r = "to_ros v r" and ?a = "case cb of None \<Rightarrow> a | Some publish \<Rightarrow> publish (to_ros v r) a"
    have step: "spin_loop peek_read fetch commit_read to_ros cb max_messages processed r a s =
        spin_loop peek_read fetch commit_read to_ros cb max_messages (processed + 1) ?r ?a (commit_read s)"
      using front lt by (subst spin_loop.simps) (simp add: Let_def)
    have "publish_all cb (?r # rs) a = publish_all cb rs ?a" for rs
      by (simp add: publish_all_def split: option.split)
    moreover have "max_messages - processed = Suc k" using lt k by simp
    ultimately show ?thesis
      using Suc.hyps(1) [OF k conjunct1 [OF rest], of ?r ?a] lt rest k
      unfolding step Cons by (auto simp: Let_def split: prod.splits)
  qed
qed

lemma spin_some_drains:
  assumes "inv s" "spin_some peek_read fetch commit_read to_ros cb r0 max_messages a s = (n, a', s')"
  shows "n = min max_messages (length (contents s)) \<and> inv s' \<and> contents s' = drop n (contents s)
    \<and> a' = publish_all cb (converted to_ros r0 (take n (contents s))) a"
  using spin_loop_drains [OF assms(1) le0 [of max_messages], where to_ros = to_ros and cb = cb and r = r0
      and a = a] assms(2)
  by (auto simp: spin_some_def min_def)

end

context message_ring
begin

lemma handle_pushes:
  assumes "inv s" "length (from_ros msg blank) = value_size"
    and "handle_ros_message prepare_write slot_value store commit_write from_ros msg c s = (ok, s')"
  shows "inv s' \<and> ok = (length (contents s) < limit)
    \<and> contents s' = (if length (contents s) < limit then contents s @ [from_ros msg blank] else contents s)"
proof (cases "length (contents s) < limit")
  case True
  obtain slot s1 where p: "prepare_write s = (slot, s1)" by force
  with True assms prepare_room [OF assms(1) True p] commit_filled [OF assms(1) True p assms(2)]
  show ?thesis by (auto simp: handle_ros_message_def)
next
  case False
  then have "length (contents s) = limit" using bounded [OF assms(1)] by simp
  with assms prepare_full show ?thesis by (auto simp: handle_ros_message_def)
qed

end

section \<open>The workers on the rings of the library\<close>

definition spsc_spin_some ::
  "endian \<Rightarrow> msgtype \<Rightarrow> 'w::len word \<Rightarrow> (bytes \<Rightarrow> 'r \<Rightarrow> 'r) \<Rightarrow> ('r \<Rightarrow> 'a \<Rightarrow> 'a) option \<Rightarrow> 'r \<Rightarrow> nat \<Rightarrow> 'a
     \<Rightarrow> 'w word spsc \<times> mem \<Rightarrow> nat \<times> 'a \<times> 'w word spsc \<times> mem" where
  "spsc_spin_some e T cap = spin_some (spsc_peek_read e T cap) (spsc_fetch T) spsc_commit_read"

definition ipc_spin_some ::
  "endian \<Rightarrow> msgtype \<Rightarrow> u64 \<Rightarrow> (bytes \<Rightarrow> 'r \<Rightarrow> 'r) \<Rightarrow> ('r \<Rightarrow> 'a \<Rightarrow> 'a) option \<Rightarrow> 'r \<Rightarrow> nat \<Rightarrow> 'a
     \<Rightarrow> ipc_ring \<times> mem \<Rightarrow> nat \<times> 'a \<times> ipc_ring \<times> mem" where
  "ipc_spin_some e T cap = spin_some (ipc_peek_read e T cap) (ipc_fetch T) (ipc_commit_read e)"

definition spsc_handle_ros_message ::
  "endian \<Rightarrow> msgtype \<Rightarrow> 'w::len word \<Rightarrow> ('r \<Rightarrow> bytes \<Rightarrow> bytes) \<Rightarrow> 'r \<Rightarrow> bool
     \<Rightarrow> 'w word spsc \<times> mem \<Rightarrow> bool \<times> 'w word spsc \<times> mem" where
  "spsc_handle_ros_message e T cap =
     handle_ros_message (spsc_prepare_write e T cap) (spsc_fetch T) spsc_store (spsc_commit_write e T cap)"

definition ipc_handle_ros_message ::
  "endian \<Rightarrow> msgtype \<Rightarrow> u64 \<Rightarrow> ('r \<Rightarrow> bytes \<Rightarrow> bytes) \<Rightarrow> 'r \<Rightarrow> bool
     \<Rightarrow> ipc_ring \<times> mem \<Rightarrow> bool \<times> ipc_ring \<times> mem" where
  "ipc_handle_ros_message e T cap =
     handle_ros_message (ipc_prepare_write e T cap) (ipc_fetch T) ipc_store (ipc_commit_write e T cap)"

text \<open>
  C21. \<open>spin_some\<close> on either ring publishes the oldest messages of the ring, at most \<open>max_messages\<close> of
  them, in order, each exactly once, removes just those, and returns their number. Each conversion
  starts from the object the one before it left, so a field that \<open>to_ros\<close> does not write keeps the
  value of the previous message.
\<close>

theorem bridge_publisher_drains:
  assumes "spsc_inv e T cap s" "ipc_inv e T cap' t"
    and "spsc_spin_some e T cap to_ros cb r0 max_messages a s = (n, a', s')"
    and "ipc_spin_some e T cap' to_ros cb r0 max_messages a t = (k, b', t')"
  shows "(n = min max_messages (length (spsc_contents e T cap s)) \<and> spsc_inv e T cap s'
      \<and> spsc_contents e T cap s' = drop n (spsc_contents e T cap s)
      \<and> a' = publish_all cb (converted to_ros r0 (take n (spsc_contents e T cap s))) a)
    \<and> (k = min max_messages (length (ipc_contents e T cap' t)) \<and> ipc_inv e T cap' t'
      \<and> ipc_contents e T cap' t' = drop k (ipc_contents e T cap' t)
      \<and> b' = publish_all cb (converted to_ros r0 (take k (ipc_contents e T cap' t))) a)"
  using spsc.spin_some_drains [OF assms(1) assms(3) [unfolded spsc_spin_some_def]]
    ipc.spin_some_drains [OF assms(2) assms(4) [unfolded ipc_spin_some_def]]
  by simp

text \<open>A ring of each kind with the message \<open>[1, 2, 3, 4]\<close> in it.\<close>

lemma one_message:
  obtains s :: "32 word spsc \<times> mem" and t where "spsc_inv Little PingMsg 4 s" "spsc_contents Little PingMsg 4 s = [[1, 2, 3, 4]]"
    "ipc_inv Little PingMsg 4 t" "ipc_contents Little PingMsg 4 t = [[1, 2, 3, 4]]"
proof -
  let ?v = "[1, 2, 3, 4] :: bytes"
  obtain ok s where p: "ring_push (spsc_prepare_write Little PingMsg 4) spsc_store
      (spsc_commit_write Little PingMsg 4) ?v False wrapping_ring = (ok, s)" by (meson surj_pair)
  obtain ok' t where q: "ring_push (ipc_prepare_write Little PingMsg 4) ipc_store
      (ipc_commit_write Little PingMsg 4) ?v False demo_ring = (ok', t)" by (meson surj_pair)
  show thesis
    using spsc.push_spec [OF wrapping_ring_inv(1), of ?v Little False]
      ipc.push_spec [OF demo_ring(1), of ?v False] p q wrapping_ring_inv(2) demo_ring(2)
    by (intro that [of s t]) auto
qed

theorem bridge_publisher_drains_witness:
  "\<exists>(s :: 32 word spsc \<times> mem) a s'. spsc_contents Little PingMsg 4 s = [[1, 2, 3, 4]]
     \<and> spsc_spin_some Little PingMsg 4 (\<lambda>v r. v @ r) (Some (\<lambda>r log. log @ [r])) [] 64 [] s = (1, a, s')
     \<and> a = [[1, 2, 3, 4]]"
proof -
  obtain s :: "32 word spsc \<times> mem" and t where inv: "spsc_inv Little PingMsg 4 s" "ipc_inv Little PingMsg 4 t"
    and c: "spsc_contents Little PingMsg 4 s = [[1, 2, 3, 4]]"
    by (rule one_message) blast
  let ?to = "\<lambda>v r :: bytes. v @ r" and ?cb = "Some (\<lambda>r log. log @ [r :: bytes])"
  obtain n a' s' where r: "spsc_spin_some Little PingMsg 4 ?to ?cb [] 64 [] s = (n, a', s')"
    by (meson prod_cases3)
  obtain k b' t' where r': "ipc_spin_some Little PingMsg 4 ?to ?cb [] 64 [] t = (k, b', t')"
    by (meson prod_cases3)
  from bridge_publisher_drains [OF inv r r'] r c show ?thesis
    by (intro exI [of _ s] exI [of _ a'] exI [of _ s']) (simp add: publish_all_def)
qed

text \<open>
  C33. \<open>handle_ros_message\<close> on either ring fails exactly when the ring is full, leaving it unchanged;
  otherwise it appends what \<open>from_ros\<close> makes of the message and a default-constructed object.
\<close>

theorem bridge_subscriber_pushes:
  fixes msg :: 'r
  defines "v \<equiv> \<lambda>T from_ros. from_ros msg (mt_construct T (replicate (mt_sizeof T) 0))"
  assumes "spsc_inv e T cap s" "ipc_inv e T cap' t" "length (v T from_ros) = mt_sizeof T"
    and "spsc_handle_ros_message e T cap from_ros msg c s = (ok, s')"
    and "ipc_handle_ros_message e T cap' from_ros msg c t = (ok', t')"
  shows "(ok \<longleftrightarrow> length (spsc_contents e T cap s) < unat cap)
    \<and> spsc_contents e T cap s' = (if ok then spsc_contents e T cap s @ [v T from_ros] else spsc_contents e T cap s)
    \<and> (ok' \<longleftrightarrow> length (ipc_contents e T cap' t) < unat cap')
    \<and> ipc_contents e T cap' t' = (if ok' then ipc_contents e T cap' t @ [v T from_ros] else ipc_contents e T cap' t)"
  using spsc.handle_pushes [OF assms(2) assms(4) [unfolded v_def] assms(5) [unfolded spsc_handle_ros_message_def]]
    ipc.handle_pushes [OF assms(3) assms(4) [unfolded v_def] assms(6) [unfolded ipc_handle_ros_message_def]]
  by (auto simp: v_def)

theorem bridge_subscriber_pushes_witness:
  "\<exists>s'. spsc_handle_ros_message Little PingMsg 4 (\<lambda>msg slot. msg # tl slot) 9 False wrapping_ring = (True, s')
     \<and> spsc_contents Little PingMsg 4 s' = [[9, 0, 0, 0]]"
proof -
  let ?from = "\<lambda>msg (slot :: bytes). msg # tl slot"
  obtain ok s' where r: "spsc_handle_ros_message Little PingMsg 4 ?from 9 False wrapping_ring = (ok, s')"
    by (meson surj_pair)
  obtain ok' t' where r': "ipc_handle_ros_message Little PingMsg 4 ?from 9 False demo_ring = (ok', t')"
    by (meson surj_pair)
  have "replicate 4 (0 :: u8) = [0, 0, 0, 0]" by code_simp
  with bridge_subscriber_pushes [OF wrapping_ring_inv(1) demo_ring(1) _ r r'] r wrapping_ring_inv(2) [of Little]
  show ?thesis by simp
qed

end
