(* ===== verification/Ros2_Messages.thy ===== *)
theory Ros2_Messages
  imports Object_Layout Ros2_Bridge
begin

text \<open>
  The message schemas of \<open>include/sinew/ros2_bridge.hpp\<close>: plain structs whose members have default
  initialisers. A schema is its layout and the list of members that are initialised to something
  other than zero; value-initialising an object leaves zeros and those.
\<close>

section \<open>The schemas\<close>

definition double :: ctype where "double = CScalar 8"

definition uint32 :: ctype where "uint32 = CScalar 4"

definition Vector3 :: ctype where
  "Vector3 = CStruct False [(''x'', double), (''y'', double), (''z'', double)]"

definition Quaternion :: ctype where
  "Quaternion = CStruct False [(''x'', double), (''y'', double), (''z'', double), (''w'', double)]"

definition Ros_Header :: ctype where
  "Ros_Header = CStruct False [(''sec'', uint32), (''nanosec'', uint32), (''frame_id'', CString 32)]"

definition ImuMessage :: ctype where
  "ImuMessage = CStruct False
     [(''header'', Ros_Header), (''orientation'', Quaternion),
      (''orientation_covariance'', CArrayOf double 9),
      (''angular_velocity'', Vector3), (''angular_velocity_covariance'', CArrayOf double 9),
      (''linear_acceleration'', Vector3), (''linear_acceleration_covariance'', CArrayOf double 9)]"

definition TwistMessage :: ctype where
  "TwistMessage = CStruct False [(''linear'', Vector3), (''angular'', Vector3)]"

definition JointStateMessage :: ctype where
  "JointStateMessage = CStruct False
     [(''header'', Ros_Header), (''name'', CVector (CString 16) 8), (''position'', CVector double 8),
      (''velocity'', CVector double 8), (''effort'', CVector double 8)]"

lemmas schema_defs = Vector3_def Quaternion_def Ros_Header_def ImuMessage_def TwistMessage_def
  JointStateMessage_def double_def uint32_def

lemma schemas_wf [simp]:
  "wf_ctype Vector3" "wf_ctype Quaternion" "wf_ctype Ros_Header" "wf_ctype ImuMessage"
  "wf_ctype TwistMessage" "wf_ctype JointStateMessage"
  by (simp_all add: schema_defs)

lemma schema_sizes [simp]:
  "csize Vector3 = 24" "csize Quaternion = 32" "csize Ros_Header = 48" "csize ImuMessage = 344"
  "csize TwistMessage = 48" "csize JointStateMessage = 464"
  by (simp_all add: schema_defs align_up_def size_offset_def)

lemma schema_offsets:
  "offsetof ImuMessage ''header'' = Some 0" "offsetof ImuMessage ''orientation'' = Some 48"
  "offsetof ImuMessage ''angular_velocity'' = Some 152" "offsetof ImuMessage ''linear_acceleration'' = Some 248"
  "offsetof Quaternion ''w'' = Some 24" "offsetof Ros_Header ''frame_id'' = Some 8"
  by (simp_all add: schema_defs offsets_def align_up_def size_offset_def)

section \<open>Value-initialised messages\<close>

text \<open>\<open>RosMsg ros_msg{}\<close>: every member is zero, except \<open>w{1.0}\<close> of a quaternion.\<close>

definition Quaternion_default :: "endian \<Rightarrow> bytes" where
  "Quaternion_default e = apply_fields
     [(the (offsetof Quaternion ''w''), obj_of_word e 8 (0x3FF0000000000000 :: u64))] (replicate (csize Quaternion) 0)"

definition ImuMessage_default :: "endian \<Rightarrow> bytes" where
  "ImuMessage_default e = apply_fields
     [(the (offsetof ImuMessage ''orientation''), Quaternion_default e)] (replicate (csize ImuMessage) 0)"

lemma default_lengths [simp]: "length (Quaternion_default e) = 32" "length (ImuMessage_default e) = 344"
  by (simp_all add: Quaternion_default_def ImuMessage_default_def schema_offsets)

text \<open>
  The bytes a subscriber of a converter finds where the converter writes nothing: the identity
  rotation (0, 0, 0, 1), the one being the IEEE 754 double 0x3FF0000000000000, and zeros elsewhere.
\<close>

lemma default_orientation_bytes:
  "slice 48 32 (ImuMessage_default e) = replicate 24 0 @ obj_of_word e 8 (0x3FF0000000000000 :: u64)"
proof -
  have "slice 48 32 (ImuMessage_default e) = Quaternion_default e"
    by (simp add: ImuMessage_default_def schema_offsets slice_splice_same)
  then show ?thesis by (simp add: Quaternion_default_def schema_offsets splice_def)
qed

end
