(* ===== verification/Pipeline.thy ===== *)
theory Pipeline
  imports Ring_Buffer Ipc_Shared
begin

text \<open>
  The two loops of the telemetry examples (\<open>examples/imu_telemetry.cpp\<close>,
  \<open>examples/ipc_telemetry.cpp\<close>): a producer thread sends \<open>n\<close> messages through a ring, retrying while it is full; a consumer
  thread takes \<open>n\<close> messages, retrying while it is empty. The loops never give up, so whether they end
  depends on the scheduler: a turn of a thread is one iteration of its inner loop, and a schedule
  says whose turn it is at each moment. The facts hold for any ring that keeps the laws of
  \<open>Ring_Interface\<close>.
\<close>

section \<open>The loops\<close>

record ('st, 'a) pipeline =
  pl_ring :: 'st
  pl_sent :: nat        \<comment> \<open>the loop variable of the producer\<close>
  pl_received :: nat    \<comment> \<open>the counter of the consumer\<close>
  pl_acc :: 'a          \<comment> \<open>what the consumer computes from the messages\<close>

definition producer_turn ::
  "('st \<Rightarrow> ptr \<times> 'st) \<Rightarrow> ('st \<Rightarrow> ptr \<Rightarrow> bytes) \<Rightarrow> ('st \<Rightarrow> ptr \<Rightarrow> bytes \<Rightarrow> 'st) \<Rightarrow> (bool \<Rightarrow> 'st \<Rightarrow> 'st)
     \<Rightarrow> (nat \<Rightarrow> bytes \<Rightarrow> bytes) \<Rightarrow> nat \<Rightarrow> ('st, 'a) pipeline \<Rightarrow> ('st, 'a) pipeline" where
  "producer_turn prepare_write slot_value store commit_write fill n s =
     (if pl_sent s < n then
        let (slot, r) = prepare_write (pl_ring s) in
        if slot = nullptr then s\<lparr>pl_ring := r\<rparr>
        else s\<lparr>pl_ring := commit_write False (store r slot (fill (pl_sent s) (slot_value r slot))),
               pl_sent := pl_sent s + 1\<rparr>
      else s)"

definition consumer_turn ::
  "(bool \<Rightarrow> 'st \<Rightarrow> ptr) \<Rightarrow> ('st \<Rightarrow> ptr \<Rightarrow> bytes) \<Rightarrow> ('st \<Rightarrow> 'st) \<Rightarrow> (bytes \<Rightarrow> 'a \<Rightarrow> 'a) \<Rightarrow> nat
     \<Rightarrow> ('st, 'a) pipeline \<Rightarrow> ('st, 'a) pipeline" where
  "consumer_turn peek_read fetch commit_read use n s =
     (if pl_received s < n then
        let item = peek_read False (pl_ring s) in
        if item \<noteq> nullptr
        then s\<lparr>pl_acc := use (fetch (pl_ring s) item) (pl_acc s), pl_received := pl_received s + 1,
               pl_ring := commit_read (pl_ring s)\<rparr>
        else s
      else s)"

text \<open>Some number of turns of a schedule; \<open>True\<close> is a turn of the producer.\<close>

primrec play :: "('s \<Rightarrow> 's) \<Rightarrow> ('s \<Rightarrow> 's) \<Rightarrow> (nat \<Rightarrow> bool) \<Rightarrow> nat \<Rightarrow> 's \<Rightarrow> 's" where
  "play p c turn 0 s = s"
| "play p c turn (Suc t) s = (let s' = play p c turn t s in if turn t then p s' else c s')"

lemma play_add: "play p c turn (k + t) s = play p c (\<lambda>i. turn (k + i)) t (play p c turn k s)"
  by (induction t) (simp_all add: Let_def)

definition fair :: "(nat \<Rightarrow> bool) \<Rightarrow> bool" where
  "fair turn \<longleftrightarrow> (\<forall>t. \<exists>u\<ge>t. turn u) \<and> (\<forall>t. \<exists>u\<ge>t. \<not> turn u)"

definition finished :: "nat \<Rightarrow> ('st, 'a) pipeline \<Rightarrow> bool" where
  "finished n s \<longleftrightarrow> pl_sent s = n \<and> pl_received s = n"

lemma fair_even: "fair even"
proof -
  have "\<exists>u\<ge>t. even u" "\<exists>u\<ge>t. odd u" for t :: nat
    by (intro exI [of _ "2 * t"]; simp) (intro exI [of _ "2 * t + 1"]; simp)
  then show ?thesis by (simp add: fair_def)
qed

lemma fair_shift:
  assumes "fair turn"
  shows "fair (\<lambda>i. turn (k + i))"
proof -
  have "\<exists>u\<ge>t. turn (k + u)" for t
  proof -
    obtain u where "k + t \<le> u" "turn u" using assms unfolding fair_def by blast
    then show ?thesis by (intro exI [of _ "u - k"]) simp
  qed
  moreover have "\<exists>u\<ge>t. \<not> turn (k + u)" for t
  proof -
    obtain u where "k + t \<le> u" "\<not> turn u" using assms unfolding fair_def by blast
    then show ?thesis by (intro exI [of _ "u - k"]) simp
  qed
  ultimately show ?thesis unfolding fair_def by blast
qed

text \<open>The first turn of the consumer, and the number of turns the producer has had.\<close>

lemma first_consumer_turn:
  assumes "fair turn"
  obtains u where "\<not> turn u" "\<And>i. i < u \<Longrightarrow> turn i"
proof -
  have "\<exists>u. \<not> turn u" using assms unfolding fair_def by blast
  then show thesis using that [of "LEAST u. \<not> turn u"] by (metis LeastI not_less_Least)
qed

definition producer_turns :: "(nat \<Rightarrow> bool) \<Rightarrow> nat \<Rightarrow> nat" where
  "producer_turns turn t = length (filter turn [0..<t])"

lemma producer_turns_simps [simp]:
  "producer_turns turn 0 = 0"
  "producer_turns turn (Suc t) = producer_turns turn t + (if turn t then 1 else 0)"
  by (simp_all add: producer_turns_def)

lemma producer_turns_mono: "t \<le> u \<Longrightarrow> producer_turns turn t \<le> producer_turns turn u"
  by (induction u rule: dec_induct) simp_all

lemma producer_turns_all: "(\<And>i. i < t \<Longrightarrow> turn i) \<Longrightarrow> producer_turns turn t = t"
  by (simp add: producer_turns_def)

lemma producer_turns_unbounded:
  assumes "fair turn"
  shows "\<exists>t. k \<le> producer_turns turn t"
proof (induction k)
  case (Suc k)
  then obtain t where "k \<le> producer_turns turn t" by blast
  moreover obtain u where "t \<le> u" "turn u" using assms unfolding fair_def by blast
  ultimately have "Suc k \<le> producer_turns turn (Suc u)"
    using producer_turns_mono [of t u turn] by simp
  then show ?case by blast
qed simp

section \<open>The pipeline on any ring\<close>

context message_ring
begin

text \<open>The messages in flight are those sent and not yet received.\<close>

definition pipe_ok :: "(nat \<Rightarrow> bytes \<Rightarrow> bytes) \<Rightarrow> (bytes \<Rightarrow> 'a \<Rightarrow> 'a) \<Rightarrow> 'a \<Rightarrow> nat \<Rightarrow> ('st, 'a) pipeline \<Rightarrow> bool" where
  "pipe_ok fill use a0 n s \<longleftrightarrow> inv (pl_ring s) \<and> pl_received s \<le> pl_sent s \<and> pl_sent s \<le> n
     \<and> contents (pl_ring s) = map (\<lambda>i. fill i blank) [pl_received s..<pl_sent s]
     \<and> pl_acc s = fold use (map (\<lambda>i. fill i blank) [0..<pl_received s]) a0"

lemma producer_turn_ok:
  assumes ok: "pipe_ok fill use a0 n s" and len: "length (fill (pl_sent s) blank) = value_size"
  defines "s' \<equiv> producer_turn prepare_write slot_value store commit_write fill n s"
  shows "pipe_ok fill use a0 n s' \<and> pl_received s' = pl_received s
    \<and> pl_sent s' = (if pl_sent s < n \<and> length (contents (pl_ring s)) < limit then pl_sent s + 1 else pl_sent s)"
proof -
  have inv: "inv (pl_ring s)" using ok by (simp add: pipe_ok_def)
  obtain slot r where p: "prepare_write (pl_ring s) = (slot, r)" by force
  show ?thesis
  proof (cases "pl_sent s < n \<and> length (contents (pl_ring s)) < limit")
    case True
    then have room: "length (contents (pl_ring s)) < limit" by simp
    note got = prepare_room [OF inv room p] and sent = commit_filled [OF inv room p len, of False]
    have "[pl_received s..<pl_sent s + 1] = [pl_received s..<pl_sent s] @ [pl_sent s]"
      using ok by (simp add: pipe_ok_def)
    with ok True got sent show ?thesis
      by (simp add: s'_def producer_turn_def p pipe_ok_def)
  next
    case False
    have "s' = s"
    proof (cases "pl_sent s < n")
      case True
      with False have "length (contents (pl_ring s)) = limit" using bounded [OF inv] by simp
      then show ?thesis using prepare_full [OF inv] by (simp add: s'_def producer_turn_def)
    qed (simp add: s'_def producer_turn_def)
    with ok False show ?thesis by auto
  qed
qed

text \<open>A turn of the producer is a \<open>push\<close> of the next message, as long as there is one.\<close>

lemma producer_turn_push:
  assumes "inv (pl_ring s)"
  shows "producer_turn prepare_write slot_value store commit_write fill n s =
    (if pl_sent s < n then
       (case ring_push prepare_write store commit_write (fill (pl_sent s) blank) False (pl_ring s) of (ok, r) \<Rightarrow>
          s\<lparr>pl_ring := r, pl_sent := pl_sent s + (if ok then 1 else 0)\<rparr>)
     else s)"
proof (cases "length (contents (pl_ring s)) < limit")
  case True
  obtain slot r where p: "prepare_write (pl_ring s) = (slot, r)" by force
  from prepare_room [OF assms True p] show ?thesis
    by (simp add: producer_turn_def ring_push_def p)
next
  case False
  then have "length (contents (pl_ring s)) = limit" using bounded [OF assms] by simp
  then show ?thesis using prepare_full [OF assms] by (simp add: producer_turn_def ring_push_def)
qed

lemma consumer_turn_ok:
  assumes ok: "pipe_ok fill use a0 n s"
  defines "s' \<equiv> consumer_turn peek_read fetch commit_read use n s"
  shows "pipe_ok fill use a0 n s' \<and> pl_sent s' = pl_sent s
    \<and> pl_received s' = (if contents (pl_ring s) = [] then pl_received s else pl_received s + 1)"
proof -
  have inv: "inv (pl_ring s)" using ok by (simp add: pipe_ok_def)
  show ?thesis
  proof (cases "contents (pl_ring s)")
    case Nil
    with ok peek_empty [OF inv] show ?thesis by (simp add: s'_def consumer_turn_def Let_def)
  next
    case (Cons v q)
    have "contents (pl_ring s) = map (\<lambda>i. fill i blank) [pl_received s..<pl_sent s]"
      using ok by (simp add: pipe_ok_def)
    then have "pl_received s < pl_sent s" using Cons by (cases "pl_received s < pl_sent s") simp_all
    moreover from this have "[pl_received s..<pl_sent s] = pl_received s # [pl_received s + 1..<pl_sent s]"
      by (simp add: upt_conv_Cons)
    ultimately show ?thesis
      using ok Cons peek_front [OF inv Cons, of False] read_front [OF inv Cons]
      by (simp add: s'_def consumer_turn_def pipe_ok_def Let_def)
  qed
qed

definition pipe_run ::
  "(nat \<Rightarrow> bytes \<Rightarrow> bytes) \<Rightarrow> (bytes \<Rightarrow> 'a \<Rightarrow> 'a) \<Rightarrow> nat \<Rightarrow> (nat \<Rightarrow> bool) \<Rightarrow> ('st, 'a) pipeline \<Rightarrow> nat \<Rightarrow> ('st, 'a) pipeline" where
  "pipe_run fill use n turn s0 t =
     play (producer_turn prepare_write slot_value store commit_write fill n)
       (consumer_turn peek_read fetch commit_read use n) turn t s0"

lemma pipe_run_0: "pipe_run fill use n turn s0 0 = s0"
  by (simp add: pipe_run_def)

lemma pipe_run_Suc:
  "pipe_run fill use n turn s0 (Suc t) =
     (if turn t then producer_turn prepare_write slot_value store commit_write fill n (pipe_run fill use n turn s0 t)
      else consumer_turn peek_read fetch commit_read use n (pipe_run fill use n turn s0 t))"
  by (simp add: pipe_run_def Let_def)

text \<open>At every moment of every schedule the consumer has worked on a prefix of what was sent.\<close>

lemma pipe_run_ok:
  assumes "pipe_ok fill use a0 n s0" "\<And>i. length (fill i blank) = value_size"
  shows "pipe_ok fill use a0 n (pipe_run fill use n turn s0 t)"
proof (induction t)
  case (Suc t)
  with producer_turn_ok [OF Suc assms(2)] consumer_turn_ok [OF Suc] show ?case
    by (simp add: pipe_run_Suc)
qed (simp add: pipe_run_0 assms(1))

lemma pipe_run_mono:
  assumes "pipe_ok fill use a0 n s0" "\<And>i. length (fill i blank) = value_size" "t \<le> u"
  shows "pl_sent (pipe_run fill use n turn s0 t) \<le> pl_sent (pipe_run fill use n turn s0 u)
    \<and> pl_received (pipe_run fill use n turn s0 t) \<le> pl_received (pipe_run fill use n turn s0 u)"
  using assms(3)
proof (induction u rule: dec_induct)
  case (step u)
  note ok = pipe_run_ok [OF assms(1,2), where turn = turn and t = u]
  from step producer_turn_ok [OF ok assms(2)] consumer_turn_ok [OF ok]
  show ?case by (auto simp: pipe_run_Suc)
qed simp

text \<open>
  Progress: as long as the pipeline has not finished, the thread that can move has a turn ahead of it,
  and either moves then or something has moved before.
\<close>

lemma pipe_progress:
  assumes ok: "pipe_ok fill use a0 n s0" and len: "\<And>i. length (fill i blank) = value_size"
    and "fair turn" "0 < limit" and busy: "\<not> finished n (pipe_run fill use n turn s0 t)"
  defines "d \<equiv> \<lambda>t. pl_sent (pipe_run fill use n turn s0 t) + pl_received (pipe_run fill use n turn s0 t)"
  shows "\<exists>u>t. d t < d u"
proof -
  let ?s = "pipe_run fill use n turn s0"
  note inv = pipe_run_ok [OF ok len, where turn = turn] and mono = pipe_run_mono [OF ok len, where turn = turn]
  have d_mono: "d t \<le> d u" if "t \<le> u" for u using mono [OF that] by (simp add: d_def)
  obtain u where u: "t \<le> u" "turn u \<longleftrightarrow> contents (pl_ring (?s t)) = []"
    using assms(3) unfolding fair_def by metis
  have "d t < d (Suc u)"
  proof (cases "d t < d u")
    case True
    also have "d u \<le> d (Suc u)" using mono [of u "Suc u"] by (simp add: d_def)
    finally show ?thesis .
  next
    case False
    with d_mono [OF u(1)] mono [OF u(1)]
    have same: "pl_sent (?s u) = pl_sent (?s t)" "pl_received (?s u) = pl_received (?s t)"
      by (simp_all add: d_def)
    then have cont: "contents (pl_ring (?s u)) = contents (pl_ring (?s t))"
      using inv [of u] inv [of t] by (simp add: pipe_ok_def)
    show ?thesis
    proof (cases "contents (pl_ring (?s t)) = []")
      case True
      then have "pl_sent (?s u) < n"
        using inv [of t] busy same by (auto simp: pipe_ok_def finished_def)
      with producer_turn_ok [OF inv [of u] len] True u(2) cont same assms(4) show ?thesis
        by (simp add: d_def pipe_run_Suc)
    next
      case False
      with consumer_turn_ok [OF inv [of u]] u(2) cont same show ?thesis
        by (simp add: d_def pipe_run_Suc)
    qed
  qed
  with u(1) show ?thesis by (intro exI [of _ "Suc u"]) simp
qed

lemma pipe_finishes:
  assumes ok: "pipe_ok fill use a0 n s0" and len: "\<And>i. length (fill i blank) = value_size"
    and fair: "fair turn" and "0 < limit"
  shows "\<exists>t. finished n (pipe_run fill use n turn s0 t)"
proof (rule ccontr)
  let ?d = "\<lambda>t. pl_sent (pipe_run fill use n turn s0 t) + pl_received (pipe_run fill use n turn s0 t)"
  assume "\<not> ?thesis"
  then have step: "\<exists>u. ?d t < ?d u" for t
    using pipe_progress [OF ok len fair assms(4), of t] by blast
  have "\<exists>t. k \<le> ?d t" for k
  proof (induction k)
    case (Suc k)
    then obtain t where "k \<le> ?d t" by blast
    with step [of t] show ?case by (meson Suc_leI order.strict_trans1)
  qed simp
  then obtain t where "Suc (n + n) \<le> ?d t" by blast
  with pipe_run_ok [OF ok len, where turn = turn and t = t] show False by (simp add: pipe_ok_def)
qed

text \<open>The same from the start of both loops, for the clients of the interface.\<close>

lemma pipe_start:
  "inv r \<Longrightarrow> contents r = [] \<Longrightarrow>
     pipe_ok fill use a0 n \<lparr>pl_ring = r, pl_sent = 0, pl_received = 0, pl_acc = a0\<rparr>"
  by (simp add: pipe_ok_def)

lemma pipeline_safe:
  fixes use :: "bytes \<Rightarrow> 'a \<Rightarrow> 'a" and a0 :: 'a and n t :: nat and turn :: "nat \<Rightarrow> bool"
  assumes "inv r" "contents r = []" "\<And>i. length (fill i blank) = value_size"
  defines "s \<equiv> play (producer_turn prepare_write slot_value store commit_write fill n)
      (consumer_turn peek_read fetch commit_read use n) turn t
      \<lparr>pl_ring = r, pl_sent = 0, pl_received = 0, pl_acc = a0\<rparr>"
  shows "inv (pl_ring s) \<and> pl_sent s \<le> n \<and> pl_received s \<le> pl_sent s \<and> pl_sent s \<le> pl_received s + limit
    \<and> contents (pl_ring s) = map (\<lambda>i. fill i blank) [pl_received s..<pl_sent s]
    \<and> pl_acc s = fold use (map (\<lambda>i. fill i blank) [0..<pl_received s]) a0"
proof -
  let ?s0 = "\<lparr>pl_ring = r, pl_sent = 0, pl_received = 0, pl_acc = a0\<rparr>"
  have start: "pipe_ok fill use a0 n ?s0" by (rule pipe_start [OF assms(1,2)])
  have "pipe_ok fill use a0 n s"
    using pipe_run_ok [OF start assms(3)] unfolding s_def pipe_run_def .
  with bounded [of "pl_ring s"] show ?thesis by (auto simp: pipe_ok_def)
qed

lemma pipeline_finishes:
  assumes "inv r" "contents r = []" "\<And>i. length (fill i blank) = value_size" "fair turn" "0 < limit"
  obtains t where "finished n (play (producer_turn prepare_write slot_value store commit_write fill n)
      (consumer_turn peek_read fetch commit_read use n) turn t
      \<lparr>pl_ring = r, pl_sent = 0, pl_received = 0, pl_acc = a0\<rparr>)"
proof -
  let ?s0 = "\<lparr>pl_ring = r, pl_sent = 0, pl_received = 0, pl_acc = a0\<rparr>"
  have "pipe_ok fill use a0 n ?s0" by (rule pipe_start [OF assms(1,2)])
  from pipe_finishes [OF this assms(3-5)] that show thesis unfolding pipe_run_def by blast
qed

end

lemma fold_same: "(\<And>x a. x \<in> set xs \<Longrightarrow> f x a = g a) \<Longrightarrow> fold f xs a = (g ^^ length xs) a"
  by (induction xs arbitrary: a) (simp_all add: funpow_swap1)

end
