(* ===== verification/Example_Imu.thy ===== *)
theory Example_Imu
  imports Object_Layout Pipeline
begin

text \<open>
  Model of \<open>examples/imu_telemetry.cpp\<close>: a packet written and viewed in a buffer on the stack, and two
  threads that stream 50000 samples through an \<open>SpscRingBuffer\<close> of 4096 slots. Values of type \<open>float\<close>
  are their IEEE bit patterns; the floating-point addition of the consumer is a parameter. Printing
  and the clock are left out.
\<close>

section \<open>The message\<close>

definition ImuSample_struct :: ctype where
  "ImuSample_struct = CStruct False
     [(''timestamp_ns'', CScalar 8), (''accel_x'', CScalar 4), (''accel_y'', CScalar 4), (''accel_z'', CScalar 4),
      (''gyro_x'', CScalar 4), (''gyro_y'', CScalar 4), (''gyro_z'', CScalar 4)]"

definition ImuSample :: msgtype where
  "ImuSample = struct_message ''ImuSample'' 42 1 ImuSample_struct id"

definition imu_values :: "endian \<Rightarrow> u64 \<Rightarrow> u32 \<Rightarrow> u32 \<Rightarrow> u32 \<Rightarrow> u32 \<Rightarrow> u32 \<Rightarrow> u32 \<Rightarrow> field_writes" where
  "imu_values e t ax ay az gx gy gz = assign_members ImuSample_struct
     [(''timestamp_ns'', obj_of_word e 8 t), (''accel_x'', obj_of_word e 4 ax), (''accel_y'', obj_of_word e 4 ay),
      (''accel_z'', obj_of_word e 4 az), (''gyro_x'', obj_of_word e 4 gx), (''gyro_y'', obj_of_word e 4 gy),
      (''gyro_z'', obj_of_word e 4 gz)]"

lemma ImuSample_wf: "wf_ctype ImuSample_struct" and ImuSample_size [simp]: "csize ImuSample_struct = 32"
  and ImuSample_align [simp]: "calign ImuSample_struct = 8"
  by (simp_all add: ImuSample_struct_def align_up_def)

lemma ImuSample_sel [simp]:
  "mt_sizeof ImuSample = 32" "mt_alignof ImuSample = 8" "mt_construct ImuSample = id"
  "mt_id ImuSample = 42" "mt_version ImuSample = 1"
  by (simp_all add: ImuSample_def) (simp add: struct_message_def register_message_def)

lemma ImuSample_valid [simp]: "is_valid_message ImuSample"
  unfolding ImuSample_def by (rule struct_message_valid) (simp_all add: ImuSample_wf)

lemma imu_values_eq:
  "imu_values e t ax ay az gx gy gz =
     [(0, obj_of_word e 8 t), (8, obj_of_word e 4 ax), (12, obj_of_word e 4 ay), (16, obj_of_word e 4 az),
      (20, obj_of_word e 4 gx), (24, obj_of_word e 4 gy), (28, obj_of_word e 4 gz)]"
  by (simp add: imu_values_def assign_members_def ImuSample_struct_def offsets_def align_up_def)

lemma imu_values_inside [simp]: "fields_inside 32 (imu_values e t ax ay az gx gy gz)"
  by (simp add: imu_values_eq fields_inside_def)

lemma imu_offset_z: "member_of ImuSample_struct ''accel_z'' 4 = slice 16 4"
  by (simp add: member_of_def ImuSample_struct_def offsets_def align_up_def fun_eq_iff)

section \<open>Steps 1 and 2: a packet on the stack\<close>

text \<open>\<open>None\<close> stands for the exit code 1; otherwise what the program prints of the packet.\<close>

definition imu_wire_demo :: "endian \<Rightarrow> mem \<Rightarrow> ptr \<Rightarrow> (nat \<times> header \<times> bytes) option" where
  "imu_wire_demo e m buffer =
     (let (sample, m) = prepare_array e ImuSample m buffer (message_size ImuSample) in
      if sample = nullptr then None
      else
        let m = write_fields m sample
              (imu_values e 1700000000000 0x3C449BA6 0xBD3851EC 0x411CE560 0x3A83126F 0xBB03126F 0x3A03126F);
            (packet_size, m) = finalize e ImuSample m sample True;
            v = view e ImuSample m buffer packet_size True in
        if v = nullptr then None
        else Some (packet_size, get_header e m v, read_bytes m v (mt_sizeof ImuSample)))"

section \<open>Step 3: the pipeline\<close>

definition imu_fill :: "endian \<Rightarrow> nat \<Rightarrow> bytes \<Rightarrow> bytes" where
  "imu_fill e i = apply_fields (imu_values e (of_nat i * 100000) 0 0 0x411CF5C3 0 0 0)"

definition imu_use :: "endian \<Rightarrow> (u64 \<Rightarrow> u32 \<Rightarrow> u64) \<Rightarrow> bytes \<Rightarrow> u64 \<Rightarrow> u64" where
  "imu_use e add sample sum_az = add sum_az (word_of_obj e (member_of ImuSample_struct ''accel_z'' 4 sample))"

definition imu_producer :: "endian \<Rightarrow> (u64 spsc \<times> mem, u64) pipeline \<Rightarrow> (u64 spsc \<times> mem, u64) pipeline" where
  "imu_producer e = producer_turn (spsc_prepare_write e ImuSample 4096) (spsc_fetch ImuSample) spsc_store
     (spsc_commit_write e ImuSample 4096) (imu_fill e) 50000"

definition imu_consumer ::
  "endian \<Rightarrow> (u64 \<Rightarrow> u32 \<Rightarrow> u64) \<Rightarrow> (u64 spsc \<times> mem, u64) pipeline \<Rightarrow> (u64 spsc \<times> mem, u64) pipeline" where
  "imu_consumer e add = consumer_turn (spsc_peek_read e ImuSample 4096) (spsc_fetch ImuSample) spsc_commit_read
     (imu_use e add) 50000"

text \<open>The ring on the heap, with its slots at \<open>slots\<close>, and both threads at the start of their loops.\<close>

definition imu_start :: "ptr \<Rightarrow> mem \<Rightarrow> (u64 spsc \<times> mem, u64) pipeline" where
  "imu_start slots m = \<lparr>pl_ring = (spsc_new slots, m), pl_sent = 0, pl_received = 0, pl_acc = 0\<rparr>"

definition imu_pipeline ::
  "endian \<Rightarrow> (u64 \<Rightarrow> u32 \<Rightarrow> u64) \<Rightarrow> ptr \<Rightarrow> mem \<Rightarrow> (nat \<Rightarrow> bool) \<Rightarrow> nat \<Rightarrow> (u64 spsc \<times> mem, u64) pipeline" where
  "imu_pipeline e add slots m turn t = play (imu_producer e) (imu_consumer e add) turn t (imu_start slots m)"

lemma imu_fill_length: "length slot = 32 \<Longrightarrow> length (imu_fill e i slot) = 32"
  by (simp add: imu_fill_def)

lemma imu_fill_z: "length slot = 32 \<Longrightarrow> imu_use e add (imu_fill e i slot) a = add a 0x411CF5C3"
  by (simp add: imu_use_def imu_offset_z imu_fill_def imu_values_eq slice_splice_same slice_splice_other)

lemma capacity_4096: "capacity_ok (4096 :: u64)"
  by (simp add: capacity_ok_def)

text \<open>The ring as the two threads find it.\<close>

lemma imu_ring:
  assumes "slots_ok ImuSample slots"
  shows "spsc_inv e ImuSample (4096 :: u64) (spsc_new slots, m)"
    "spsc_contents e ImuSample (4096 :: u64) (spsc_new slots, m) = []"
  using spsc_inv_new [OF capacity_4096 assms] by blast+

lemma imu_blank: "length (imu_fill e i (mt_construct ImuSample (replicate (mt_sizeof ImuSample) 0))) = mt_sizeof ImuSample"
  by (simp add: imu_fill_length)

section \<open>Properties of the example\<close>

text \<open>
  Steps 1 and 2: in any buffer of 48 bytes aligned for the message, whatever it held, the program
  gets its packet back: 48 bytes, the header of an \<open>ImuSample\<close>, and the seven values it stored.
\<close>

theorem imu_wire_demo_succeeds:
  assumes "buffer \<noteq> nullptr" "8 dvd buffer"
  shows "\<exists>hdr. imu_wire_demo e m buffer = Some (48, hdr, apply_fields
      (imu_values e 1700000000000 0x3C449BA6 0xBD3851EC 0x411CE560 0x3A83126F 0xBB03126F 0x3A03126F) (replicate 32 0))
    \<and> h_magic hdr = SINEW_MAGIC \<and> h_msg_id hdr = 42 \<and> h_version hdr = 1 \<and> unat (h_payload_len hdr) = 32"
proof -
  let ?fs = "imu_values e 1700000000000 0x3C449BA6 0xBD3851EC 0x411CE560 0x3A83126F 0xBB03126F 0x3A03126F"
  let ?m = "write_fields (prepared e ImuSample m buffer) (buffer + 16) ?fs"
  let ?m' = "slot_seal e ImuSample True ?m buffer"
  have fits: "fits ImuSample buffer" using assms by (simp add: fits_def)
  have size: "message_size ImuSample = 48" by (simp add: message_size_eq)
  have ready: "stamped e ImuSample ?m buffer"
    by (intro stamped_write_fields stamped_prepared ImuSample_valid)
  have payload: "read_bytes ?m (buffer + 16) 32 = apply_fields ?fs (replicate 32 0)"
    using read_prepared_payload [OF ImuSample_valid, of e m buffer] by (simp add: read_write_fields)
  have look: "slot_look e ImuSample True ?m' buffer = Some (apply_fields ?fs (replicate 32 0))"
    using wire.look_seal [OF fits ready] payload by simp
  then have "validate e ImuSample ?m' buffer 48 True = Ok"
    "read_bytes ?m' (buffer + 16) 32 = apply_fields ?fs (replicate 32 0)"
    using size by (simp_all add: slot_look_Some)
  moreover from this have "view e ImuSample ?m' buffer 48 True = buffer + 16"
    by (simp add: view_def sizeof_Header_def)
  moreover have "finalize e ImuSample ?m (buffer + 16) True = (48, ?m')"
    by (simp add: slot_seal_def finalize_def sizeof_Header_def Let_def)
  moreover have "prepare_array e ImuSample m buffer 48 = (buffer + 16, prepared e ImuSample m buffer)"
    using fits size by (simp add: prepare_array_def)
  ultimately show ?thesis
    using size by (auto simp: imu_wire_demo_def get_header_def validate_Ok_iff sizeof_Header_def)
qed

theorem imu_wire_demo_succeeds_witness:
  "\<exists>hdr obj. imu_wire_demo Little dirty 64 = Some (48, hdr, obj) \<and> h_msg_id hdr = 42"
  using imu_wire_demo_succeeds [of 64 Little dirty] by (auto simp: nullptr_def)

text \<open>
  C17. Step 3 ends under every fair schedule of the two threads, and at no moment before are more than
  4096 samples in flight. When it has ended, the consumer has received 50000 samples, has added
  9.81 (as a \<open>float\<close>) once for each of them to its sum, and the ring is empty.
\<close>

theorem imu_pipeline_terminates:
  assumes "slots_ok ImuSample slots" "fair turn"
  shows "(\<exists>t. finished 50000 (imu_pipeline e add slots m turn t)
        \<and> pl_acc (imu_pipeline e add slots m turn t) = ((\<lambda>a. add a 0x411CF5C3) ^^ 50000) 0
        \<and> spsc_contents e ImuSample 4096 (pl_ring (imu_pipeline e add slots m turn t)) = [])
    \<and> (\<forall>t. pl_sent (imu_pipeline e add slots m turn t) \<le> pl_received (imu_pipeline e add slots m turn t) + 4096)"
proof -
  let ?s = "imu_pipeline e add slots m turn" and ?use = "imu_use e add"
  note start = imu_ring [OF assms(1), of e m]
  have safe: "pl_received (?s t) \<le> 50000 \<and> pl_sent (?s t) \<le> pl_received (?s t) + 4096
      \<and> spsc_contents e ImuSample 4096 (pl_ring (?s t)) = map (\<lambda>i. imu_fill e i (replicate 32 0)) [pl_received (?s t)..<pl_sent (?s t)]
      \<and> pl_acc (?s t) = fold ?use (map (\<lambda>i. imu_fill e i (replicate 32 0)) [0..<pl_received (?s t)]) 0" for t
    using spsc.pipeline_safe [where fill = "imu_fill e" and n = 50000 and use = ?use and ?a0.0 = 0 and turn = turn and t = t,
        OF start imu_blank]
    by (simp add: imu_pipeline_def imu_producer_def imu_consumer_def imu_start_def)
  obtain t where t: "finished 50000 (?s t)"
    using spsc.pipeline_finishes [where fill = "imu_fill e" and n = 50000 and use = ?use and ?a0.0 = 0,
        OF start imu_blank assms(2)]
    by (auto simp: imu_pipeline_def imu_producer_def imu_consumer_def imu_start_def)
  have "fold ?use (map (\<lambda>i. imu_fill e i (replicate 32 0)) [0..<50000]) 0 = ((\<lambda>a. add a 0x411CF5C3) ^^ 50000) 0"
    by (subst fold_same [where g = "\<lambda>a. add a 0x411CF5C3"]) (auto simp: imu_fill_z simp del: upt_Suc)
  with t safe [of t] have "pl_acc (?s t) = ((\<lambda>a. add a 0x411CF5C3) ^^ 50000) 0
      \<and> spsc_contents e ImuSample 4096 (pl_ring (?s t)) = []"
    unfolding finished_def by simp
  with t safe show ?thesis by blast
qed

theorem imu_pipeline_terminates_witness:
  "\<exists>t. finished 50000 (imu_pipeline Little (\<lambda>a x. a + 1) 64 dirty even t)
     \<and> pl_acc (imu_pipeline Little (\<lambda>a x. a + 1) 64 dirty even t) = ((\<lambda>a. a + 1) ^^ 50000) 0"
  using imu_pipeline_terminates [OF _ fair_even, of 64 Little "\<lambda>a x. a + 1" dirty]
  by (auto simp: slots_ok_def nullptr_def)

end
