(* ===== verification/Containers.thy ===== *)
theory Containers
  imports Simulation
begin

text \<open>
  Model of \<open>include/sinew/containers.hpp\<close>: the fixed-capacity vector and string that are embedded
  in messages. \<open>Capacity\<close> is a \<open>size_t\<close> (64 bits), the size field a \<open>uint32_t\<close>. Both containers
  are plain bytes on the wire, so their size field can hold any value; an access outside the
  array, undefined in C++, is the outcome \<open>Undefined\<close>.
\<close>

section \<open>Outcomes and array accesses\<close>

text \<open>
  How the library was built: \<open>SINEW_HAS_EXCEPTIONS\<close>, or without exceptions and with or without
  \<open>NDEBUG\<close>.
\<close>

datatype build = Exceptions | No_Exceptions_Debug | No_Exceptions_Release

datatype 'a outcome = Value 'a | Out_Of_Range | Assertion_Failed | Undefined

definition array_get :: "'a list \<Rightarrow> nat \<Rightarrow> 'a outcome" where
  "array_get xs i = (if i < length xs then Value (xs ! i) else Undefined)"

definition array_set :: "'a list \<Rightarrow> nat \<Rightarrow> 'a \<Rightarrow> 'a list outcome" where
  "array_set xs i v = (if i < length xs then Value (xs[i := v]) else Undefined)"

fun and_then :: "'a outcome \<Rightarrow> ('a \<Rightarrow> 'b outcome) \<Rightarrow> 'b outcome" where
  "and_then (Value x) f = f x"
| "and_then Out_Of_Range f = Out_Of_Range"
| "and_then Assertion_Failed f = Assertion_Failed"
| "and_then Undefined f = Undefined"

text \<open>The element read shared by the four \<open>at\<close> members.\<close>

definition checked_at :: "build \<Rightarrow> 'a list \<Rightarrow> u32 \<Rightarrow> u32 \<Rightarrow> 'a outcome" where
  "checked_at b data sz index =
     (if sz \<le> index then
        (case b of Exceptions \<Rightarrow> Out_Of_Range
                 | No_Exceptions_Debug \<Rightarrow> Assertion_Failed
                 | No_Exceptions_Release \<Rightarrow> array_get data 0)
      else array_get data (unat index))"

section \<open>StaticVector\<close>

record 'a static_vector =
  sv_data :: "'a list"
  sv_size :: u32

text \<open>\<open>zero\<close> is the value-initialised element \<open>T{}\<close>.\<close>

definition sv_new :: "u64 \<Rightarrow> 'a \<Rightarrow> 'a static_vector" where
  "sv_new cap zero = \<lparr>sv_data = replicate (unat cap) zero, sv_size = 0\<rparr>"

definition sv_capacity :: "u64 \<Rightarrow> u32" where
  "sv_capacity cap = ucast cap"

definition sv_empty :: "'a static_vector \<Rightarrow> bool" where
  "sv_empty v \<longleftrightarrow> sv_size v = 0"

definition sv_full :: "u64 \<Rightarrow> 'a static_vector \<Rightarrow> bool" where
  "sv_full cap v \<longleftrightarrow> cap \<le> ucast (sv_size v)"

definition sv_clear :: "'a static_vector \<Rightarrow> 'a static_vector" where
  "sv_clear v = v\<lparr>sv_size := 0\<rparr>"

definition sv_push_back :: "u64 \<Rightarrow> 'a \<Rightarrow> 'a static_vector \<Rightarrow> bool \<times> 'a static_vector" where
  "sv_push_back cap x v =
     (if cap \<le> ucast (sv_size v) then (False, v)
      else (True, v\<lparr>sv_data := (sv_data v)[unat (sv_size v) := x], sv_size := sv_size v + 1\<rparr>))"

text \<open>\<open>emplace_back(args...)\<close>: \<open>ctor\<close> is the construction \<open>T{args...}\<close>, run after the check.\<close>

definition sv_emplace_back ::
  "u64 \<Rightarrow> (unit \<Rightarrow> 'a) \<Rightarrow> 'a static_vector \<Rightarrow> bool \<times> 'a static_vector" where
  "sv_emplace_back cap ctor v =
     (if cap \<le> ucast (sv_size v) then (False, v)
      else (True, v\<lparr>sv_data := (sv_data v)[unat (sv_size v) := ctor ()], sv_size := sv_size v + 1\<rparr>))"

definition sv_pop_back :: "'a static_vector \<Rightarrow> bool \<times> 'a static_vector" where
  "sv_pop_back v =
     (if sv_size v = 0 then (False, v) else (True, v\<lparr>sv_size := sv_size v - 1\<rparr>))"

definition sv_resize :: "u64 \<Rightarrow> u32 \<Rightarrow> 'a \<Rightarrow> 'a static_vector \<Rightarrow> bool \<times> 'a static_vector" where
  "sv_resize cap new_size default_value v =
     (if cap < ucast new_size then (False, v)
      else
        let data = fold (\<lambda>i data. data[i := default_value])
                     [unat (sv_size v)..<unat new_size] (sv_data v)
        in (True, v\<lparr>sv_data := data, sv_size := new_size\<rparr>))"

definition sv_index :: "'a static_vector \<Rightarrow> u32 \<Rightarrow> 'a outcome" where
  "sv_index v index = array_get (sv_data v) (unat index)"

definition sv_at :: "build \<Rightarrow> 'a static_vector \<Rightarrow> u32 \<Rightarrow> 'a outcome" where
  "sv_at b v index = checked_at b (sv_data v) (sv_size v) index"

definition sv_front :: "'a static_vector \<Rightarrow> 'a outcome" where
  "sv_front v = array_get (sv_data v) 0"

definition sv_back :: "'a static_vector \<Rightarrow> 'a outcome" where
  "sv_back v = array_get (sv_data v) (unat (if 0 < sv_size v then sv_size v - 1 else 0))"

text \<open>The range \<open>[begin(), end())\<close>.\<close>

definition sv_range :: "'a static_vector \<Rightarrow> 'a list outcome" where
  "sv_range v = (if unat (sv_size v) \<le> length (sv_data v)
     then Value (take (unat (sv_size v)) (sv_data v)) else Undefined)"

text \<open>\<open>operator==\<close>, with the element comparison \<open>eq\<close>.\<close>

fun eq_loop :: "('a \<Rightarrow> 'a \<Rightarrow> bool) \<Rightarrow> 'a list \<Rightarrow> 'a list \<Rightarrow> nat list \<Rightarrow> bool outcome" where
  "eq_loop eq xs ys [] = Value True"
| "eq_loop eq xs ys (i # is) =
     and_then (array_get xs i) (\<lambda>x. and_then (array_get ys i) (\<lambda>y.
       if \<not> eq x y then Value False else eq_loop eq xs ys is))"

definition sv_equal ::
  "('a \<Rightarrow> 'a \<Rightarrow> bool) \<Rightarrow> 'a static_vector \<Rightarrow> 'a static_vector \<Rightarrow> bool outcome" where
  "sv_equal eq v other =
     (if sv_size v \<noteq> sv_size other then Value False
      else eq_loop eq (sv_data v) (sv_data other) [0..<unat (sv_size v)])"

definition sv_not_equal ::
  "('a \<Rightarrow> 'a \<Rightarrow> bool) \<Rightarrow> 'a static_vector \<Rightarrow> 'a static_vector \<Rightarrow> bool outcome" where
  "sv_not_equal eq v other = and_then (sv_equal eq v other) (\<lambda>b. Value (\<not> b))"

section \<open>StaticString\<close>

text \<open>A \<open>std::string_view\<close> is its characters; a \<open>const char*\<close> is null or the characters before the
  terminator.\<close>

record static_string =
  ss_data :: string
  ss_size :: u32

definition NUL :: char where
  "NUL = CHR 0x00"

definition ss_zero :: "u64 \<Rightarrow> static_string" where
  "ss_zero cap = \<lparr>ss_data = replicate (unat cap + 1) NUL, ss_size = 0\<rparr>"

definition ss_new :: "u64 \<Rightarrow> static_string" where
  "ss_new cap = (ss_zero cap)\<lparr>ss_data := (ss_data (ss_zero cap))[0 := NUL]\<rparr>"

text \<open>The copy loop \<open>data_[at + i] = sv[i]\<close> for \<open>i < n\<close>.\<close>

fun copy_chars :: "string \<Rightarrow> nat \<Rightarrow> string \<Rightarrow> string outcome" where
  "copy_chars data at [] = Value data"
| "copy_chars data at (c # cs) =
     and_then (array_set data at c) (\<lambda>data. copy_chars data (at + 1) cs)"

definition ss_assign :: "u64 \<Rightarrow> string \<Rightarrow> static_string \<Rightarrow> (bool \<times> static_string) outcome" where
  "ss_assign cap sv s =
     (let copy_len = (if length sv < unat cap then length sv else unat cap) in
      and_then (copy_chars (ss_data s) 0 (take copy_len sv)) (\<lambda>data.
      and_then (array_set data copy_len NUL) (\<lambda>data.
        Value (length sv \<le> unat cap, s\<lparr>ss_data := data, ss_size := of_nat copy_len\<rparr>))))"

definition ss_append :: "u64 \<Rightarrow> string \<Rightarrow> static_string \<Rightarrow> (bool \<times> static_string) outcome" where
  "ss_append cap sv s =
     (let available = unat (cap - ucast (ss_size s));
          copy_len = (if length sv < available then length sv else available) in
      and_then (copy_chars (ss_data s) (unat (ss_size s)) (take copy_len sv)) (\<lambda>data.
        let sz = ss_size s + of_nat copy_len in
      and_then (array_set data (unat sz) NUL) (\<lambda>data.
        Value (length sv \<le> available, s\<lparr>ss_data := data, ss_size := sz\<rparr>))))"

definition ss_clear :: "static_string \<Rightarrow> static_string" where
  "ss_clear s = s\<lparr>ss_size := 0, ss_data := (ss_data s)[0 := NUL]\<rparr>"

definition ss_of_view :: "u64 \<Rightarrow> string \<Rightarrow> static_string outcome" where
  "ss_of_view cap sv = and_then (ss_assign cap sv (ss_zero cap)) (\<lambda>(_, s). Value s)"

definition ss_of_cstr :: "u64 \<Rightarrow> string option \<Rightarrow> static_string outcome" where
  "ss_of_cstr cap p = (case p of None \<Rightarrow> Value (ss_zero cap) | Some sv \<Rightarrow> ss_of_view cap sv)"

definition ss_set_view :: "u64 \<Rightarrow> string \<Rightarrow> static_string \<Rightarrow> static_string outcome" where
  "ss_set_view cap sv s = and_then (ss_assign cap sv s) (\<lambda>(_, s). Value s)"

definition ss_set_cstr :: "u64 \<Rightarrow> string option \<Rightarrow> static_string \<Rightarrow> static_string outcome" where
  "ss_set_cstr cap p s = (case p of None \<Rightarrow> Value (ss_clear s) | Some sv \<Rightarrow> ss_set_view cap sv s)"

definition ss_capacity :: "u64 \<Rightarrow> u32" where
  "ss_capacity cap = ucast cap"

definition ss_empty :: "static_string \<Rightarrow> bool" where
  "ss_empty s \<longleftrightarrow> ss_size s = 0"

definition ss_full :: "u64 \<Rightarrow> static_string \<Rightarrow> bool" where
  "ss_full cap s \<longleftrightarrow> cap \<le> ucast (ss_size s)"

definition ss_view :: "static_string \<Rightarrow> string outcome" where
  "ss_view s = (if unat (ss_size s) \<le> length (ss_data s)
     then Value (take (unat (ss_size s)) (ss_data s)) else Undefined)"

text \<open>What a C function reads from \<open>c_str()\<close>: the characters up to the first terminator.\<close>

definition ss_c_str :: "static_string \<Rightarrow> string outcome" where
  "ss_c_str s = (if NUL \<in> set (ss_data s) then Value (takeWhile (\<lambda>c. c \<noteq> NUL) (ss_data s))
     else Undefined)"

definition ss_front :: "static_string \<Rightarrow> char outcome" where
  "ss_front s = array_get (ss_data s) 0"

definition ss_back :: "static_string \<Rightarrow> char outcome" where
  "ss_back s = array_get (ss_data s) (unat (if 0 < ss_size s then ss_size s - 1 else 0))"

definition ss_index :: "static_string \<Rightarrow> u32 \<Rightarrow> char outcome" where
  "ss_index s index = array_get (ss_data s) (unat index)"

definition ss_at :: "build \<Rightarrow> static_string \<Rightarrow> u32 \<Rightarrow> char outcome" where
  "ss_at b s index = checked_at b (ss_data s) (ss_size s) index"

definition ss_equal_view :: "static_string \<Rightarrow> string \<Rightarrow> bool outcome" where
  "ss_equal_view s other = and_then (ss_view s) (\<lambda>x. Value (x = other))"

definition ss_equal :: "static_string \<Rightarrow> static_string \<Rightarrow> bool outcome" where
  "ss_equal s other = and_then (ss_view s) (\<lambda>x. and_then (ss_view other) (\<lambda>y. Value (x = y)))"

definition ss_length :: "static_string \<Rightarrow> u32" where
  "ss_length s = ss_size s"

text \<open>The range \<open>[begin(), end())\<close>, and what \<open>operator<<\<close> hands to the stream.\<close>

definition ss_range :: "static_string \<Rightarrow> string outcome" where
  "ss_range s = (if unat (ss_size s) \<le> length (ss_data s)
     then Value (map (\<lambda>i. ss_data s ! i) [0..<unat (ss_size s)]) else Undefined)"

definition ss_print :: "('os \<Rightarrow> string \<Rightarrow> 'os) \<Rightarrow> 'os \<Rightarrow> static_string \<Rightarrow> 'os outcome" where
  "ss_print put os s = and_then (ss_view s) (\<lambda>sv. Value (put os sv))"

lemma ss_range_view: "ss_range s = ss_view s"
  by (auto simp: ss_range_def ss_view_def intro: nth_equalityI)

section \<open>The vector as a bounded list\<close>

datatype 'a vec_op = PushBack 'a | PopBack | Clear | Resize u32 'a | IsEmpty | IsFull | Size

datatype vec_out = Flag bool | Count nat

definition sv_call :: "u64 \<Rightarrow> 'a static_vector \<Rightarrow> 'a vec_op \<Rightarrow> vec_out \<times> 'a static_vector" where
  "sv_call cap v x = (case x of
     PushBack y \<Rightarrow> (case sv_push_back cap y v of (ok, v') \<Rightarrow> (Flag ok, v'))
   | PopBack \<Rightarrow> (case sv_pop_back v of (ok, v') \<Rightarrow> (Flag ok, v'))
   | Clear \<Rightarrow> (Flag True, sv_clear v)
   | Resize n d \<Rightarrow> (case sv_resize cap n d v of (ok, v') \<Rightarrow> (Flag ok, v'))
   | IsEmpty \<Rightarrow> (Flag (sv_empty v), v)
   | IsFull \<Rightarrow> (Flag (sv_full cap v), v)
   | Size \<Rightarrow> (Count (unat (sv_size v)), v))"

text \<open>The specification: a list of at most \<open>n\<close> elements, extended and shortened at its end.\<close>

fun list_step :: "nat \<Rightarrow> 'a list \<Rightarrow> 'a vec_op \<Rightarrow> vec_out \<times> 'a list" where
  "list_step n xs (PushBack x) = (if length xs < n then (Flag True, xs @ [x]) else (Flag False, xs))"
| "list_step n xs PopBack = (Flag (xs \<noteq> []), butlast xs)"
| "list_step n xs Clear = (Flag True, [])"
| "list_step n xs (Resize k d) =
     (if unat k \<le> n then (Flag True, take (unat k) xs @ replicate (unat k - length xs) d)
      else (Flag False, xs))"
| "list_step n xs IsEmpty = (Flag (xs = []), xs)"
| "list_step n xs IsFull = (Flag (n \<le> length xs), xs)"
| "list_step n xs Size = (Count (length xs), xs)"

definition sv_inv :: "u64 \<Rightarrow> 'a static_vector \<Rightarrow> bool" where
  "sv_inv cap v \<longleftrightarrow> length (sv_data v) = unat cap \<and> 0 < unat cap \<and> unat cap < 2 ^ 32
     \<and> unat (sv_size v) \<le> unat cap"

definition sv_list :: "'a static_vector \<Rightarrow> 'a list" where
  "sv_list v = take (unat (sv_size v)) (sv_data v)"

lemma length_sv_list [simp]: "sv_inv cap v \<Longrightarrow> length (sv_list v) = unat (sv_size v)"
  by (simp add: sv_inv_def sv_list_def)

lemma sv_list_empty: "sv_inv cap v \<Longrightarrow> sv_list v = [] \<longleftrightarrow> sv_size v = 0"
  using length_sv_list [of cap v] by (metis length_0_conv unat_eq_0)

lemma sv_new_spec:
  "0 < unat cap \<Longrightarrow> unat cap < 2 ^ 32 \<Longrightarrow> sv_inv cap (sv_new cap z) \<and> sv_list (sv_new cap z) = []"
  by (simp add: sv_inv_def sv_list_def sv_new_def)

text \<open>The \<open>uint32_t\<close> counter does not wrap around below the capacity.\<close>

lemma counter_Suc: "unat (n :: u32) < k \<Longrightarrow> k < 2 ^ 32 \<Longrightarrow> unat (n + 1) = Suc (unat n)"
  by (simp add: unat_word_ariths)

lemma counter_pred: "n \<noteq> 0 \<Longrightarrow> unat (n - 1 :: u32) = unat n - 1"
  by (simp add: unat_minus_one)

lemma sv_push_back_spec:
  assumes "sv_inv cap v" "sv_push_back cap x v = (ok, v')"
  shows "sv_inv cap v' \<and> list_step (unat cap) (sv_list v) (PushBack x) = (Flag ok, sv_list v')"
proof (cases "unat (sv_size v) < unat cap")
  case True
  with assms(1) have "unat (sv_size v + 1) = Suc (unat (sv_size v))"
    by (intro counter_Suc) (auto simp: sv_inv_def)
  with assms True show ?thesis
    by (auto simp: sv_push_back_def sv_inv_def sv_list_def word_le_nat_alt take_Suc_conv_app_nth
        not_le)
next
  case False
  with assms show ?thesis
    by (auto simp: sv_push_back_def word_le_nat_alt)
qed

lemma sv_pop_back_spec:
  assumes "sv_inv cap v" "sv_pop_back v = (ok, v')"
  shows "sv_inv cap v' \<and> list_step n (sv_list v) PopBack = (Flag ok, sv_list v')"
proof (cases "sv_size v = 0")
  case True
  with assms show ?thesis by (auto simp: sv_pop_back_def sv_list_def)
next
  case False
  with assms counter_pred [OF False] show ?thesis
    by (auto simp: sv_pop_back_def sv_inv_def sv_list_def butlast_take unat_eq_0)
qed

text \<open>The fill loop of \<open>resize\<close>.\<close>

lemma fill_loop:
  assumes "n \<le> length xs" "k \<le> n"
  shows "fold (\<lambda>i xs. xs[i := d]) [k..<n] xs = take k xs @ replicate (n - k) d @ drop n xs"
  using assms
proof (induction "n - k" arbitrary: k xs)
  case 0
  then show ?case by simp
next
  case (Suc j)
  then have "fold (\<lambda>i xs. xs[i := d]) [k..<n] xs = fold (\<lambda>i xs. xs[i := d]) [Suc k..<n] (xs[k := d])"
    by (simp add: upt_conv_Cons)
  also have "\<dots> = take (Suc k) (xs[k := d]) @ replicate (n - Suc k) d @ drop n (xs[k := d])"
    using Suc by (intro Suc.hyps) simp_all
  also have "\<dots> = take k xs @ replicate (n - k) d @ drop n xs"
    using Suc by (simp add: take_Suc_conv_app_nth Suc_diff_le [symmetric] flip: replicate_Suc)
  finally show ?case .
qed

lemma sv_resize_spec:
  assumes "sv_inv cap v" "sv_resize cap k d v = (ok, v')"
  shows "sv_inv cap v' \<and> list_step (unat cap) (sv_list v) (Resize k d) = (Flag ok, sv_list v')"
proof (cases "unat k \<le> unat cap")
  case False
  with assms show ?thesis by (auto simp: sv_resize_def word_less_nat_alt)
next
  case le: True
  then have v': "ok" "v' = v\<lparr>sv_data := fold (\<lambda>i xs. xs[i := d]) [unat (sv_size v)..<unat k] (sv_data v),
      sv_size := k\<rparr>"
    using assms(2) by (auto simp: sv_resize_def word_less_nat_alt)
  show ?thesis
  proof (cases "unat (sv_size v) \<le> unat k")
    case True
    with assms(1) le show ?thesis
      by (auto simp: v' sv_inv_def sv_list_def fill_loop min_def)
  next
    case False
    with assms(1) le show ?thesis
      by (simp add: v' sv_inv_def sv_list_def min_def)
  qed
qed

interpretation static_vector: simulation "sv_inv cap" sv_list "\<lambda>_. True" "sv_call cap"
  "list_step (unat cap)" for cap
proof (unfold_locales, goal_cases)
  case (1 v x out v')
  then show ?case
  proof (cases x)
    case (PushBack y)
    with 1 sv_push_back_spec [of cap v y] show ?thesis by (auto simp: sv_call_def split: prod.splits)
  next
    case PopBack
    with 1 sv_pop_back_spec [of cap v] show ?thesis by (auto simp: sv_call_def split: prod.splits)
  next
    case (Resize k d)
    with 1 sv_resize_spec [of cap v k d] show ?thesis by (auto simp: sv_call_def split: prod.splits)
  next
    case IsFull
    with 1 show ?thesis by (auto simp: sv_call_def sv_full_def word_le_nat_alt)
  next
    case IsEmpty
    with 1 show ?thesis by (auto simp: sv_call_def sv_empty_def sv_list_empty)
  qed (auto simp: sv_call_def sv_clear_def sv_inv_def sv_list_def)
qed

section \<open>The string as bounded text\<close>

datatype text_op = Assign string | Append string | ClearText | View | CStr

datatype text_out = Stored "bool outcome" | Text "string outcome"

fun stored :: "static_string \<Rightarrow> (bool \<times> static_string) outcome \<Rightarrow> text_out \<times> static_string" where
  "stored s (Value (ok, s')) = (Stored (Value ok), s')"
| "stored s Out_Of_Range = (Stored Out_Of_Range, s)"
| "stored s Assertion_Failed = (Stored Assertion_Failed, s)"
| "stored s Undefined = (Stored Undefined, s)"

definition ss_call :: "u64 \<Rightarrow> static_string \<Rightarrow> text_op \<Rightarrow> text_out \<times> static_string" where
  "ss_call cap s x = (case x of
     Assign sv \<Rightarrow> stored s (ss_assign cap sv s)
   | Append sv \<Rightarrow> stored s (ss_append cap sv s)
   | ClearText \<Rightarrow> (Stored (Value True), ss_clear s)
   | View \<Rightarrow> (Text (ss_view s), s)
   | CStr \<Rightarrow> (Text (ss_c_str s), s))"

text \<open>The specification: text cut off at \<open>n\<close> characters, with the flag that tells a cut.\<close>

fun text_step :: "nat \<Rightarrow> string \<Rightarrow> text_op \<Rightarrow> text_out \<times> string" where
  "text_step n t (Assign sv) = (Stored (Value (length sv \<le> n)), take n sv)"
| "text_step n t (Append sv) = (Stored (Value (length (t @ sv) \<le> n)), take n (t @ sv))"
| "text_step n t ClearText = (Stored (Value True), [])"
| "text_step n t View = (Text (Value t), t)"
| "text_step n t CStr = (Text (Value (takeWhile (\<lambda>c. c \<noteq> NUL) t)), t)"

definition ss_inv :: "u64 \<Rightarrow> static_string \<Rightarrow> bool" where
  "ss_inv cap s \<longleftrightarrow> length (ss_data s) = unat cap + 1 \<and> 0 < unat cap \<and> unat cap < 2 ^ 32
     \<and> unat (ss_size s) \<le> unat cap \<and> ss_data s ! unat (ss_size s) = NUL"

definition ss_text :: "static_string \<Rightarrow> string" where
  "ss_text s = take (unat (ss_size s)) (ss_data s)"

lemma length_ss_text [simp]: "ss_inv cap s \<Longrightarrow> length (ss_text s) = unat (ss_size s)"
  by (simp add: ss_inv_def ss_text_def)

lemma ss_new_spec:
  "0 < unat cap \<Longrightarrow> unat cap < 2 ^ 32 \<Longrightarrow> ss_inv cap (ss_new cap) \<and> ss_text (ss_new cap) = []"
  by (simp add: ss_inv_def ss_text_def ss_new_def ss_zero_def)

lemma copy_chars_inside:
  "at + length cs \<le> length data \<Longrightarrow>
     copy_chars data at cs = Value (take at data @ cs @ drop (at + length cs) data)"
proof (induction cs arbitrary: data at)
  case Nil
  then show ?case by simp
next
  case (Cons c cs)
  then show ?case
    by (simp add: array_set_def take_Suc_conv_app_nth)
qed

lemma terminated_text:
  "ss_data s = t @ NUL # r \<Longrightarrow> unat (ss_size s) = length t \<Longrightarrow> length (t @ NUL # r) = unat cap + 1 \<Longrightarrow>
     0 < unat cap \<Longrightarrow> unat cap < 2 ^ 32 \<Longrightarrow> ss_inv cap s \<and> ss_text s = t"
  by (simp add: ss_inv_def ss_text_def)

lemma ss_assign_spec:
  assumes "ss_inv cap s"
  shows "\<exists>s'. ss_assign cap sv s = Value (length sv \<le> unat cap, s') \<and> ss_inv cap s'
    \<and> ss_text s' = take (unat cap) sv"
proof -
  let ?cs = "take (unat cap) sv"
  have n: "(if length sv < unat cap then length sv else unat cap) = length ?cs" by simp
  have cs: "take (length ?cs) sv = ?cs" by (cases "length sv \<le> unat cap") simp_all
  have data: "length (ss_data s) = unat cap + 1" and small: "unat cap < 2 ^ 32"
    using assms by (simp_all add: ss_inv_def)
  have len: "unat (of_nat (length ?cs) :: u32) = length ?cs"
    using small by (simp add: unat_of_nat take_bit_nat_eq_self_iff)
  let ?d = "?cs @ NUL # drop (length ?cs + 1) (ss_data s)"
  have "ss_assign cap sv s = Value (length sv \<le> unat cap, s\<lparr>ss_data := ?d, ss_size := of_nat (length ?cs)\<rparr>)"
    using data unfolding ss_assign_def Let_def n cs
    by (simp add: copy_chars_inside array_set_def list_update_append Cons_nth_drop_Suc [symmetric])
  moreover have "ss_inv cap (s\<lparr>ss_data := ?d, ss_size := of_nat (length ?cs)\<rparr>) \<and>
      ss_text (s\<lparr>ss_data := ?d, ss_size := of_nat (length ?cs)\<rparr>) = ?cs"
    using assms len by (intro terminated_text) (auto simp: ss_inv_def)
  ultimately show ?thesis by blast
qed

lemma ss_append_spec:
  assumes "ss_inv cap s"
  shows "\<exists>s'. ss_append cap sv s = Value (length (ss_text s @ sv) \<le> unat cap, s') \<and> ss_inv cap s'
    \<and> ss_text s' = take (unat cap) (ss_text s @ sv)"
proof -
  let ?k = "unat (ss_size s)"
  let ?cs = "take (unat cap - ?k) sv"
  have inv: "length (ss_data s) = unat cap + 1" "unat cap < 2 ^ 32" "?k \<le> unat cap"
    using assms by (simp_all add: ss_inv_def)
  then have room: "unat (cap - ucast (ss_size s)) = unat cap - ?k"
    by (simp add: unat_sub word_le_nat_alt)
  have n: "(if length sv < unat cap - ?k then length sv else unat cap - ?k) = length ?cs" by simp
  have cs: "take (length ?cs) sv = ?cs" by (cases "length sv \<le> unat cap - ?k") simp_all
  have len: "unat (ss_size s + of_nat (length ?cs)) = ?k + length ?cs"
    using inv by (simp add: unat_word_ariths unat_of_nat take_bit_nat_eq_self_iff min_def)
  let ?d = "take ?k (ss_data s) @ ?cs @ NUL # drop (?k + length ?cs + 1) (ss_data s)"
  have "ss_append cap sv s = Value (length sv \<le> unat cap - ?k,
      s\<lparr>ss_data := ?d, ss_size := ss_size s + of_nat (length ?cs)\<rparr>)"
    using inv unfolding ss_append_def Let_def room n cs len
    by (simp add: copy_chars_inside array_set_def list_update_append Cons_nth_drop_Suc [symmetric])
  moreover have "ss_inv cap (s\<lparr>ss_data := ?d, ss_size := ss_size s + of_nat (length ?cs)\<rparr>) \<and>
      ss_text (s\<lparr>ss_data := ?d, ss_size := ss_size s + of_nat (length ?cs)\<rparr>) = ss_text s @ ?cs"
    using assms len inv by (intro terminated_text) (auto simp: ss_inv_def ss_text_def)
  moreover have flag: "length (ss_text s @ sv) \<le> unat cap \<longleftrightarrow> length sv \<le> unat cap - ?k"
    and cut: "take (unat cap) (ss_text s @ sv) = ss_text s @ ?cs"
    using assms inv by (auto simp: ss_text_def)
  ultimately show ?thesis unfolding flag cut by blast
qed

lemma ss_clear_spec: "ss_inv cap s \<Longrightarrow> ss_inv cap (ss_clear s) \<and> ss_text (ss_clear s) = []"
  by (simp add: ss_inv_def ss_text_def ss_clear_def)

lemma ss_view_spec: "ss_inv cap s \<Longrightarrow> ss_view s = Value (ss_text s)"
  by (simp add: ss_inv_def ss_view_def ss_text_def)

lemma takeWhile_to_terminator:
  "i < length xs \<Longrightarrow> xs ! i = z \<Longrightarrow> takeWhile (\<lambda>x. x \<noteq> z) xs = takeWhile (\<lambda>x. x \<noteq> z) (take i xs)"
proof (induction xs arbitrary: i)
  case (Cons x xs)
  then show ?case by (cases i) auto
qed simp

lemma ss_c_str_spec: "ss_inv cap s \<Longrightarrow> ss_c_str s = Value (takeWhile (\<lambda>c. c \<noteq> NUL) (ss_text s))"
  using takeWhile_to_terminator [of "unat (ss_size s)" "ss_data s" NUL]
  unfolding ss_inv_def ss_text_def ss_c_str_def
  by (auto simp: in_set_conv_nth intro: exI [of _ "unat (ss_size s)"])

interpretation static_string: simulation "ss_inv cap" ss_text "\<lambda>_. True" "ss_call cap"
  "text_step (unat cap)" for cap
proof (unfold_locales, goal_cases)
  case (1 s x out s')
  then show ?case
  proof (cases x)
    case (Assign sv)
    with 1 ss_assign_spec [of cap s sv] show ?thesis by (auto simp: ss_call_def)
  next
    case (Append sv)
    with 1 ss_append_spec [of cap s sv] show ?thesis by (auto simp: ss_call_def)
  qed (auto simp: ss_call_def ss_clear_spec ss_view_spec ss_c_str_spec)
qed

section \<open>Properties of the containers\<close>

text \<open>
  C12. Any sequence of \<open>StaticVector\<close> calls (\<open>push_back\<close>, \<open>pop_back\<close>, \<open>clear\<close>, \<open>resize\<close>, \<open>empty\<close>,
  \<open>full\<close>, \<open>size\<close>) behaves as the same calls on a list of at most \<open>Capacity\<close> elements: what does not
  fit is refused with false and changes nothing, and elements keep their order.
\<close>

theorem static_vector_refines_list:
  assumes "sv_inv cap v" "run (sv_call cap) v xs = (outs, v')"
  shows "sv_inv cap v' \<and> run (list_step (unat cap)) (sv_list v) xs = (outs, sv_list v')"
  by (rule static_vector.run_simulates [OF assms(1) _ assms(2)]) (simp add: list_all_iff)

text \<open>The calls of \<open>TestStaticVectorBasic\<close>.\<close>

theorem static_vector_refines_list_witness:
  "fst (run (sv_call 4) (sv_new 4 (0 :: int))
      [PushBack 10, PushBack 20, PushBack 30, PushBack 40, PushBack 50, PopBack, Size, Clear,
       Resize 2 99, Resize 10 0, Size]) =
    [Flag True, Flag True, Flag True, Flag True, Flag False, Flag True, Count 3, Flag True,
     Flag True, Flag False, Count 2]"
proof -
  let ?xs = "[PushBack 10, PushBack 20, PushBack 30, PushBack 40, PushBack 50, PopBack, Size, Clear,
       Resize 2 99, Resize 10 0, Size] :: int vec_op list"
  obtain outs v' where r: "run (sv_call 4) (sv_new 4 0) ?xs = (outs, v')" by (meson surj_pair)
  have new: "sv_inv 4 (sv_new 4 (0 :: int))" "sv_list (sv_new 4 (0 :: int)) = []"
    using sv_new_spec [of 4 "0 :: int"] by simp_all
  from static_vector_refines_list [OF new(1) r]
  have "outs = [Flag True, Flag True, Flag True, Flag True, Flag False, Flag True,
      Count (Suc (Suc (Suc 0))), Flag True, Flag True, Flag False, Count (Suc (Suc 0))]"
    by (simp add: new)
  then show ?thesis by (simp only: r fst_conv) (simp add: eval_nat_numeral)
qed

text \<open>
  C11. Any sequence of \<open>StaticString\<close> calls (\<open>assign\<close>, \<open>append\<close>, \<open>clear\<close>, \<open>view\<close>, \<open>c_str\<close>) stays
  inside the array and behaves as text cut off at \<open>Capacity\<close> characters; the result of \<open>assign\<close>
  and \<open>append\<close> tells whether the text was stored in full, and \<open>c_str\<close> is terminated at all times.
\<close>

theorem static_string_refines_text:
  assumes "ss_inv cap s" "run (ss_call cap) s xs = (outs, s')"
  shows "ss_inv cap s' \<and> run (text_step (unat cap)) (ss_text s) xs = (outs, ss_text s')"
  by (rule static_string.run_simulates [OF assms(1) _ assms(2)]) (simp add: list_all_iff)

theorem static_string_refines_text_witness:
  "fst (run (ss_call 8) (ss_new 8) [Assign ''hello'', Append '' world'', View, CStr, ClearText, View]) =
    [Stored (Value True), Stored (Value False), Text (Value ''hello wo''), Text (Value ''hello wo''),
     Stored (Value True), Text (Value [])]"
proof -
  let ?xs = "[Assign ''hello'', Append '' world'', View, CStr, ClearText, View]"
  obtain outs s' where r: "run (ss_call 8) (ss_new 8) ?xs = (outs, s')" by (meson surj_pair)
  have new: "ss_inv 8 (ss_new 8)" "ss_text (ss_new 8) = []"
    using ss_new_spec [of 8] by simp_all
  from static_string_refines_text [OF new(1) r] show ?thesis
    unfolding r fst_conv by (simp add: new NUL_def)
qed

text \<open>
  On a well-formed vector \<open>at\<close> is a checked access in every build: an index inside the vector
  gives the element, any other index throws, fails an assertion, or, in a release build without
  exceptions, gives slot 0 of the array, which always exists; none of them leaves the array.
\<close>

theorem at_is_checked:
  assumes "sv_inv cap v"
  shows "sv_at b v i =
    (if unat i < length (sv_list v) then Value (sv_list v ! unat i)
     else case b of Exceptions \<Rightarrow> Out_Of_Range | No_Exceptions_Debug \<Rightarrow> Assertion_Failed
       | No_Exceptions_Release \<Rightarrow> Value (hd (sv_data v)))"
proof -
  have "sv_data v \<noteq> []" using assms by (auto simp: sv_inv_def)
  then show ?thesis
    using assms by (auto simp: sv_at_def checked_at_def array_get_def word_le_nat_alt sv_inv_def
        sv_list_def hd_conv_nth split: build.split)
qed

theorem at_is_checked_witness:
  "sv_at Exceptions (sv_new 4 (0 :: int)) 0 = Out_Of_Range \<and>
   sv_at No_Exceptions_Release (sv_new 4 (0 :: int)) 7 = Value 0"
proof -
  have new: "sv_inv 4 (sv_new 4 (0 :: int))" "sv_list (sv_new 4 (0 :: int)) = []"
    using sv_new_spec [of 4 "0 :: int"] by simp_all
  show ?thesis
    using at_is_checked [OF new(1), of Exceptions 0] at_is_checked [OF new(1), of No_Exceptions_Release 7]
    by (simp add: new(2)) (simp add: sv_new_def)
qed

lemma eq_loop_prefix:
  "list_all (\<lambda>i. i < length xs \<and> i < length ys) is \<Longrightarrow>
     eq_loop eq xs ys is = Value (list_all (\<lambda>i. eq (xs ! i) (ys ! i)) is)"
  by (induction "is") (auto simp: array_get_def)

text \<open>
  \<open>operator==\<close> of two well-formed vectors compares their elements and nothing else: what a
  vector held beyond its size does not matter.
\<close>

theorem vector_equality:
  assumes "sv_inv cap v" "sv_inv cap w"
  shows "sv_equal eq v w = Value (list_all2 eq (sv_list v) (sv_list w))"
proof (cases "sv_size v = sv_size w")
  case False
  then have "length (sv_list v) \<noteq> length (sv_list w)" using assms by (simp add: word_unat_eq_iff)
  with False show ?thesis by (auto simp: sv_equal_def dest: list_all2_lengthD)
next
  case True
  let ?n = "unat (sv_size v)"
  have len: "?n \<le> length (sv_data v)" "?n \<le> length (sv_data w)"
    using assms True by (simp_all add: sv_inv_def)
  then have "list_all (\<lambda>i. i < length (sv_data v) \<and> i < length (sv_data w)) [0..<?n]"
    by (simp add: list_all_iff)
  then have "sv_equal eq v w = Value (list_all (\<lambda>i. eq (sv_data v ! i) (sv_data w ! i)) [0..<?n])"
    using True by (simp add: sv_equal_def eq_loop_prefix)
  also have "\<dots> = Value (list_all2 eq (sv_list v) (sv_list w))"
    using len True by (auto simp: list_all_iff sv_list_def list_all2_conv_all_nth)
  finally show ?thesis .
qed

theorem vector_equality_witness:
  "sv_equal (=) (snd (sv_push_back 2 (5 :: int) (sv_new 2 0))) (sv_new 2 0) = Value False"
proof -
  have new: "sv_inv 2 (sv_new 2 (0 :: int))" "sv_list (sv_new 2 (0 :: int)) = []"
    using sv_new_spec [of 2 "0 :: int"] by simp_all
  obtain ok v where p: "sv_push_back 2 (5 :: int) (sv_new 2 0) = (ok, v)" by (meson surj_pair)
  have "sv_inv 2 v" "sv_list v = [5]"
    using sv_push_back_spec [OF new(1) p] by (simp_all add: new)
  with vector_equality [OF _ new(1), of v "(=)"] show ?thesis by (simp add: p new)
qed

text \<open>
  C39. The size field is data of a packet, and no container checks it against its capacity: with a
  size above \<open>Capacity\<close>, \<open>at\<close> accepts an index outside the array in every build, and \<open>append\<close>
  computes its free space below zero and writes outside the array.
\<close>

theorem oversized_size_field:
  assumes "cap < ucast (sv_size v)" "length (sv_data v) = unat cap" "unat cap < 2 ^ 32"
    and "cap < ucast (ss_size s)" "length (ss_data s) = unat cap + 1"
  shows "sv_at b v (ucast cap) = Undefined \<and> ss_append cap sv s = Undefined"
proof
  have "unat (ucast cap :: u32) = unat cap"
    using assms(3) by (simp add: unsigned_ucast_eq take_bit_nat_eq_self_iff)
  then show "sv_at b v (ucast cap) = Undefined"
    using assms(1,2) by (simp add: sv_at_def checked_at_def array_get_def word_le_nat_alt
        word_less_nat_alt)
next
  have out: "length (ss_data s) \<le> unat (ss_size s)"
    using assms(4,5) by (simp add: word_less_nat_alt)
  then have outside: "copy_chars (ss_data s) (unat (ss_size s)) (c # cs) = Undefined" for c cs
    by (simp add: array_set_def)
  have "unat (cap - ucast (ss_size s)) \<noteq> 0"
    using assms(4) by (auto simp: unat_eq_0)
  then obtain k where k: "unat (cap - ucast (ss_size s)) = Suc k" by (cases "unat (cap - ucast (ss_size s))") auto
  show "ss_append cap sv s = Undefined"
  proof (cases sv)
    case Nil
    with out k show ?thesis by (simp add: ss_append_def array_set_def Let_def)
  next
    case (Cons c cs)
    then have "take (if length sv < Suc k then length sv else Suc k) sv = c # take k cs" by simp
    then show ?thesis by (simp only: ss_append_def Let_def k outside and_then.simps)
  qed
qed

theorem oversized_size_field_witness:
  "sv_at Exceptions \<lparr>sv_data = [1 :: int, 2], sv_size = 7\<rparr> 2 = Undefined \<and>
   ss_append 2 ''x'' \<lparr>ss_data = ''abc'', ss_size = 7\<rparr> = Undefined"
  using oversized_size_field [of 2 "\<lparr>sv_data = [1 :: int, 2], sv_size = 7\<rparr>" "\<lparr>ss_data = ''abc'', ss_size = 7\<rparr>"
      Exceptions "''x''"]
  by simp

end
