(* ===== verification/Example_Ipc.thy ===== *)
theory Example_Ipc
  imports Containers Object_Layout Pipeline
begin

text \<open>
  Model of \<open>examples/ipc_telemetry.cpp\<close>: a producer and a consumer that stream 100000 messages through
  a shared memory ring of 2048 slots, each with its own mapping of the segment. The producer streams from
  the moment it has created the segment; the consumer opens it whenever it first runs, and gives up
  when that fails, of which the producer learns nothing. The message embeds a \<open>StaticString\<close>. Values of type \<open>float\<close> are bit patterns and the position, computed in floating
  point from the index, is a parameter. Printing and the clock are left out.
\<close>

section \<open>The message\<close>

definition ActuatorTelemetry_struct :: ctype where
  "ActuatorTelemetry_struct = CStruct False
     [(''timestamp_ns'', CScalar 8), (''joint_name'', CString 16), (''position'', CScalar 4),
      (''velocity'', CScalar 4), (''torque'', CScalar 4), (''temperature_c'', CScalar 4)]"

text \<open>The bytes of a \<open>StaticString<cap>\<close> member at \<open>off\<close>, as the object and back.\<close>

definition string_at :: "endian \<Rightarrow> nat \<Rightarrow> nat \<Rightarrow> bytes \<Rightarrow> static_string" where
  "string_at e cap off obj = \<lparr>ss_data = map (\<lambda>b. char_of (unat b)) (slice off (cap + 1) obj),
     ss_size = word_of_obj e (slice (off + align_up 4 (cap + 1)) 4 obj)\<rparr>"

definition string_writes :: "endian \<Rightarrow> nat \<Rightarrow> nat \<Rightarrow> static_string \<Rightarrow> field_writes" where
  "string_writes e cap off s = [(off, map of_char (ss_data s)), (off + align_up 4 (cap + 1), obj_of_word e 4 (ss_size s))]"

text \<open>The default constructor of the message runs that of its string.\<close>

definition ActuatorTelemetry_construct :: "bytes \<Rightarrow> bytes" where
  "ActuatorTelemetry_construct = apply_fields
     [(the (offsetof ActuatorTelemetry_struct ''joint_name''), replicate 17 0),
      (the (offsetof ActuatorTelemetry_struct ''joint_name'') + align_up 4 17, replicate 4 0)]"

definition ActuatorTelemetry :: msgtype where
  "ActuatorTelemetry = struct_message ''ActuatorTelemetry'' 101 1 ActuatorTelemetry_struct ActuatorTelemetry_construct"

definition kShmChannel :: string where "kShmChannel = ''sinew_actuator_channel''"

definition kTotalPackets :: nat where "kTotalPackets = 100000"

section \<open>The loops\<close>

text \<open>The assignments of the producer to the members of slot number \<open>i\<close>.\<close>

definition actuator_fill :: "endian \<Rightarrow> (nat \<Rightarrow> u32) \<Rightarrow> nat \<Rightarrow> bytes \<Rightarrow> bytes" where
  "actuator_fill e position i slot =
     (let name_off = the (offsetof ActuatorTelemetry_struct ''joint_name'');
          slot = apply_fields (assign_members ActuatorTelemetry_struct
            [(''timestamp_ns'', obj_of_word e 8 (of_nat i * 10000 :: u64))]) slot;
          slot = (case ss_set_cstr 16 (Some ''shoulder_pan'') (string_at e 16 name_off slot) of
              Value s \<Rightarrow> apply_fields (string_writes e 16 name_off s) slot
            | _ \<Rightarrow> slot)
      in apply_fields (assign_members ActuatorTelemetry_struct
           [(''position'', obj_of_word e 4 (position i)), (''velocity'', obj_of_word e 4 (0x3FA00000 :: u32)),
            (''torque'', obj_of_word e 4 (0x4059999A :: u32)),
            (''temperature_c'', obj_of_word e 4 (0x422A0000 :: u32))]) slot)"

definition ipc_producer ::
  "endian \<Rightarrow> (nat \<Rightarrow> u32) \<Rightarrow> (processes, bytes list) pipeline \<Rightarrow> (processes, bytes list) pipeline" where
  "ipc_producer e position = producer_turn (shared_prepare_write e ActuatorTelemetry 2048)
     (shared_slot_value ActuatorTelemetry) (shared_store ActuatorTelemetry 2048)
     (shared_commit_write e ActuatorTelemetry 2048) (actuator_fill e position) kTotalPackets"

text \<open>
  The consumer counts the messages and looks at none; the list of what it was given is an observation
  of the model.
\<close>

definition ipc_consumer :: "endian \<Rightarrow> (processes, bytes list) pipeline \<Rightarrow> (processes, bytes list) pipeline" where
  "ipc_consumer e = consumer_turn (shared_peek_read e ActuatorTelemetry 2048) (shared_fetch ActuatorTelemetry)
     (shared_commit_read e ActuatorTelemetry 2048) (\<lambda>msg seen. seen @ [msg]) kTotalPackets"

text \<open>
  Before there is a consumer the producer works on its ring alone. The state of the example: the
  consumer has not run yet, or has opened the segment, or has failed to and returned.
\<close>

definition ipc_producer_alone ::
  "endian \<Rightarrow> (nat \<Rightarrow> u32) \<Rightarrow> (ipc_ring \<times> mem, bytes list) pipeline \<Rightarrow> (ipc_ring \<times> mem, bytes list) pipeline" where
  "ipc_producer_alone e position = producer_turn (ipc_prepare_write e ActuatorTelemetry 2048)
     (ipc_fetch ActuatorTelemetry) ipc_store (ipc_commit_write e ActuatorTelemetry 2048)
     (actuator_fill e position) kTotalPackets"

datatype ipc_example =
    Waiting "(ipc_ring \<times> mem, bytes list) pipeline"
  | Connected "(processes, bytes list) pipeline"
  | Abandoned "(ipc_ring \<times> mem, bytes list) pipeline"

text \<open>The producer has created the segment; \<open>None\<close> if that failed, when \<open>run_producer\<close> returns.\<close>

definition ipc_begin :: "'os posix \<Rightarrow> endian \<Rightarrow> mem \<Rightarrow> 'os \<Rightarrow> ipc_example option" where
  "ipc_begin sys e m os =
     (let (producer, m, os) = ipc_create sys e ActuatorTelemetry 2048 kShmChannel m os in
      if \<not> ipc_is_valid producer then None
      else Some (Waiting \<lparr>pl_ring = (producer, m), pl_sent = 0, pl_received = 0, pl_acc = []\<rparr>))"

text \<open>
  The consumer's first turn: \<open>open\<close>. In its memory \<open>m'\<close>, once \<open>mmap\<close> has placed the segment, the
  bytes of the segment are those the producer has left there by then.
\<close>

definition ipc_connect ::
  "'os posix \<Rightarrow> endian \<Rightarrow> mem \<Rightarrow> 'os \<Rightarrow> (ipc_ring \<times> mem, bytes list) pipeline \<Rightarrow> ipc_example" where
  "ipc_connect sys e m' os s =
     (let (rb, m) = pl_ring s;
          n = ipc_kTotalShmSize ActuatorTelemetry 2048;
          shm = fst (region_open sys kShmChannel (of_nat n) os);
          m' = (if region_is_valid shm then write_bytes m' (rg_data shm) (read_bytes m (ir_hdr rb) n) else m');
          (consumer, os) = ipc_open sys e ActuatorTelemetry 2048 kShmChannel m' os
      in if \<not> ipc_is_valid consumer then Abandoned s
         else Connected \<lparr>pl_ring = \<lparr>pro_ring = rb, pro_mem = m, con_ring = consumer, con_mem = m'\<rparr>,
             pl_sent = pl_sent s, pl_received = 0, pl_acc = []\<rparr>)"

definition example_producer :: "endian \<Rightarrow> (nat \<Rightarrow> u32) \<Rightarrow> ipc_example \<Rightarrow> ipc_example" where
  "example_producer e position x = (case x of
     Waiting s \<Rightarrow> Waiting (ipc_producer_alone e position s)
   | Connected s \<Rightarrow> Connected (ipc_producer e position s)
   | Abandoned s \<Rightarrow> Abandoned (ipc_producer_alone e position s))"

definition example_consumer :: "'os posix \<Rightarrow> endian \<Rightarrow> mem \<Rightarrow> 'os \<Rightarrow> ipc_example \<Rightarrow> ipc_example" where
  "example_consumer sys e m' os x = (case x of
     Waiting s \<Rightarrow> ipc_connect sys e m' os s
   | Connected s \<Rightarrow> Connected (ipc_consumer e s)
   | Abandoned s \<Rightarrow> Abandoned s)"

text \<open>Which of the two functions \<open>main\<close> runs, in this process.\<close>

datatype ipc_mode = Run_Producer | Run_Consumer | Run_Both

definition ipc_main :: "string list \<Rightarrow> ipc_mode" where
  "ipc_main argv =
     (if 1 < length argv then
        (let mode = argv ! 1 in
         if mode = ''--producer'' then Run_Producer
         else if mode = ''--consumer'' then Run_Consumer
         else Run_Both)
      else Run_Both)"

lemma ipc_main_modes:
  "ipc_main [prog] = Run_Both" "ipc_main (prog # ''--producer'' # args) = Run_Producer"
  "ipc_main (prog # ''--consumer'' # args) = Run_Consumer"
  "mode \<notin> {''--producer'', ''--consumer''} \<Longrightarrow> ipc_main (prog # mode # args) = Run_Both"
  by (simp_all add: ipc_main_def)

section \<open>Lemmas\<close>

lemma Actuator_wf: "wf_ctype ActuatorTelemetry_struct" and Actuator_size [simp]: "csize ActuatorTelemetry_struct = 48"
  and Actuator_align [simp]: "calign ActuatorTelemetry_struct = 8"
  by (simp_all add: ActuatorTelemetry_struct_def align_up_def)

lemma Actuator_offsets:
  "offsetof ActuatorTelemetry_struct ''timestamp_ns'' = Some 0" "offsetof ActuatorTelemetry_struct ''joint_name'' = Some 8"
  "offsetof ActuatorTelemetry_struct ''position'' = Some 32" "offsetof ActuatorTelemetry_struct ''velocity'' = Some 36"
  "offsetof ActuatorTelemetry_struct ''torque'' = Some 40" "offsetof ActuatorTelemetry_struct ''temperature_c'' = Some 44"
  by (simp_all add: ActuatorTelemetry_struct_def offsets_def align_up_def)

lemma Actuator_construct_eq:
  "ActuatorTelemetry_construct = apply_fields [(8, replicate 17 0), (28, replicate 4 0)]"
  by (simp add: ActuatorTelemetry_construct_def Actuator_offsets align_up_def)

lemma Actuator_sel [simp]:
  "mt_sizeof ActuatorTelemetry = 48" "mt_alignof ActuatorTelemetry = 8"
  "mt_construct ActuatorTelemetry = ActuatorTelemetry_construct"
  by (simp_all add: ActuatorTelemetry_def)

lemma Actuator_valid: "is_valid_message ActuatorTelemetry"
  unfolding ActuatorTelemetry_def
  by (rule struct_message_valid) (simp_all add: Actuator_wf Actuator_construct_eq fields_inside_def)

text \<open>What is assigned in a fresh slot: every field, the string as \<open>StaticString\<close> leaves it.\<close>

definition shoulder_pan :: static_string where
  "shoulder_pan = \<lparr>ss_data = ''shoulder_pan'' @ replicate 5 NUL, ss_size = 12\<rparr>"

lemma shoulder_pan_assigned:
  "ss_set_cstr 16 (Some ''shoulder_pan'') \<lparr>ss_data = replicate 17 NUL, ss_size = 0\<rparr> = Value shoulder_pan"
  by code_simp

lemma shoulder_pan_length: "length (ss_data shoulder_pan) = 17"
  by (simp add: shoulder_pan_def)

lemma char_of_0: "char_of (0 :: nat) = NUL"
  by (simp add: char_of_def NUL_def)

lemma slice_replicate: "off + n \<le> k \<Longrightarrow> slice off n (replicate k x) = replicate n x"
  by (simp add: slice_def)

lemma string_at_blank:
  "length v = 8 \<Longrightarrow> string_at e 16 8 (splice 0 v (replicate 48 0)) = \<lparr>ss_data = replicate 17 NUL, ss_size = 0\<rparr>"
  by (simp add: string_at_def align_up_def slice_splice_other slice_replicate map_replicate char_of_0 word_of_zeros)

lemma Actuator_blank: "ActuatorTelemetry_construct (replicate 48 0) = replicate 48 0"
proof -
  have "splice 28 (replicate 4 0) (splice 8 (replicate 17 0) (replicate 48 (0 :: u8))) = replicate 48 0"
    by code_simp
  then show ?thesis by (simp add: Actuator_construct_eq)
qed

definition telemetry_fields :: "endian \<Rightarrow> u64 \<Rightarrow> u32 \<Rightarrow> field_writes" where
  "telemetry_fields e t pos =
     [(0, obj_of_word e 8 t), (8, map of_char (ss_data shoulder_pan)), (28, obj_of_word e 4 (12 :: u32)),
      (32, obj_of_word e 4 pos), (36, obj_of_word e 4 (0x3FA00000 :: u32)),
      (40, obj_of_word e 4 (0x4059999A :: u32)), (44, obj_of_word e 4 (0x422A0000 :: u32))]"

lemma actuator_fill_blank:
  "actuator_fill e position i (ActuatorTelemetry_construct (replicate 48 0)) =
     apply_fields (telemetry_fields e (of_nat i * 10000) (position i)) (replicate 48 0)"
  using string_at_blank [of "obj_of_word e 8 (of_nat i * 10000 :: u64)" e]
  by (simp add: actuator_fill_def Actuator_blank assign_members_def Actuator_offsets shoulder_pan_assigned
      string_writes_def align_up_def telemetry_fields_def shoulder_pan_def [THEN arg_cong, of ss_size])

lemma telemetry_fields_inside [simp]: "fields_inside 48 (telemetry_fields e t pos)"
  by (simp add: telemetry_fields_def fields_inside_def shoulder_pan_length)

lemma capacity_2048: "capacity_ok (2048 :: u64)"
  by (simp add: capacity_ok_def)

lemma Actuator_segment: "ipc_kSlotSize ActuatorTelemetry = 64" "ipc_kTotalShmSize ActuatorTelemetry 2048 = 131264"
  by (simp_all add: ipc_kSlotSize_def ipc_kTotalShmSize_def ipc_kSlotAlign_def sizeof_Header_def
      sizeof_IpcRingHeader_def)

subsection \<open>The producer alone\<close>

text \<open>What the producer has sent waits in the segment, whose layout fields stay those of \<open>create\<close>.\<close>

definition alone_ok :: "endian \<Rightarrow> (nat \<Rightarrow> u32) \<Rightarrow> ipc_ring \<Rightarrow> (ipc_ring \<times> mem, bytes list) pipeline \<Rightarrow> bool" where
  "alone_ok e position rb s \<longleftrightarrow> ipc_attached e ActuatorTelemetry 2048 rb (pl_ring s)
     \<and> ipc_contents e ActuatorTelemetry 2048 (pl_ring s) =
         map (\<lambda>i. actuator_fill e position i (ActuatorTelemetry_construct (replicate 48 0))) [0..<pl_sent s]
     \<and> pl_sent s \<le> 2048 \<and> pl_received s = 0 \<and> pl_acc s = []"

lemma actuator_fill_length:
  "length (actuator_fill e position i (ActuatorTelemetry_construct (replicate 48 0))) = 48"
  by (simp add: actuator_fill_blank)

lemma producer_alone_ok:
  assumes "alone_ok e position rb s"
  defines "s' \<equiv> ipc_producer_alone e position s"
  shows "alone_ok e position rb s' \<and> pl_sent s' = min (pl_sent s + 1) 2048"
proof -
  let ?v = "actuator_fill e position (pl_sent s) (ActuatorTelemetry_construct (replicate 48 0))"
  obtain m where s: "pl_ring s = (rb, m)" using assms(1) by (cases "pl_ring s") (simp add: alone_ok_def ipc_attached_def)
  have inv: "ipc_inv e ActuatorTelemetry 2048 (rb, m)" and lay: "layout_matches e ActuatorTelemetry 2048 m (ir_hdr rb)"
    and cont: "length (ipc_contents e ActuatorTelemetry 2048 (rb, m)) = pl_sent s" "pl_sent s \<le> 2048"
    using assms(1) by (simp_all add: alone_ok_def ipc_attached_def s)
  obtain ok rb' m' where push: "ipc_push e ActuatorTelemetry 2048 ?v False (rb, m) = (ok, rb', m')" by (meson prod_cases3)
  have s': "s' = s\<lparr>pl_ring := (rb', m'), pl_sent := pl_sent s + (if ok then 1 else 0)\<rparr>"
    using ipc.producer_turn_push [of e ActuatorTelemetry 2048 s "actuator_fill e position" kTotalPackets] inv cont(2) push
    by (simp add: s'_def ipc_producer_alone_def s ipc_push_client kTotalPackets_def)
  have "rb' = rb \<and> layout_matches e ActuatorTelemetry 2048 m' (ir_hdr rb)"
    using ipc_push_layout [OF inv _ push] lay by (simp add: actuator_fill_length)
  moreover have "ipc_inv e ActuatorTelemetry 2048 (rb', m') \<and> ok = (pl_sent s < 2048)
      \<and> ipc_contents e ActuatorTelemetry 2048 (rb', m') =
        (if pl_sent s < 2048 then ipc_contents e ActuatorTelemetry 2048 (rb, m) @ [?v]
         else ipc_contents e ActuatorTelemetry 2048 (rb, m))"
    using ipc.push_spec [OF inv, of ?v False] push cont by (simp add: ipc_push_client actuator_fill_length)
  ultimately show ?thesis
    using assms(1) cont(2) by (auto simp: alone_ok_def ipc_attached_def s s')
qed

lemma producer_alone_run:
  assumes "alone_ok e position rb s" "pl_sent s = 0"
  shows "alone_ok e position rb ((ipc_producer_alone e position ^^ k) s)
    \<and> pl_sent ((ipc_producer_alone e position ^^ k) s) = min k 2048"
proof (induction k)
  case (Suc k)
  with producer_alone_ok [of e position rb "(ipc_producer_alone e position ^^ k) s"] show ?case by simp
qed (use assms in simp)

lemma ipc_begin_ok:
  assumes "region_create sys kShmChannel 131264 os = (shm, os1)" "region_is_valid shm" "16 dvd rg_data shm"
  obtains rb s where "ipc_begin sys e m os = Some (Waiting s)" "alone_ok e position rb s" "pl_sent s = 0"
proof -
  obtain rb m1 os2 where create: "ipc_create sys e ActuatorTelemetry 2048 kShmChannel m os = (rb, m1, os2)"
    by (meson prod_cases3)
  let ?s = "\<lparr>pl_ring = (rb, m1), pl_sent = 0, pl_received = 0, pl_acc = []\<rparr>"
  have "ipc_attached e ActuatorTelemetry 2048 rb (rb, m1) \<and> ipc_contents e ActuatorTelemetry 2048 (rb, m1) = []"
    using ipc_create_attached [OF capacity_2048 Actuator_valid _ _ _ _ _ _ create] assms by (simp add: Actuator_segment)
  moreover from this have "ipc_is_valid rb" by (auto simp: ipc_attached_def ipc_inv_def intro: ipc_okD)
  ultimately show thesis
    using that [of ?s rb] by (simp add: ipc_begin_def create alone_ok_def)
qed

subsection \<open>The consumer joins\<close>

lemma ipc_connect_ok:
  assumes ok: "alone_ok e position rb s"
    and peer: "region_open sys kShmChannel 131264 os = (shm, os1)" "region_is_valid shm" "16 dvd rg_data shm"
  obtains r where "ipc_connect sys e m' os s =
      Connected \<lparr>pl_ring = r, pl_sent = pl_sent s, pl_received = 0, pl_acc = []\<rparr>"
    "shared_inv e ActuatorTelemetry 2048 r"
    "shared_contents e ActuatorTelemetry 2048 r = ipc_contents e ActuatorTelemetry 2048 (pl_ring s)"
proof -
  obtain m where s: "pl_ring s = (rb, m)" using ok by (cases "pl_ring s") (simp add: alone_ok_def ipc_attached_def)
  have inv: "ipc_inv e ActuatorTelemetry 2048 (rb, m)" and lay: "layout_matches e ActuatorTelemetry 2048 m (ir_hdr rb)"
    using ok by (simp_all add: alone_ok_def ipc_attached_def s)
  let ?m = "write_bytes m' (rg_data shm) (read_bytes m (ir_hdr rb) 131264)"
  have seg: "same_segment (ipc_kTotalShmSize ActuatorTelemetry 2048) m (ir_hdr rb) ?m (rg_data shm)"
    by (simp add: same_segment_def Actuator_segment)
  have layout: "layout_matches e ActuatorTelemetry 2048 ?m (rg_data shm)"
    using lay same_segment_header [OF seg, of e] by (simp add: layout_matches_def)
  have size: "region_open sys kShmChannel (of_nat (ipc_kTotalShmSize ActuatorTelemetry 2048)) os = (shm, os1)"
    using peer(1) by (simp add: Actuator_segment)
  have align: "mt_alignof ActuatorTelemetry dvd 16" by simp
  obtain consumer where consumer: "ipc_open sys e ActuatorTelemetry 2048 kShmChannel ?m os = (consumer, os1)"
    "ipc_ok ActuatorTelemetry 2048 consumer" "ir_hdr consumer = rg_data shm"
    using ipc_open_attaches [OF size peer(2,3) capacity_2048 Actuator_valid align layout] by blast
  let ?r = "\<lparr>pro_ring = rb, pro_mem = m, con_ring = consumer, con_mem = ?m\<rparr>"
  have "ipc_connect sys e m' os s = Connected \<lparr>pl_ring = ?r, pl_sent = pl_sent s, pl_received = 0, pl_acc = []\<rparr>"
    using ipc_okD(2) [OF consumer(2)] by (simp add: ipc_connect_def s Let_def Actuator_segment peer consumer(1))
  moreover have "shared_inv e ActuatorTelemetry 2048 ?r" using inv consumer(2,3) seg by (simp add: shared_inv_def)
  moreover have "shared_contents e ActuatorTelemetry 2048 ?r = ipc_contents e ActuatorTelemetry 2048 (pl_ring s)"
    by (simp add: shared_contents_def s)
  ultimately show thesis by (rule that)
qed

lemma ipc_connect_fails:
  assumes "region_open sys kShmChannel 131264 os = (shm, os1)" "\<not> region_is_valid shm"
  shows "ipc_connect sys e m' os s = Abandoned s"
  using assms
  by (simp add: ipc_connect_def ipc_open_def Actuator_segment ipc_is_valid_def ipc_default_def Let_def split: prod.split)

text \<open>Turns before the first of the consumer, and turns once it is connected or has given up.\<close>

lemma play_waiting:
  assumes "\<And>i. i < t \<Longrightarrow> turn i"
  shows "play (example_producer e position) c turn t (Waiting s) = Waiting ((ipc_producer_alone e position ^^ t) s)"
  using assms by (induction t) (simp_all add: Let_def example_producer_def)

lemma play_connected:
  "play (example_producer e position) (example_consumer sys e m' os) turn t (Connected s) =
     Connected (play (ipc_producer e position) (ipc_consumer e) turn t s)"
  by (induction t) (simp_all add: Let_def example_producer_def example_consumer_def)

lemma play_abandoned:
  "play (example_producer e position) (example_consumer sys e m' os) turn t (Abandoned s) =
     Abandoned ((ipc_producer_alone e position ^^ producer_turns turn t) s)"
  by (induction t) (simp_all add: Let_def example_producer_def example_consumer_def)

section \<open>Properties of the example\<close>

text \<open>The messages the consumer is to be given.\<close>

definition actuator_message :: "endian \<Rightarrow> (nat \<Rightarrow> u32) \<Rightarrow> nat \<Rightarrow> bytes" where
  "actuator_message e position i = apply_fields (telemetry_fields e (of_nat i * 10000) (position i)) (replicate 48 0)"

lemma fold_append: "fold (\<lambda>x ys. ys @ [x]) xs ys = ys @ xs"
  by (induction xs arbitrary: ys) simp_all

lemma connected_run:
  assumes inv: "shared_inv e ActuatorTelemetry 2048 r"
    and cont: "shared_contents e ActuatorTelemetry 2048 r = map (actuator_message e position) [0..<k]" and "k \<le> 2048"
  defines "s \<equiv> \<lambda>turn t. play (ipc_producer e position) (ipc_consumer e) turn t
    \<lparr>pl_ring = r, pl_sent = k, pl_received = 0, pl_acc = []\<rparr>"
  shows "pl_sent (s turn t) \<le> pl_received (s turn t) + 2048
      \<and> pl_acc (s turn t) = map (actuator_message e position) [0..<pl_received (s turn t)]"
    and "fair turn \<Longrightarrow> \<exists>t. finished kTotalPackets (s turn t)"
proof -
  let ?fill = "actuator_fill e position" and ?use = "\<lambda>msg seen. seen @ [msg :: bytes]"
  let ?s0 = "\<lparr>pl_ring = r, pl_sent = k, pl_received = 0, pl_acc = []\<rparr>"
  have msg: "?fill i (mt_construct ActuatorTelemetry (replicate (mt_sizeof ActuatorTelemetry) 0)) =
      actuator_message e position i" for i
    by (simp add: actuator_fill_blank actuator_message_def)
  have len: "length (?fill i (mt_construct ActuatorTelemetry (replicate (mt_sizeof ActuatorTelemetry) 0))) =
      mt_sizeof ActuatorTelemetry" for i
    by (simp add: actuator_fill_blank)
  note ok = shared.pipe_ok_def [where e = e and T = ActuatorTelemetry and cap = 2048 and fill = ?fill and use = ?use and ?a0.0 = "[]" and n = kTotalPackets,
      unfolded msg fold_append append_Nil]
  have start: "shared.pipe_ok e ActuatorTelemetry 2048 ?fill ?use [] kTotalPackets ?s0"
    unfolding ok using assms(1-3) by (simp add: kTotalPackets_def)
  note run = shared.pipe_run_def [where e = e and T = ActuatorTelemetry and cap = 2048 and fill = ?fill and use = ?use and n = kTotalPackets]
  show "pl_sent (s turn t) \<le> pl_received (s turn t) + 2048
      \<and> pl_acc (s turn t) = map (actuator_message e position) [0..<pl_received (s turn t)]"
    using shared.pipe_run_ok [OF start len, of turn t, unfolded ok run]
      shared.bounded [of e ActuatorTelemetry 2048 "pl_ring (s turn t)"]
    by (auto simp: s_def ipc_producer_def ipc_consumer_def)
  show "\<exists>t. finished kTotalPackets (s turn t)" if "fair turn"
    using shared.pipe_finishes [OF start len that, unfolded run] by (simp add: s_def ipc_producer_def ipc_consumer_def)
qed

text \<open>
  C18. When the segment could be created, and can be opened whenever the consumer comes to it, the
  example ends under every fair schedule of its two threads, however much the producer has streamed
  before the consumer first runs: the consumer, through its own mapping, has received all 100000
  messages, from the first, in the order they were sent and as they were filled, the joint name
  included; at every moment before it has received a prefix of them; and never more than 2048 were in
  flight.
\<close>

theorem ipc_example_delivers:
  assumes "region_create sys kShmChannel 131264 os = (shm, os1)" "region_is_valid shm" "16 dvd rg_data shm"
    and "region_open sys' kShmChannel 131264 os' = (shm', os4)" "region_is_valid shm'" "16 dvd rg_data shm'"
    and "fair turn"
  shows "\<exists>x. ipc_begin sys e m os = Some x
    \<and> (\<exists>t s. play (example_producer e position) (example_consumer sys' e m' os') turn t x = Connected s
        \<and> finished kTotalPackets s \<and> pl_acc s = map (actuator_message e position) [0..<kTotalPackets])
    \<and> (\<forall>t. case play (example_producer e position) (example_consumer sys' e m' os') turn t x of
          Waiting s \<Rightarrow> pl_sent s \<le> 2048 \<and> (\<forall>i<t. turn i)
        | Connected s \<Rightarrow> pl_sent s \<le> pl_received s + 2048
            \<and> pl_acc s = map (actuator_message e position) [0..<pl_received s]
        | Abandoned s \<Rightarrow> False)"
proof -
  obtain rb s0 where started: "ipc_begin sys e m os = Some (Waiting s0)" and s0: "alone_ok e position rb s0" "pl_sent s0 = 0"
    using ipc_begin_ok [OF assms(1-3)] by blast
  let ?run = "\<lambda>t. play (example_producer e position) (example_consumer sys' e m' os') turn t (Waiting s0)"
  let ?alone = "\<lambda>k. (ipc_producer_alone e position ^^ k) s0"
  obtain u where u: "\<not> turn u" "\<And>i. i < u \<Longrightarrow> turn i" using first_consumer_turn [OF assms(7)] by blast
  note alone = producer_alone_run [OF s0]
  have waiting: "?run t = Waiting (?alone t)" if "t \<le> u" for t
    using that u(2) by (intro play_waiting) simp
  obtain r where r: "ipc_connect sys' e m' os' (?alone u) =
      Connected \<lparr>pl_ring = r, pl_sent = pl_sent (?alone u), pl_received = 0, pl_acc = []\<rparr>"
    "shared_inv e ActuatorTelemetry 2048 r"
    "shared_contents e ActuatorTelemetry 2048 r = ipc_contents e ActuatorTelemetry 2048 (pl_ring (?alone u))"
    using ipc_connect_ok [OF conjunct1 [OF alone] assms(4-6)] by blast
  let ?s = "\<lambda>t. play (ipc_producer e position) (ipc_consumer e) (\<lambda>i. turn (Suc u + i)) t
      \<lparr>pl_ring = r, pl_sent = pl_sent (?alone u), pl_received = 0, pl_acc = []\<rparr>"
  have "?run (Suc u) = Connected \<lparr>pl_ring = r, pl_sent = pl_sent (?alone u), pl_received = 0, pl_acc = []\<rparr>"
    using waiting [of u] u(1) r(1) by (simp add: Let_def example_consumer_def)
  then have connected: "?run (Suc u + t) = Connected (?s t)" for t
    unfolding play_add by (simp only: play_connected)
  have "shared_contents e ActuatorTelemetry 2048 r = map (actuator_message e position) [0..<pl_sent (?alone u)]"
    "pl_sent (?alone u) \<le> 2048"
    using alone [of u] r(3) by (simp_all add: alone_ok_def actuator_fill_blank actuator_message_def)
  note both = connected_run [OF r(2) this]
  obtain t where "finished kTotalPackets (?s t)" using both(2) [OF fair_shift [OF assms(7)]] by blast
  moreover from this have "pl_acc (?s t) = map (actuator_message e position) [0..<kTotalPackets]"
    using both(1) [of "\<lambda>i. turn (Suc u + i)" t] by (simp add: finished_def)
  ultimately have "\<exists>t s. ?run t = Connected s \<and> finished kTotalPackets s
      \<and> pl_acc s = map (actuator_message e position) [0..<kTotalPackets]"
    using connected by blast
  moreover have "case ?run t of Waiting s \<Rightarrow> pl_sent s \<le> 2048 \<and> (\<forall>i<t. turn i)
      | Connected s \<Rightarrow> pl_sent s \<le> pl_received s + 2048
          \<and> pl_acc s = map (actuator_message e position) [0..<pl_received s]
      | Abandoned s \<Rightarrow> False" for t
  proof (cases "t \<le> u")
    case True
    then show ?thesis using waiting alone [of t] u(2) by (simp add: alone_ok_def)
  next
    case False
    then obtain j where "t = Suc u + j" by (metis Suc_leI le_Suc_ex not_le)
    then show ?thesis using connected [of j] both(1) [of "\<lambda>i. turn (Suc u + i)" j] by simp
  qed
  ultimately show ?thesis using started by blast
qed

text \<open>The concrete system: the producer's segment is mapped at 4096, the consumer's view of it at 24576.\<close>

lemma demo_channel: "normalize_posix_shm_name kShmChannel = ''/sinew_actuator_channel''"
  by (simp add: normalize_posix_shm_name_def kShmChannel_def)

lemma demo_channel_create:
  obtains os where "region_create demo_posix kShmChannel 131264 \<lparr>d_fds = [], d_maps = [], d_names = []\<rparr> =
    (\<lparr>rg_name = kShmChannel, rg_data = 4096, rg_size = 131264, rg_creator = True, rg_fd = 1\<rparr>, os)"
  by (simp add: region_create_eq map_new_def demo_posix_def demo_channel Let_def region_local_def region_default_def)

lemma demo_channel_open:
  obtains os where "region_open demo_posix kShmChannel 131264
      \<lparr>d_fds = [], d_maps = [(5, 0)], d_names = [''/sinew_actuator_channel'']\<rparr> =
    (\<lparr>rg_name = kShmChannel, rg_data = 24576, rg_size = 131264, rg_creator = False, rg_fd = 1\<rparr>, os)"
  by (simp add: region_create_eq map_existing_def demo_posix_def demo_channel Let_def region_local_def region_default_def)

text \<open>The producer has the first 5000 turns to itself, which fill the ring.\<close>

lemma fair_late: "fair (\<lambda>t. t < 5000 \<or> even t)"
proof -
  have "\<exists>u\<ge>t. u < 5000 \<or> even u" "\<exists>u\<ge>t. \<not> (u < 5000 \<or> even u)" for t :: nat
    by (intro exI [of _ "2 * t"]; simp) (intro exI [of _ "2 * t + 5001"]; simp)
  then show ?thesis by (simp add: fair_def)
qed

theorem ipc_example_delivers_witness:
  "\<exists>x t s. ipc_begin demo_posix Little dirty \<lparr>d_fds = [], d_maps = [], d_names = []\<rparr> = Some x
     \<and> play (example_producer Little of_nat) (example_consumer demo_posix Little dirty
         \<lparr>d_fds = [], d_maps = [(5, 0)], d_names = [''/sinew_actuator_channel'']\<rparr>) (\<lambda>t. t < 5000 \<or> even t) t x = Connected s
     \<and> pl_received s = 100000"
proof -
  obtain os1 where c: "region_create demo_posix kShmChannel 131264 \<lparr>d_fds = [], d_maps = [], d_names = []\<rparr> =
      (\<lparr>rg_name = kShmChannel, rg_data = 4096, rg_size = 131264, rg_creator = True, rg_fd = 1\<rparr>, os1)"
    by (rule demo_channel_create)
  obtain os4 where o: "region_open demo_posix kShmChannel 131264
      \<lparr>d_fds = [], d_maps = [(5, 0)], d_names = [''/sinew_actuator_channel'']\<rparr> =
      (\<lparr>rg_name = kShmChannel, rg_data = 24576, rg_size = 131264, rg_creator = False, rg_fd = 1\<rparr>, os4)"
    by (rule demo_channel_open)
  from ipc_example_delivers [OF c _ _ o _ _ fair_late, where e = Little and position = of_nat and m = dirty and m' = dirty]
  show ?thesis by (auto simp: region_is_valid_def nullptr_def finished_def kTotalPackets_def)
qed

lemma alone_stage:
  assumes "region_open sys kShmChannel 131264 os = (shm, os1)" "\<not> region_is_valid shm"
  shows "play (example_producer e position) (example_consumer sys e m' os) turn t (Waiting s) =
    (if \<forall>i<t. turn i then Waiting else Abandoned) ((ipc_producer_alone e position ^^ producer_turns turn t) s)"
  by (induction t)
    (auto simp: Let_def example_producer_def example_consumer_def ipc_connect_fails [OF assms] less_Suc_eq)

text \<open>
  C23. When the segment could be created but the consumer cannot open it, \<open>run_consumer\<close> returns and the
  program never ends: under every fair schedule the producer fills the ring with 2048 messages and
  from then on turns in its retry loop, with the remaining 97952 unsent, so \<open>prod_thread.join()\<close>
  does not return.
\<close>

theorem ipc_example_stalls:
  assumes "region_create sys kShmChannel 131264 os = (shm, os1)" "region_is_valid shm" "16 dvd rg_data shm"
    and "region_open sys' kShmChannel 131264 os' = (shm', os4)" "\<not> region_is_valid shm'" "fair turn"
  shows "\<exists>x t. ipc_begin sys e m os = Some x
    \<and> (\<forall>u\<ge>t. \<exists>s'. play (example_producer e position) (example_consumer sys' e m' os') turn u x = Abandoned s'
        \<and> pl_sent s' = 2048 \<and> pl_received s' = 0 \<and> \<not> finished kTotalPackets s'
        \<and> ipc_contents e ActuatorTelemetry 2048 (pl_ring s') = map (actuator_message e position) [0..<2048])"
proof -
  obtain rb s0 where started: "ipc_begin sys e m os = Some (Waiting s0)" and s0: "alone_ok e position rb s0" "pl_sent s0 = 0"
    using ipc_begin_ok [OF assms(1-3)] by blast
  let ?run = "\<lambda>t. play (example_producer e position) (example_consumer sys' e m' os') turn t (Waiting s0)"
  let ?alone = "\<lambda>k. (ipc_producer_alone e position ^^ k) s0"
  obtain v where v: "\<not> turn v" using first_consumer_turn [OF assms(6)] by blast
  obtain t where t: "2048 \<le> producer_turns turn t" using producer_turns_unbounded [OF assms(6)] by blast
  have stuck: "?run u = Abandoned (?alone (producer_turns turn u)) \<and> alone_ok e position rb (?alone (producer_turns turn u))
      \<and> pl_sent (?alone (producer_turns turn u)) = 2048" if "max t (Suc v) \<le> u" for u
  proof -
    have "v < u" "2048 \<le> producer_turns turn u" using that producer_turns_mono [of t u turn] t by auto
    then have "\<not> (\<forall>i<u. turn i)" "2048 \<le> producer_turns turn u" using v by auto
    then show ?thesis
      using alone_stage [OF assms(4,5)] producer_alone_run [OF s0, of "producer_turns turn u"] by simp
  qed
  then have "\<exists>s'. ?run u = Abandoned s' \<and> pl_sent s' = 2048 \<and> pl_received s' = 0 \<and> \<not> finished kTotalPackets s'
      \<and> ipc_contents e ActuatorTelemetry 2048 (pl_ring s') = map (actuator_message e position) [0..<2048]"
    if "max t (Suc v) \<le> u" for u
    using that by (auto simp: alone_ok_def finished_def kTotalPackets_def actuator_fill_blank actuator_message_def)
  with started show ?thesis by blast
qed

theorem ipc_example_stalls_witness:
  "\<exists>x t s. ipc_begin demo_posix Little dirty \<lparr>d_fds = [], d_maps = [], d_names = []\<rparr> = Some x
     \<and> play (example_producer Little of_nat) (example_consumer demo_posix Little dirty
         \<lparr>d_fds = [], d_maps = [], d_names = []\<rparr>) even t x = Abandoned s
     \<and> pl_sent s = 2048"
proof -
  obtain os1 where c: "region_create demo_posix kShmChannel 131264 \<lparr>d_fds = [], d_maps = [], d_names = []\<rparr> =
      (\<lparr>rg_name = kShmChannel, rg_data = 4096, rg_size = 131264, rg_creator = True, rg_fd = 1\<rparr>, os1)"
    by (rule demo_channel_create)
  obtain shm os4 where o: "region_open demo_posix kShmChannel 131264 \<lparr>d_fds = [], d_maps = [], d_names = []\<rparr> = (shm, os4)"
    by (meson surj_pair)
  then have "\<not> region_is_valid shm"
    by (auto simp: region_create_eq map_existing_def demo_posix_def demo_channel Let_def region_local_def
        region_default_def region_is_valid_def)
  from ipc_example_stalls [OF c _ _ o this fair_even, where e = Little and position = of_nat and m = dirty and m' = dirty]
  obtain x t where "ipc_begin demo_posix Little dirty \<lparr>d_fds = [], d_maps = [], d_names = []\<rparr> = Some x"
    "\<forall>u\<ge>t. \<exists>s. play (example_producer Little of_nat) (example_consumer demo_posix Little dirty
         \<lparr>d_fds = [], d_maps = [], d_names = []\<rparr>) even u x = Abandoned s \<and> pl_sent s = 2048"
    by (fastforce simp: region_is_valid_def nullptr_def)
  then show ?thesis by blast
qed

end
