(* ===== verification/Example_Mcu.thy ===== *)
theory Example_Mcu
  imports Ring_Buffer Object_Layout
begin

text \<open>
  Model of \<open>examples/mcu_freestanding.cpp\<close>, the program that validates the library on a 32-bit
  microcontroller: sixteen samples are produced into a static ring of 64 slots, consumed with all
  checks, and one sample is encoded for a serial line and decoded again. \<open>None\<close> stands for the exit
  code 1; the program is otherwise a function of the byte order, the addresses of its static and
  local buffers, and the memory. Printing is left out.
\<close>

section \<open>The message\<close>

definition McuImuSample_struct :: ctype where
  "McuImuSample_struct = CStruct True
     [(''timestamp_us'', CScalar 4), (''accel_raw'', CArrayOf (CScalar 2) 3), (''gyro_raw'', CArrayOf (CScalar 2) 3),
      (''mag_raw'', CArrayOf (CScalar 2) 3), (''temperature_raw'', CScalar 2)]"

definition McuImuSample :: msgtype where
  "McuImuSample = struct_message ''McuImuSample'' 0x10 1 McuImuSample_struct id"

text \<open>An element of an array member.\<close>

definition element :: "string \<Rightarrow> nat \<Rightarrow> u16 \<Rightarrow> endian \<Rightarrow> nat \<times> bytes" where
  "element name k v e = (the (offsetof McuImuSample_struct name) + k * 2, obj_of_word e 2 v)"

section \<open>The program\<close>

text \<open>The assignments of the interrupt handler to slot number \<open>i\<close>.\<close>

definition mcu_fill :: "endian \<Rightarrow> nat \<Rightarrow> bytes \<Rightarrow> bytes" where
  "mcu_fill e i = apply_fields
     (assign_members McuImuSample_struct [(''timestamp_us'', obj_of_word e 4 (of_nat i * 1000 :: u32))]
      @ map (\<lambda>f. f e)
         [element ''accel_raw'' 0 (of_nat (i * 10)), element ''accel_raw'' 1 (of_int (- int i * 10)),
          element ''accel_raw'' 2 4096,
          element ''gyro_raw'' 0 0, element ''gyro_raw'' 1 0, element ''gyro_raw'' 2 0,
          element ''mag_raw'' 0 120, element ''mag_raw'' 1 240, element ''mag_raw'' 2 360]
      @ assign_members McuImuSample_struct [(''temperature_raw'', obj_of_word e 2 (250 :: u16))])"

text \<open>The loop of the handler over the given values of \<open>i\<close>.\<close>

fun mcu_produce :: "endian \<Rightarrow> nat list \<Rightarrow> u32 spsc \<times> mem \<Rightarrow> (u32 spsc \<times> mem) option" where
  "mcu_produce e [] s = Some s"
| "mcu_produce e (i # is) s =
     (let (slot, s) = spsc_prepare_write e McuImuSample 64 s in
      if slot = nullptr then None
      else mcu_produce e is (spsc_commit_write e McuImuSample 64 True
        (spsc_store s slot (mcu_fill e i (spsc_fetch McuImuSample s slot)))))"

text \<open>The loop of the control task: it ends because every iteration releases a slot.\<close>

function mcu_consume :: "endian \<Rightarrow> nat \<Rightarrow> u32 spsc \<times> mem \<Rightarrow> (nat \<times> u32 spsc \<times> mem) option" where
  "mcu_consume e processed_count s =
     (if spsc_empty (fst s) then Some (processed_count, s)
      else
        let sample = spsc_peek_read e McuImuSample 64 True s in
        if sample = nullptr then None
        else
          let hdr = get_header e (snd s) sample in
          if h_magic hdr \<noteq> SINEW_MAGIC \<or> h_msg_id hdr \<noteq> 0x10 then None
          else mcu_consume e (processed_count + 1) (spsc_commit_read s))"
  by pat_completeness auto

termination
  by (relation "measure (\<lambda>(_, _, s). unat (rb_head (fst s) - rb_tail (fst s)))")
    (auto simp: spsc_empty_def spsc_commit_read_def unat_advance_tail split: prod.splits)

declare mcu_consume.simps [simp del]

definition mcu_can_out :: "endian \<Rightarrow> bytes" where
  "mcu_can_out e = apply_fields
     (assign_members McuImuSample_struct [(''timestamp_us'', obj_of_word e 4 (50000 :: u32))]
      @ [element ''accel_raw'' 2 4096 e]) (replicate 24 0)"

definition mcu_main :: "endian \<Rightarrow> ptr \<Rightarrow> ptr \<Rightarrow> mem \<Rightarrow> (nat \<times> nat \<times> bytes) option" where
  "mcu_main e queue_slots can_wire_frame m =
     (case mcu_produce e [0..<16] (spsc_new queue_slots, m) of None \<Rightarrow> None
      | Some s \<Rightarrow> (case mcu_consume e 0 s of None \<Rightarrow> None
        | Some (processed_count, _, m) \<Rightarrow>
            let layout = layout_of McuImuSample_struct;
                (wire_bytes, m) = portable_encode e McuImuSample layout m can_wire_frame
                  (message_size McuImuSample) (mcu_can_out e) True;
                (err, can_in) = portable_decode e McuImuSample layout m can_wire_frame wire_bytes
                  (replicate 24 0) True
            in if err \<noteq> Ok then None else Some (processed_count, wire_bytes, can_in)))"

section \<open>Lemmas\<close>

lemma Mcu_wf: "wf_ctype McuImuSample_struct" and Mcu_size [simp]: "csize McuImuSample_struct = 24"
  and Mcu_align [simp]: "calign McuImuSample_struct = 4"
  by (simp_all add: McuImuSample_struct_def align_up_def)

lemma Mcu_offsets:
  "offsetof McuImuSample_struct ''timestamp_us'' = Some 0" "offsetof McuImuSample_struct ''accel_raw'' = Some 4"
  "offsetof McuImuSample_struct ''gyro_raw'' = Some 10" "offsetof McuImuSample_struct ''mag_raw'' = Some 16"
  "offsetof McuImuSample_struct ''temperature_raw'' = Some 22"
  by (simp_all add: McuImuSample_struct_def offsets_def align_up_def)

lemma Mcu_sel [simp]:
  "mt_sizeof McuImuSample = 24" "mt_alignof McuImuSample = 4" "mt_construct McuImuSample = id"
  "mt_id McuImuSample = 0x10"
  by (simp_all add: McuImuSample_def)

lemma Mcu_valid: "is_valid_message McuImuSample"
  unfolding McuImuSample_def by (rule struct_message_valid) (simp_all add: Mcu_wf)

text \<open>What the struct's reflection gives is the layout the codec's properties are stated for.\<close>

lemma Mcu_layout: "layout_of McuImuSample_struct = imu_layout"
  by (simp add: McuImuSample_struct_def imu_layout_def offsets_def align_up_def)

lemma capacity_64: "capacity_ok (64 :: u32)"
  by (simp add: capacity_ok_def)

lemma mcu_fill_length: "length slot = 24 \<Longrightarrow> length (mcu_fill e i slot) = 24"
  by (simp add: mcu_fill_def assign_members_def element_def Mcu_offsets fields_inside_def)

definition mcu_sample :: "endian \<Rightarrow> nat \<Rightarrow> bytes" where
  "mcu_sample e i = mcu_fill e i (replicate 24 0)"

lemma mcu_produce_sends:
  assumes "spsc_inv e McuImuSample 64 s" "length (spsc_contents e McuImuSample 64 s) + length is \<le> 64"
  shows "\<exists>s'. mcu_produce e is s = Some s' \<and> spsc_inv e McuImuSample 64 s'
    \<and> spsc_contents e McuImuSample 64 s' = spsc_contents e McuImuSample 64 s @ map (mcu_sample e) is"
  using assms
proof (induction "is" arbitrary: s)
  case (Cons i "is")
  obtain slot s1 where p: "spsc_prepare_write e McuImuSample 64 s = (slot, s1)" by (meson surj_pair)
  have room: "length (spsc_contents e McuImuSample 64 s) < unat (64 :: u32)" using Cons.prems by simp
  note got = spsc.prepare_room [OF Cons.prems(1) room p]
  then have blank: "mcu_fill e i (spsc_fetch McuImuSample s1 slot) = mcu_sample e i"
    by (simp add: mcu_sample_def)
  have "length (mcu_sample e i) = mt_sizeof McuImuSample" by (simp add: mcu_sample_def mcu_fill_length)
  note sent = spsc.commit_filled [OF Cons.prems(1) room p this, of True]
  then have "\<exists>s'. mcu_produce e is (spsc_commit_write e McuImuSample 64 True (spsc_store s1 slot (mcu_sample e i))) = Some s'
      \<and> spsc_inv e McuImuSample 64 s'
      \<and> spsc_contents e McuImuSample 64 s' = (spsc_contents e McuImuSample 64 s @ [mcu_sample e i]) @ map (mcu_sample e) is"
    using Cons.prems(2) Cons.IH by fastforce
  with got blank show ?case by (simp add: p)
qed simp

text \<open>A sample that \<open>peek_read\<close> returns has a header that the control task accepts.\<close>

lemma mcu_header:
  assumes "spsc_peek_read e McuImuSample 64 c s \<noteq> nullptr"
  defines "hdr \<equiv> get_header e (snd s) (spsc_peek_read e McuImuSample 64 c s)"
  shows "h_magic hdr = SINEW_MAGIC \<and> h_msg_id hdr = 0x10"
  using assms
  by (auto simp: spsc_peek_read_def view_def get_header_def validate_Ok_iff Let_def split: prod.splits if_splits)

lemma mcu_consume_drains:
  "spsc_inv e McuImuSample 64 s \<Longrightarrow> \<exists>s'. mcu_consume e k s = Some (k + length (spsc_contents e McuImuSample 64 s), s')"
proof (induction "spsc_contents e McuImuSample 64 s" arbitrary: k s)
  case Nil
  then have "spsc_empty (fst s)"
    by (cases s) (simp add: spsc_empty_def spsc_contents_def spsc_view_empty)
  then show ?case using Nil by (simp add: mcu_consume.simps [of e k s])
next
  case (Cons v q)
  note c = Cons.hyps(2) [symmetric]
  have "\<not> spsc_empty (fst s)"
    using Cons by (cases s) (auto simp: spsc_empty_def spsc_contents_def spsc_view_empty [THEN iffD2])
  moreover note peek = spsc.peek_front [OF Cons.prems c, of True] and rest = spsc.read_front [OF Cons.prems c]
  note mcu_header [OF conjunct1 [OF peek]]
  ultimately have "mcu_consume e k s = mcu_consume e (k + 1) (spsc_commit_read s)"
    using peek by (simp add: mcu_consume.simps [of e k s] Let_def)
  then show ?case
    using Cons.hyps(1) [of "spsc_commit_read s" "k + 1"] rest by (simp flip: Cons.hyps(2))
qed

lemma mcu_can_out_length: "length (mcu_can_out e) = 24"
  by (simp add: mcu_can_out_def assign_members_def element_def Mcu_offsets fields_inside_def)

lemma apply_at_skip:
  assumes "\<And>x. g x = x" "off + n \<le> length w"
  shows "apply_at g off n w = w"
proof -
  have "take off w @ take n (drop off w) @ drop (off + n) w = w"
    by (metis append_take_drop_id drop_drop add.commute)
  then show ?thesis using assms by (simp add: apply_at_def splice_def slice_def)
qed

text \<open>Only the two scalar members are converted; doing it twice restores the object.\<close>

lemma mcu_swap:
  assumes "length v = 24"
  shows "length (portable_swap e imu_layout v) = 24" "portable_swap e imu_layout (portable_swap e imu_layout v) = v"
proof -
  have scalar: "portable_swap e (Scalar 4) = byte_swap e" "portable_swap e (Scalar 2) = byte_swap e"
    by (simp_all add: fun_eq_iff)
  have eq: "portable_swap e imu_layout w = apply_at (byte_swap e) 22 2 (apply_at (byte_swap e) 0 4 w)"
    if "length w = 24" for w
    using that by (simp add: imu_layout_def apply_at_skip scalar)
  have len: "length (portable_swap e imu_layout w) = 24" if "length w = 24" for w
    using that by (simp add: eq)
  have "apply_at (byte_swap e) 0 4 (apply_at (byte_swap e) 22 2 w) = apply_at (byte_swap e) 22 2 (apply_at (byte_swap e) 0 4 w)"
    "apply_at (byte_swap e) 0 4 (apply_at (byte_swap e) 0 4 w) = w"
    "apply_at (byte_swap e) 22 2 (apply_at (byte_swap e) 22 2 w) = w" if "length w = 24" for w
    using that by (auto simp: apply_at_def splice_def slice_def byte_swap_eq min_def take_drop)
  note twice = this
  show "length (portable_swap e imu_layout v) = 24" by (rule len [OF assms])
  show "portable_swap e imu_layout (portable_swap e imu_layout v) = v"
    using assms len by (simp add: eq twice)
qed

lemma mcu_to_wire: "length v = 24 \<Longrightarrow> length (to_wire e imu_layout v) = 24 \<and> to_wire e imu_layout (to_wire e imu_layout v) = v"
  by (simp add: to_wire_def mcu_swap)

section \<open>Properties of the example\<close>

text \<open>
  C24. The validation program succeeds on a microcontroller of either byte order, whatever its memory
  holds at start: both loops end, all sixteen samples pass validation and checksum, and the sample
  sent over the serial line is decoded, from 40 bytes, as it was encoded.
\<close>

theorem mcu_main_succeeds:
  assumes "slots_ok McuImuSample queue_slots" "can_wire_frame \<noteq> nullptr"
  shows "mcu_main e queue_slots can_wire_frame m = Some (16, 40, mcu_can_out e)"
proof -
  note start = spsc_inv_new [OF capacity_64 assms(1), of e m]
  obtain s where s: "mcu_produce e [0..<16] (spsc_new queue_slots, m) = Some s"
    "spsc_inv e McuImuSample 64 s" "length (spsc_contents e McuImuSample 64 s) = 16"
    using mcu_produce_sends [OF conjunct1 [OF start], of "[0..<16]"] start by auto
  obtain rb m' where c: "mcu_consume e 0 s = Some (16, rb, m')"
    using mcu_consume_drains [OF s(2), of 0] s(3) by auto
  let ?w = "to_wire e imu_layout (mcu_can_out e)"
  let ?m = "wire_packet McuImuSample m' can_wire_frame ?w True"
  note wire = mcu_to_wire [OF mcu_can_out_length, of e e]
  have enc: "portable_encode e McuImuSample imu_layout m' can_wire_frame (message_size McuImuSample) (mcu_can_out e) True =
      (message_size McuImuSample, ?m)"
    using assms(2) wire by (intro portable_encode_eq) (simp_all add: mcu_can_out_length)
  have "wire_check McuImuSample ?m can_wire_frame (message_size McuImuSample) True = Ok"
    using assms(2) wire by (intro wire_check_packet Mcu_valid) simp_all
  then have "portable_decode e McuImuSample imu_layout ?m can_wire_frame (message_size McuImuSample) (replicate 24 0) True =
      (Ok, mcu_can_out e)"
    using wire by (simp add: portable_decode_eq wire_packet_payload)
  with enc show ?thesis
    by (simp add: mcu_main_def s(1) c Mcu_layout message_size_eq)
qed

theorem mcu_main_succeeds_witness:
  "mcu_main Big 64 8192 dirty = Some (16, 40, mcu_can_out Big)"
  by (rule mcu_main_succeeds) (simp_all add: slots_ok_def Mcu_valid nullptr_def)

end
