(* ===== verification/Benchmarks.thy ===== *)
theory Benchmarks
  imports Object_Layout
begin

text \<open>
  Model of \<open>benchmarks/bench_wire.cpp\<close> and \<open>benchmarks/bench_comparison.cpp\<close>: what their loops compute,
  without the clock and the printing. A null pointer that is dereferenced is \<open>None\<close>. Values of type
  \<open>float\<close> and \<open>double\<close> are bit patterns; the additions into the \<open>volatile\<close> sink are parameters.
\<close>

section \<open>Loops over one buffer\<close>

text \<open>\<open>prepare\<close>, assignments to the members, \<open>finalize\<close>, on a buffer of exactly one message.\<close>

definition bench_write :: "endian \<Rightarrow> msgtype \<Rightarrow> ptr \<Rightarrow> field_writes \<Rightarrow> bool \<Rightarrow> mem \<Rightarrow> mem option" where
  "bench_write e T buffer fs compute_crc m =
     (let (out, m) = prepare_array e T m buffer (message_size T) in
      if out = nullptr then None else Some (snd (finalize e T (write_fields m out fs) out compute_crc)))"

fun bench_encode :: "endian \<Rightarrow> msgtype \<Rightarrow> ptr \<Rightarrow> (nat \<Rightarrow> field_writes) \<Rightarrow> bool \<Rightarrow> nat \<Rightarrow> mem \<Rightarrow> mem option" where
  "bench_encode e T buffer mem_fields compute_crc 0 m = Some m"
| "bench_encode e T buffer mem_fields compute_crc (Suc i) m =
     Option.bind (bench_encode e T buffer mem_fields compute_crc i m) (bench_write e T buffer (mem_fields i) compute_crc)"

fun bench_view :: "endian \<Rightarrow> msgtype \<Rightarrow> ptr \<Rightarrow> (bytes \<Rightarrow> 'a \<Rightarrow> 'a) \<Rightarrow> mem \<Rightarrow> nat \<Rightarrow> 'a \<Rightarrow> 'a option" where
  "bench_view e T buffer observe m 0 sink = Some sink"
| "bench_view e T buffer observe m (Suc i) sink =
     (let v = view_array_crc e T m buffer (message_size T) False in
      if v = nullptr then None else bench_view e T buffer observe m i (observe (read_bytes m v (mt_sizeof T)) sink))"

section \<open>bench_wire\<close>

definition BenchmarkTelemetry_struct :: ctype where
  "BenchmarkTelemetry_struct = CStruct False
     [(''timestamp'', CScalar 8), (''lat'', CScalar 8), (''lon'', CScalar 8), (''alt'', CScalar 4),
      (''velocity_x'', CScalar 4), (''velocity_y'', CScalar 4), (''velocity_z'', CScalar 4)]"

definition BenchmarkTelemetry :: msgtype where
  "BenchmarkTelemetry = struct_message ''BenchmarkTelemetry'' 99 1 BenchmarkTelemetry_struct id"

definition bench_position :: "endian \<Rightarrow> u64 \<Rightarrow> (string \<times> bytes) list" where
  "bench_position e t =
     [(''timestamp'', obj_of_word e 8 t), (''lat'', obj_of_word e 8 (0x4042E32FEC56D5D0 :: u64)),
      (''lon'', obj_of_word e 8 (0xC05E9AD77318FC50 :: u64)), (''alt'', obj_of_word e 4 (0x42C80000 :: u32))]"

definition bench_fields :: "endian \<Rightarrow> nat \<Rightarrow> field_writes" where
  "bench_fields e i = assign_members BenchmarkTelemetry_struct (bench_position e (of_nat i) @
     [(''velocity_x'', obj_of_word e 4 (0x3F800000 :: u32)), (''velocity_y'', obj_of_word e 4 (0x40000000 :: u32)),
      (''velocity_z'', obj_of_word e 4 (0x3F000000 :: u32))])"

text \<open>The three benchmarks one after the other; the result is the sink.\<close>

definition bench_wire_main :: "endian \<Rightarrow> (u64 \<Rightarrow> u32 \<Rightarrow> u64 \<Rightarrow> u64) \<Rightarrow> ptr \<Rightarrow> mem \<Rightarrow> u64 option" where
  "bench_wire_main e add buffer m =
     (let T = BenchmarkTelemetry; kIterations = 2000000;
          observe = (\<lambda>obj. add (word_of_obj e (member_of BenchmarkTelemetry_struct ''lat'' 8 obj))
            (word_of_obj e (member_of BenchmarkTelemetry_struct ''alt'' 4 obj)))
      in Option.bind (bench_encode e T buffer (bench_fields e) False kIterations m) (\<lambda>m.
         Option.bind (bench_encode e T buffer (bench_fields e) True kIterations m) (\<lambda>m.
         Option.bind (bench_write e T buffer
           (assign_members BenchmarkTelemetry_struct (bench_position e 123456789)) False m) (\<lambda>m.
         bench_view e T buffer observe m kIterations 0))))"

section \<open>bench_comparison\<close>

definition ImuTelemetry_struct :: ctype where
  "ImuTelemetry_struct = CStruct True
     [(''timestamp_ns'', CScalar 8), (''accel'', CArrayOf (CScalar 4) 3), (''gyro'', CArrayOf (CScalar 4) 3),
      (''temp_c'', CScalar 4)]"

definition ImuTelemetry :: msgtype where
  "ImuTelemetry = struct_message ''ImuTelemetry'' 10 1 ImuTelemetry_struct id"

definition RobotJointState_struct :: ctype where
  "RobotJointState_struct = CStruct True
     [(''timestamp_ns'', CScalar 8), (''seq'', CScalar 4), (''positions'', CArrayOf (CScalar 4) 8),
      (''velocities'', CArrayOf (CScalar 4) 8), (''torques'', CArrayOf (CScalar 4) 8)]"

definition RobotJointState :: msgtype where
  "RobotJointState = struct_message ''RobotJointState'' 20 1 RobotJointState_struct id"

text \<open>
  The reference encoders work on byte arrays; \<open>memcpy\<close> of a value copies its object representation.
  The builder writes its fields from the end of its buffer and notes their offsets.
\<close>

record fb_builder =
  fb_buf :: bytes
  fb_vtable :: "u16 list"
  fb_offset :: nat

definition fb_reset :: "fb_builder \<Rightarrow> fb_builder" where
  "fb_reset b = b\<lparr>fb_offset := 128\<rparr>"

definition fb_prepend :: "bytes \<Rightarrow> nat \<Rightarrow> fb_builder \<Rightarrow> fb_builder" where
  "fb_prepend v k b =
     (let off = fb_offset b - length v
      in b\<lparr>fb_offset := off, fb_buf := splice off v (fb_buf b), fb_vtable := (fb_vtable b)[k := of_nat off]\<rparr>)"

definition fb_build :: "endian \<Rightarrow> u64 \<Rightarrow> bytes \<Rightarrow> bytes \<Rightarrow> bytes \<Rightarrow> fb_builder \<Rightarrow> nat \<times> fb_builder" where
  "fb_build e t a g temp b =
     (let b = fb_prepend temp 4 b; b = fb_prepend g 3 b; b = fb_prepend a 2 b;
          b = fb_prepend (obj_of_word e 8 t) 1 b;
          off = fb_offset b - 16;
          b = b\<lparr>fb_offset := off, fb_buf := splice off (concat (map (obj_of_word e 2) (fb_vtable b))) (fb_buf b)\<rparr>
      in (128 - fb_offset b, b))"

definition fb_read_accel_x :: "endian \<Rightarrow> bytes \<Rightarrow> bytes" where
  "fb_read_accel_x e buffer = (let voff = word_of_obj e (slice 4 2 buffer) :: u16 in slice (unat voff) 4 buffer)"

definition sbe_encode :: "endian \<Rightarrow> bytes \<Rightarrow> u64 \<Rightarrow> bytes \<Rightarrow> bytes \<Rightarrow> bytes \<Rightarrow> nat \<times> bytes" where
  "sbe_encode e dest t a g temp =
     (44, apply_fields
       [(0, obj_of_word e 2 (36 :: u16)), (2, obj_of_word e 2 (10 :: u16)), (4, obj_of_word e 2 (1 :: u16)),
        (6, obj_of_word e 2 (1 :: u16)), (8, obj_of_word e 8 t), (16, a), (28, g), (40, temp)] dest)"

definition sbe_read_accel_x :: "bytes \<Rightarrow> bytes" where
  "sbe_read_accel_x src = slice 16 4 src"

text \<open>The arrays of \<open>main\<close>, and its loops.\<close>

definition floats :: "endian \<Rightarrow> u32 list \<Rightarrow> bytes" where
  "floats e xs = concat (map (obj_of_word e 4) xs)"

definition bench_accel :: "u32 list" where "bench_accel = [0x3D4CCCCD, 0xBCA3D70A, 0x411CF5C3]"

definition bench_gyro :: "u32 list" where "bench_gyro = [0x3A83126F, 0xBB03126F, 0x3A03126F]"

definition bench_temp :: u32 where "bench_temp = 0x42020000"

definition imu_telemetry_fields :: "endian \<Rightarrow> nat \<Rightarrow> field_writes" where
  "imu_telemetry_fields e i = assign_members ImuTelemetry_struct
     [(''timestamp_ns'', obj_of_word e 8 (of_nat i :: u64)), (''accel'', floats e bench_accel),
      (''gyro'', floats e bench_gyro), (''temp_c'', obj_of_word e 4 bench_temp)]"

definition sbe_loop :: "endian \<Rightarrow> nat \<Rightarrow> bytes \<Rightarrow> bytes" where
  "sbe_loop e n buf = fold (\<lambda>i buf. snd (sbe_encode e buf (of_nat i) (floats e bench_accel) (floats e bench_gyro)
     (obj_of_word e 4 bench_temp))) [0..<n] buf"

definition fb_loop :: "endian \<Rightarrow> nat \<Rightarrow> fb_builder \<Rightarrow> fb_builder" where
  "fb_loop e n b = fold (\<lambda>i b. snd (fb_build e (of_nat i) (floats e bench_accel) (floats e bench_gyro)
     (obj_of_word e 4 bench_temp) (fb_reset b))) [0..<n] b"

text \<open>The sinks of the three reading loops.\<close>

definition bench_comparison_main ::
  "endian \<Rightarrow> (u32 \<Rightarrow> u32 \<Rightarrow> u32) \<Rightarrow> ptr \<Rightarrow> bytes \<Rightarrow> fb_builder \<Rightarrow> mem \<Rightarrow> (u32 \<times> u32 \<times> u32) option" where
  "bench_comparison_main e add sinew_buffer sbe_buffer fb m =
     (let kIterations = 5000000;
          observe = (\<lambda>obj sink. add sink (word_of_obj e (take 4 (member_of ImuTelemetry_struct ''accel'' 12 obj))))
      in Option.bind (bench_encode e ImuTelemetry sinew_buffer (imu_telemetry_fields e) False kIterations m) (\<lambda>m.
         let sbe_buffer = sbe_loop e kIterations sbe_buffer;
             fb = fb_loop e kIterations fb
         in Option.bind (bench_view e ImuTelemetry sinew_buffer observe m kIterations 0) (\<lambda>sink.
            Some (sink,
              ((\<lambda>s. add s (word_of_obj e (sbe_read_accel_x sbe_buffer))) ^^ kIterations) 0,
              ((\<lambda>s. add s (word_of_obj e (fb_read_accel_x e sbe_buffer))) ^^ kIterations) 0))))"

section \<open>Lemmas\<close>

lemma bench_wf: "wf_ctype BenchmarkTelemetry_struct" "wf_ctype ImuTelemetry_struct" "wf_ctype RobotJointState_struct"
  by (simp_all add: BenchmarkTelemetry_struct_def ImuTelemetry_struct_def RobotJointState_struct_def)

text \<open>The sizes: a payload of 36 bytes of members takes 40 in a packet of 56, and one of 108 takes 112.\<close>

lemma bench_sizes [simp]:
  "csize BenchmarkTelemetry_struct = 40" "csize ImuTelemetry_struct = 40" "csize RobotJointState_struct = 112"
  by (simp_all add: BenchmarkTelemetry_struct_def ImuTelemetry_struct_def RobotJointState_struct_def align_up_def)

lemma bench_messages [simp]:
  "mt_sizeof BenchmarkTelemetry = 40" "mt_construct BenchmarkTelemetry = id"
  "mt_sizeof ImuTelemetry = 40" "mt_construct ImuTelemetry = id" "message_size ImuTelemetry = 56"
  "mt_sizeof RobotJointState = 112"
  by (simp_all add: BenchmarkTelemetry_def ImuTelemetry_def RobotJointState_def message_size_eq)

lemma bench_offsets:
  "offsetof BenchmarkTelemetry_struct ''timestamp'' = Some 0" "offsetof BenchmarkTelemetry_struct ''lat'' = Some 8"
  "offsetof BenchmarkTelemetry_struct ''lon'' = Some 16" "offsetof BenchmarkTelemetry_struct ''alt'' = Some 24"
  "offsetof BenchmarkTelemetry_struct ''velocity_x'' = Some 28" "offsetof BenchmarkTelemetry_struct ''velocity_y'' = Some 32"
  "offsetof BenchmarkTelemetry_struct ''velocity_z'' = Some 36"
  "offsetof ImuTelemetry_struct ''timestamp_ns'' = Some 0" "offsetof ImuTelemetry_struct ''accel'' = Some 8"
  "offsetof ImuTelemetry_struct ''gyro'' = Some 20" "offsetof ImuTelemetry_struct ''temp_c'' = Some 32"
  by (simp_all add: BenchmarkTelemetry_struct_def ImuTelemetry_struct_def offsets_def align_up_def)

lemma length_floats [simp]: "length (floats e xs) = 4 * length xs"
  by (induction xs) (simp_all add: floats_def)

lemma bench_array_lengths [simp]: "length bench_accel = 3" "length bench_gyro = 3"
  by (simp_all add: bench_accel_def bench_gyro_def)

lemma bench_fields_inside:
  "fields_inside 40 (bench_fields e i)" "fields_inside 40 (imu_telemetry_fields e i)"
  "fields_inside 40 (assign_members BenchmarkTelemetry_struct (bench_position e t))"
  by (simp_all add: bench_fields_def bench_position_def imu_telemetry_fields_def assign_members_def bench_offsets
      fields_inside_def)

text \<open>What an iteration of a writing loop leaves, and what a reading loop sees.\<close>

lemma bench_written:
  assumes "fits T buffer" "fields_inside (mt_sizeof T) fs"
  obtains m' where "bench_write e T buffer fs c m = Some m'"
    "slot_look e T False m' buffer = Some (apply_fields fs (mt_construct T (replicate (mt_sizeof T) 0)))"
proof
  have valid: "is_valid_message T" using assms(1) by (simp add: fits_def)
  let ?m = "write_fields (prepared e T m buffer) (buffer + 16) fs"
  show "bench_write e T buffer fs c m = Some (slot_seal e T c ?m buffer)"
    using assms(1) by (simp add: bench_write_def prepare_array_def slot_seal_def)
  have "stamped e T ?m buffer" by (intro stamped_write_fields stamped_prepared valid)
  from wire.look_seal [OF assms(1) this, of False c]
  show "slot_look e T False (slot_seal e T c ?m buffer) buffer =
      Some (apply_fields fs (mt_construct T (replicate (mt_sizeof T) 0)))"
    using assms(2) by (simp add: read_write_fields read_prepared_payload [OF valid])
qed

lemma bench_encoded:
  assumes "fits T buffer" "\<And>i. fields_inside (mt_sizeof T) (mem_fields i)"
  shows "\<exists>m'. bench_encode e T buffer mem_fields c n m = Some m' \<and> (\<forall>i. n = Suc i \<longrightarrow>
    slot_look e T False m' buffer = Some (apply_fields (mem_fields i) (mt_construct T (replicate (mt_sizeof T) 0))))"
proof (induction n)
  case (Suc n)
  then obtain m1 where "bench_encode e T buffer mem_fields c n m = Some m1" by blast
  moreover obtain m2 where "bench_write e T buffer (mem_fields n) c m1 = Some m2"
    "slot_look e T False m2 buffer = Some (apply_fields (mem_fields n) (mt_construct T (replicate (mt_sizeof T) 0)))"
    using bench_written [OF assms] .
  ultimately show ?case by simp
qed simp

lemma bench_viewed:
  assumes "fits T buffer" "slot_look e T False m buffer = Some v"
  shows "bench_view e T buffer observe m n sink = Some ((observe v ^^ n) sink)"
  using assms(2)
  by (induction n arbitrary: sink)
    (simp_all add: view_array_crc_def view_slot_look slot_look_Some funpow_swap1 Let_def)

text \<open>The reference encoders: what can be read back, and where the builder puts its table.\<close>

lemma sbe_slices:
  assumes "length dest = 128" "length a = 12" "length g = 12" "length temp = 4"
  shows "length (snd (sbe_encode e dest t a g temp)) = 128"
    "sbe_read_accel_x (snd (sbe_encode e dest t a g temp)) = take 4 a"
    "slice 0 8 (snd (sbe_encode e dest t a g temp)) =
       obj_of_word e 2 (36 :: u16) @ obj_of_word e 2 (10 :: u16) @ obj_of_word e 2 (1 :: u16) @ obj_of_word e 2 (1 :: u16)"
proof -
  let ?d = "snd (sbe_encode e dest t a g temp)"
  show "length ?d = 128" using assms by (simp add: sbe_encode_def)
  have "slice 16 12 ?d = a"
    using assms by (simp add: sbe_encode_def slice_splice_same slice_splice_other)
  moreover have "slice 16 4 ?d = slice 0 4 (slice 16 12 ?d)" by (simp add: slice_slice)
  ultimately show "sbe_read_accel_x ?d = take 4 a" by (simp add: sbe_read_accel_x_def slice_def)
  have parts: "slice 0 2 ?d = obj_of_word e 2 (36 :: u16)" "slice 2 2 ?d = obj_of_word e 2 (10 :: u16)"
    "slice 4 2 ?d = obj_of_word e 2 (1 :: u16)" "slice 6 2 ?d = obj_of_word e 2 (1 :: u16)"
    using assms by (simp_all add: sbe_encode_def slice_splice_same slice_splice_other)
  have "slice 0 8 ?d = slice 0 2 ?d @ slice 2 2 ?d @ slice 4 2 ?d @ slice 6 2 ?d"
    using take_add [of 2 6 ?d] take_add [of 2 4 "drop 2 ?d"] take_add [of 2 2 "drop 4 ?d"] by (simp add: slice_def)
  with parts show "slice 0 8 ?d = obj_of_word e 2 (36 :: u16) @ obj_of_word e 2 (10 :: u16)
      @ obj_of_word e 2 (1 :: u16) @ obj_of_word e 2 (1 :: u16)" by simp
qed

text \<open>Read as a table of the builder, the header of the other encoder gives its own bytes 1 to 4.\<close>

lemma fb_reads_header:
  assumes "slice 0 8 buffer = obj_of_word e 2 (36 :: u16) @ obj_of_word e 2 (10 :: u16)
      @ obj_of_word e 2 (1 :: u16) @ obj_of_word e 2 (1 :: u16)" "8 \<le> length buffer"
  shows "fb_read_accel_x e buffer = (case e of Little \<Rightarrow> [0, 10, 0, 1] | Big \<Rightarrow> [36, 0, 10, 0])"
proof -
  have part: "slice 4 2 buffer = slice 4 2 (slice 0 8 buffer)" "slice 1 4 buffer = slice 1 4 (slice 0 8 buffer)"
    by (simp_all add: slice_slice)
  have "slice 4 2 buffer = obj_of_word e 2 (1 :: u16)" unfolding part(1) assms(1) by (simp add: slice_def)
  moreover have "slice 1 4 buffer = (case e of Little \<Rightarrow> [0, 10, 0, 1] | Big \<Rightarrow> [36, 0, 10, 0])"
    unfolding part(2) assms(1) by (cases e) (simp_all add: slice_def obj_of_word_def bytes_le_2)
  ultimately show ?thesis by (simp add: fb_read_accel_x_def)
qed

lemma fb_build_result:
  assumes "length (fb_buf b) = 128" "length (fb_vtable b) = 8" "fb_offset b = 128"
    and "length a = 12" "length g = 12" "length temp = 4"
  shows "fst (fb_build e t a g temp b) = 52" "fb_offset (snd (fb_build e t a g temp b)) = 76"
    "fb_vtable (snd (fb_build e t a g temp b)) ! 2 = 100" "slice 100 12 (fb_buf (snd (fb_build e t a g temp b))) = a"
proof -
  have "length (concat (map (obj_of_word e 2) vs)) = 2 * length vs" for vs :: "u16 list"
    by (induction vs) simp_all
  with assms show "fst (fb_build e t a g temp b) = 52" "fb_offset (snd (fb_build e t a g temp b)) = 76"
    "fb_vtable (snd (fb_build e t a g temp b)) ! 2 = 100" "slice 100 12 (fb_buf (snd (fb_build e t a g temp b))) = a"
    by (simp_all add: fb_build_def fb_prepend_def Let_def slice_splice_same slice_splice_other)
qed

lemma sbe_loop_last:
  assumes "length buf = 128" "0 < n"
  shows "sbe_read_accel_x (sbe_loop e n buf) = obj_of_word e 4 (0x3D4CCCCD :: u32)"
    "fb_read_accel_x e (sbe_loop e n buf) = (case e of Little \<Rightarrow> [0, 10, 0, 1] | Big \<Rightarrow> [36, 0, 10, 0])"
proof -
  have len: "length (sbe_loop e k buf) = 128" for k
    using assms(1) by (induction k) (simp_all add: sbe_loop_def sbe_slices)
  obtain k where n: "n = Suc k" using assms(2) by (cases n) simp_all
  let ?d = "sbe_encode e (sbe_loop e k buf) (of_nat k) (floats e bench_accel) (floats e bench_gyro) (obj_of_word e 4 bench_temp)"
  have last: "sbe_loop e n buf = snd ?d" by (simp add: n sbe_loop_def)
  have first: "take 4 (floats e bench_accel) = obj_of_word e 4 (0x3D4CCCCD :: u32)"
    by (simp add: floats_def bench_accel_def)
  note slices = sbe_slices [OF len, of "floats e bench_accel" "floats e bench_gyro" "obj_of_word e 4 bench_temp" e k]
  show "sbe_read_accel_x (sbe_loop e n buf) = obj_of_word e 4 (0x3D4CCCCD :: u32)"
    unfolding last using slices(2) first by simp
  show "fb_read_accel_x e (sbe_loop e n buf) = (case e of Little \<Rightarrow> [0, 10, 0, 1] | Big \<Rightarrow> [36, 0, 10, 0])"
    unfolding last using slices(1,3) by (intro fb_reads_header) simp_all
qed

section \<open>Properties of the benchmarks\<close>

text \<open>
  The loops of \<open>bench_wire\<close> never meet a null pointer, and every iteration of the reading loop adds the
  values that the last message was given.
\<close>

theorem bench_wire_runs:
  assumes "fits BenchmarkTelemetry buffer"
  shows "bench_wire_main e add buffer m = Some ((add 0x4042E32FEC56D5D0 0x42C80000 ^^ 2000000) 0)"
proof -
  note encoded = bench_encoded [OF assms, of "bench_fields e", simplified, OF bench_fields_inside(1)]
  obtain m1 where m1: "bench_encode e BenchmarkTelemetry buffer (bench_fields e) False 2000000 m = Some m1"
    using encoded by blast
  obtain m2 where m2: "bench_encode e BenchmarkTelemetry buffer (bench_fields e) True 2000000 m1 = Some m2"
    using encoded by blast
  let ?fs = "assign_members BenchmarkTelemetry_struct (bench_position e 123456789)"
  obtain m3 where m3: "bench_write e BenchmarkTelemetry buffer ?fs False m2 = Some m3"
    and look: "slot_look e BenchmarkTelemetry False m3 buffer = Some (apply_fields ?fs (replicate 40 0))"
    using bench_written [OF assms, of ?fs e False m2] bench_fields_inside(3) by auto
  let ?obj = "apply_fields ?fs (replicate 40 0)"
  have read: "member_of BenchmarkTelemetry_struct ''lat'' 8 ?obj = obj_of_word e 8 (0x4042E32FEC56D5D0 :: u64)"
    "member_of BenchmarkTelemetry_struct ''alt'' 4 ?obj = obj_of_word e 4 (0x42C80000 :: u32)"
    by (simp_all add: member_of_def assign_members_def bench_position_def bench_offsets slice_splice_same slice_splice_other)
  show ?thesis
    by (simp add: bench_wire_main_def Let_def m1 m2 m3 bench_viewed [OF assms look] read)
qed

text \<open>
  The comparison program: the loop over \<open>view\<close> never meets a null pointer and reads the acceleration
  that was written, as does the sequential encoder; the loop that stands for a table-based format
  reads the buffer of the sequential encoder, takes its schema number for an offset, and adds four
  bytes of its header.
\<close>

theorem comparison_reads:
  assumes "fits ImuTelemetry sinew_buffer" "length sbe_buffer = 128"
  shows "bench_comparison_main e add sinew_buffer sbe_buffer fb m =
    Some (((\<lambda>s. add s 0x3D4CCCCD) ^^ 5000000) 0, ((\<lambda>s. add s 0x3D4CCCCD) ^^ 5000000) 0,
      ((\<lambda>s. add s (word_of_obj e (case e of Little \<Rightarrow> [0, 10, 0, 1] | Big \<Rightarrow> [36, 0, 10, 0]))) ^^ 5000000) 0)"
proof -
  obtain m1 where m1: "bench_encode e ImuTelemetry sinew_buffer (imu_telemetry_fields e) False 5000000 m = Some m1"
    and look: "slot_look e ImuTelemetry False m1 sinew_buffer = Some (apply_fields (imu_telemetry_fields e 4999999) (replicate 40 0))"
    using bench_encoded [OF assms(1), of "imu_telemetry_fields e" e False 5000000 m] bench_fields_inside(2) by auto
  have "member_of ImuTelemetry_struct ''accel'' 12 (apply_fields (imu_telemetry_fields e 4999999) (replicate 40 0)) =
      floats e bench_accel"
    by (simp add: member_of_def imu_telemetry_fields_def assign_members_def bench_offsets slice_splice_same slice_splice_other)
  then have "take 4 (member_of ImuTelemetry_struct ''accel'' 12 (apply_fields (imu_telemetry_fields e 4999999) (replicate 40 0))) =
      obj_of_word e 4 (0x3D4CCCCD :: u32)"
    by (simp add: floats_def bench_accel_def)
  then show ?thesis
    using sbe_loop_last [OF assms(2), of 5000000 e]
    by (simp add: bench_comparison_main_def Let_def m1 bench_viewed [OF assms(1) look])
qed

theorem comparison_reads_witness:
  "\<exists>x. bench_comparison_main Little (\<lambda>s x. x) 64 (replicate 128 0)
     \<lparr>fb_buf = replicate 128 0, fb_vtable = replicate 8 0, fb_offset = 128\<rparr> dirty = Some x \<and> fst x = 0x3D4CCCCD"
proof -
  have "fits ImuTelemetry 64"
    by (simp add: fits_def nullptr_def ImuTelemetry_def struct_message_valid bench_wf)
      (simp add: ImuTelemetry_struct_def)
  moreover have const: "((\<lambda>s. x) ^^ Suc n) y = x" for n and x y :: u32
    by (induction n) simp_all
  have "(5000000 :: nat) = Suc 4999999" by simp
  then have "((\<lambda>s. x) ^^ 5000000) y = x" for x y :: u32 by (simp only: const)
  ultimately show ?thesis using comparison_reads [of 64 "replicate 128 0"] by simp
qed

end
