(* ===== verification/Spec2Isabelle.thy ===== *)
theory Spec2Isabelle
  imports Ipc_Processes Dispatch Ipc_Lifetime Shm_Windows Ros2_Messages Example_Imu Example_Ipc Example_Mcu Benchmarks
begin

text \<open>
  Verification of \<open>sinew\<close>, a header-only C++ library for fixed-layout messages: a 16-byte header and
  the object representation of a trivially copyable type, written and read in place, and rings that
  carry such packets between threads and processes. Headers named below are in
  \<open>src/include/sinew/\<close>, programs in \<open>src/examples/\<close> and \<open>src/benchmarks/\<close>.

  \<^bold>\<open>The program.\<close> A message type is registered with an identifier and a schema version
  (\<open>message.hpp\<close>, \<open>sinew.hpp\<close>). \<open>wire.hpp\<close> stamps and seals a packet (\<open>prepare_result\<close>, \<open>finalize\<close>)
  and validates one before it hands out a pointer into it (\<open>validate\<close>, \<open>view_result\<close>), with an
  optional CRC-32 (\<open>crc32.hpp\<close>). The rings keep an array of such packets between two free-running
  cursors: within a process (\<open>ring_buffer.hpp\<close>), in a shared memory segment (\<open>ipc_ring_buffer.hpp\<close> on
  \<open>shm.hpp\<close>), and for packets of any type in one segment (\<open>ipc_envelope.hpp\<close>). \<open>dispatch.hpp\<close> finds
  the type of a packet at run time; \<open>portable.hpp\<close> converts byte order by field reflection;
  \<open>containers.hpp\<close> holds the vectors and strings that messages embed; \<open>ros2_bridge.hpp\<close> moves
  messages between a ring and a callback. Three example programs and two benchmarks put the parts
  together.

  \<^bold>\<open>The model.\<close> Memory is a total function from addresses to bytes, a pointer an address, \<open>nullptr\<close>
  the address 0 (\<open>Prelude\<close>). Object sizes, and pointer arithmetic, are natural numbers; integers the
  code computes with are words of their width: \<open>uint32_t\<close> fields, \<open>uint64_t\<close> cursors in a segment,
  and for \<open>SpscRingBuffer\<close> a \<open>size_t\<close> of any width. A message type is the record \<open>msgtype\<close> of what
  the code asks of a C++ type: size, alignment, traits, and the default constructor as a function on
  the bytes it runs over. A message value is its byte list; a floating-point number is its bit
  pattern, and what the programs compute in floating point is a parameter. The byte order of the
  host is the argument \<open>e\<close> of every definition that reads or writes an integer. A member function
  takes the object (a record with the data members) with the memory and returns both. Errors are
  values: \<open>ErrorCode\<close>, \<open>nullptr\<close>, \<open>False\<close>, and for the containers the type \<open>outcome\<close>, which has
  exceptions, failed assertions and undefined array accesses as separate values.

  \<^bold>\<open>Theories: foundations.\<close>
  \<^item> \<open>Prelude\<close>: memory, object representations, the collections \<open>mem_simps\<close> and \<open>width_simps\<close>.
  \<^item> \<open>Simulation\<close>: the locale \<open>simulation\<close>, one step of a concrete state refines one step of an
    abstract one, with the lemma \<open>run_simulates\<close> for sequences of calls, and \<open>step_simulation\<close>, the
    same for runs of a step relation. Every component with an abstract specification interprets one.
  \<^item> \<open>Slots\<close>: the arithmetic of free-running cursors and masked indices, with wrap-around, and the
    list of packets between them; the locale \<open>packet_slot\<close> states what a ring needs of its slots.
  \<^item> \<open>Ring_Interface\<close>: the locales \<open>ring_consumer\<close> and \<open>message_ring\<close>, the operations a client calls
    and the laws of a bounded queue they obey; the queue \<open>queue_step\<close> is the abstract specification.

  \<^bold>\<open>Theories: packets.\<close>
  \<^item> \<open>Endian\<close> (\<open>endian.hpp\<close>, \<open>byte_swap\<close> of \<open>portable.hpp\<close>): each \<open>bswap\<close> reverses the object
    representation; the locale \<open>wire_scalar\<close> derives the conversions of one width from that and is
    interpreted at 16, 32 and 64 bits.
  \<^item> \<open>Crc32\<close> (\<open>crc32.hpp\<close>): the table and the loop equal the bit-serial register; the locale
    \<open>xor_linear\<close> carries the linearity of the shift, from which burst errors are detected.
  \<^item> \<open>Message\<close> (\<open>types.hpp\<close>, \<open>message.hpp\<close>, \<open>sinew.hpp\<close>): header, error codes and how they print,
    traits, generated identifiers, and three types of the test suite as concrete instances.
  \<^item> \<open>Wire\<close> (\<open>wire.hpp\<close>): what validation establishes, what preparation and finalisation leave in
    memory, round trip, corruption, determinism of the bytes.
  \<^item> \<open>Dispatch\<close> (\<open>dispatch.hpp\<close>): inspection, the check of the type list, dispatch.
  \<^item> \<open>Containers\<close> (\<open>containers.hpp\<close>): both containers refine lists of bounded length.
  \<^item> \<open>Reflect\<close>, \<open>Portable\<close> (\<open>portable.hpp\<close>): layouts of reflected types, the in-place conversion, the
    value of an object on a host, encoding and decoding between hosts of any byte order.
  \<^item> \<open>Object_Layout\<close>: structs as they are declared, with the sizes, alignments and member offsets an
    ABI gives them, and what the codec of \<open>Reflect\<close> sees of their members.

  \<^bold>\<open>Theories: rings.\<close>
  \<^item> \<open>Ring_Buffer\<close> (\<open>ring_buffer.hpp\<close>), \<open>Ipc_Ring_Buffer\<close> (\<open>ipc_ring_buffer.hpp\<close>): the operations, an
    invariant, and the interpretation of \<open>message_ring\<close>. For the shared ring also creation,
    attachment, and a peer that maps the segment at another address (\<open>same_segment\<close>).
  \<^item> \<open>Ipc_Envelope\<close> (\<open>ipc_envelope.hpp\<close>): the bus as a queue of packets tagged with their type.
  \<^item> \<open>Spsc_Protocol\<close>: the ring under two threads, one step per atomic access, with an invariant by
    rule induction; \<open>perform\<close> is the executable form of the step relation.
  \<^item> \<open>Spsc_Threads\<close>: \<open>push\<close> and \<open>pop\<close> by two threads on the bytes of the ring, each call cut at its
    accesses of a cursor. Every run is a run of \<open>Spsc_Protocol\<close>; a call run without interruption is
    the function of \<open>Ring_Buffer\<close>.
  \<^item> \<open>Ipc_Shared\<close>: the ring of a segment used by two processes, each with its own memory, object
    and mapping, refines the queue.
  \<^item> \<open>Ipc_Processes\<close>: \<open>push\<close> and \<open>pop\<close> by two processes at the same time on the bytes of the segment,
    cut and related to \<open>Spsc_Protocol\<close> as in \<open>Spsc_Threads\<close>.
  \<^item> \<open>Shm\<close>, \<open>Shm_Windows\<close> (\<open>shm.hpp\<close>): segment names, and the life of a region over the system
    calls, in the POSIX and in the Windows build.
  \<^item> \<open>Ipc_Lifetime\<close>: construction to destruction of both shared objects: what they hold of the
    operating system, the moves, and an \<open>open\<close> that meets a header still being written.

  \<^bold>\<open>Theories: clients.\<close>
  \<^item> \<open>Ros2_Bridge\<close>, \<open>Ros2_Messages\<close> (\<open>ros2_bridge.hpp\<close>): both workers, proved once against the ring
    interface and instantiated for both rings; the schemas with their default initialisers.
  \<^item> \<open>Pipeline\<close>: the producer and consumer loops of the examples over any ring of the interface,
    under a schedule of turns.
  \<^item> \<open>Example_Imu\<close>, \<open>Example_Ipc\<close>, \<open>Example_Mcu\<close> (\<open>imu_telemetry.cpp\<close>, \<open>ipc_telemetry.cpp\<close>,
    \<open>mcu_freestanding.cpp\<close>): the messages, the steps and the main functions. In \<open>Example_Ipc\<close> the
    consumer opens the segment at its first turn, while the producer is streaming, or fails to.
  \<^item> \<open>Benchmarks\<close> (\<open>bench_wire.cpp\<close>, \<open>bench_comparison.cpp\<close>): the timed loops and the two sketched
    encoders they compare with.

  \<^bold>\<open>Hypotheses.\<close> The properties assume what the type system or the platform gives: the
  \<open>static_assert\<close>s (\<open>is_valid_message\<close>, \<open>capacity_ok\<close>), a suitably aligned buffer that does not start
  at address 0 (\<open>fits\<close>), and the invariant of an object, which its constructor establishes. The
  system calls are the records \<open>posix\<close> and \<open>win32\<close>, parameters; \<open>posix_ok\<close> and \<open>win32_ok\<close> say what
  they do to descriptors, handles, mappings and names, and \<open>demo_posix\<close> and \<open>demo_win32\<close> are
  concrete systems that satisfy them. Struct layouts are those of an ABI that aligns a scalar to its
  size (\<open>Object_Layout\<close>). Visitors, callbacks and ROS conversions are parameters without
  hypotheses, except that they do not write to the ring. The loops of the examples that retry for
  ever are given a schedule that lets both threads run again and again (\<open>fair\<close>).

  \<^bold>\<open>Concurrency.\<close> The models of the classes execute one member function at a time. \<open>Spsc_Protocol\<close>
  splits the four operations of the protocol into single accesses and lets loads of the other
  thread's cursor return any value since the last one loaded. It rests on release/acquire visibility
  of the slots, as documented for \<open>std::atomic\<close>; the payload of a slot is one cell in it, \<open>None\<close> while
  it is being written. \<open>Spsc_Threads\<close> and \<open>Ipc_Processes\<close> carry its results to the bytes of
  \<open>SpscRingBuffer\<close> and of the segment of an \<open>IpcRingBuffer\<close>. The header
  fields that \<open>create\<close> stores without synchronisation may become visible in any order
  (\<open>Ipc_Lifetime\<close>). In \<open>Ipc_Shared\<close> a turn is a whole call,
  in \<open>Pipeline\<close> an iteration of a loop.

  \<^bold>\<open>Termination and bounds.\<close> No definition uses fuel: every loop of the library is bounded by a size
  or a count (\<open>spin_loop\<close> by \<open>max_messages - processed\<close>), and the definitions are total functions. The
  loop that drains a ring in \<open>mcu_freestanding.cpp\<close> has a termination proof by the messages left in
  the ring. The retry loops of the examples run one turn per step of a schedule, so that their end is
  a theorem about every fair schedule.

  \<^bold>\<open>Not modelled.\<close> The unit tests and their harness; the clock and the text the programs print;
  cache-line padding as far as it only avoids false sharing; deleted members, which have no body; the
  build files.

  \<^bold>\<open>What the proofs showed.\<close> The properties hold under the hypotheses above. Outside them, theorems
  state what the code does instead: \<open>spsc_size_after_wrap\<close>, \<open>spsc_overaligned_never_writable\<close>,
  \<open>spsc_corrupt_slot_blocks\<close>, \<open>spsc_commit_read_on_empty\<close>, \<open>zero_crc_unprotected\<close>,
  \<open>array_fields_not_converted\<close>, \<open>large_vector_half_converted\<close>, \<open>oversized_size_field\<close>,
  \<open>ipc_example_stalls\<close>, \<open>moved_from_ring_dangles\<close>, \<open>create_exclusive_unlinks_existing\<close>,
  \<open>reset_repeats_messages\<close> and \<open>comparison_reads\<close>.
\<close>

end
